(* ===== verification/Prelude.thy ===== *)
theory Prelude
  imports Main "HOL-Library.Word" "HOL-Library.Signed_Division"
begin

text \<open>
  Shared vocabulary of the development: results and errors of the actors, checked machine
  arithmetic, token amounts, runs of a step relation, and the interfaces (\<open>keyed_store\<close>,
  \<open>deletable_store\<close>, \<open>sequential_executor\<close>) that several components of the repository provide.
\<close>

section \<open>Errors and results\<close>

text \<open>
  The exit codes the sources name, either through \<open>actor_error!\<close> or \<open>ExitCode::...\<close>.
\<close>

datatype exit_code =
    USR_ILLEGAL_ARGUMENT
  | USR_ILLEGAL_STATE
  | USR_FORBIDDEN
  | USR_UNHANDLED_MESSAGE
  | USR_UNSPECIFIED

text \<open>
  An operation of an actor fails with an \<open>ActorError\<close> (only the exit code is kept, the message is
  text for humans), with an \<open>anyhow\<close> error that has no code yet, or by a panic (an index out of
  range, \<open>unwrap\<close> of a \<open>None\<close>, \<open>unreachable!\<close>, an arithmetic overflow: the \<open>wasm\<close> profile of
  the workspace sets \<open>overflow-checks = true\<close>). All three abort the message and roll its state back.
\<close>

datatype error =
    ActorError exit_code
  | Anyhow
  | Panic

type_synonym 'a res = "error + 'a"

text \<open>The \<open>?\<close> operator of the sources: go on with the value, or return the error.\<close>

definition and_then :: "'e + 'a \<Rightarrow> ('a \<Rightarrow> 'e + 'b) \<Rightarrow> 'e + 'b" where
  "and_then r f = (case r of Inl e \<Rightarrow> Inl e | Inr a \<Rightarrow> f a)"

definition map_err :: "('e \<Rightarrow> 'f) \<Rightarrow> 'e + 'a \<Rightarrow> 'f + 'a" where
  "map_err h r = (case r of Inl e \<Rightarrow> Inl (h e) | Inr a \<Rightarrow> Inr a)"

definition ok_or :: "'e \<Rightarrow> 'a option \<Rightarrow> 'e + 'a" where
  "ok_or e x = (case x of None \<Rightarrow> Inl e | Some a \<Rightarrow> Inr a)"

text \<open>
  \<open>e.downcast_default(code, _)\<close> and \<open>map_err(|_| actor_error!(code, _))\<close>: the first keeps the
  code of an error that already is an \<open>ActorError\<close>, the second replaces it. Neither catches a panic.
\<close>

fun downcast_default :: "exit_code \<Rightarrow> error \<Rightarrow> error" where
  "downcast_default c (ActorError d) = ActorError d"
| "downcast_default c Anyhow = ActorError c"
| "downcast_default c Panic = Panic"

fun replace_error :: "exit_code \<Rightarrow> error \<Rightarrow> error" where
  "replace_error c (ActorError d) = ActorError c"
| "replace_error c Anyhow = ActorError c"
| "replace_error c Panic = Panic"

lemma and_then_simps [simp]:
  "and_then (Inl e) f = Inl e"
  "and_then (Inr a) f = f a"
  by (simp_all add: and_then_def)

lemma and_then_Inr [simp]:
  "and_then r f = Inr b \<longleftrightarrow> (\<exists>a. r = Inr a \<and> f a = Inr b)"
  by (cases r) auto

lemma and_then_Inl:
  "and_then r f = Inl e \<longleftrightarrow> r = Inl e \<or> (\<exists>a. r = Inr a \<and> f a = Inl e)"
  by (cases r) auto

lemma and_then_assoc: "and_then (and_then r f) g = and_then r (\<lambda>a. and_then (f a) g)"
  by (cases r) simp_all

lemma map_err_simps [simp]:
  "map_err h (Inl e) = Inl (h e)"
  "map_err h (Inr a) = Inr a"
  by (simp_all add: map_err_def)

lemma map_err_Inr [simp]: "map_err h r = Inr a \<longleftrightarrow> r = Inr a"
  by (cases r) simp_all

lemma ok_or_simps [simp]:
  "ok_or e None = Inl e"
  "ok_or e (Some a) = Inr a"
  by (simp_all add: ok_or_def)

lemma ok_or_Inr [simp]: "ok_or e x = Inr a \<longleftrightarrow> x = Some a"
  by (cases x) simp_all

lemma not_Inl_iff: "(\<forall>e. r \<noteq> Inl e) \<longleftrightarrow> (\<exists>a. r = Inr a)"
  by (cases r) auto

text \<open>A fold that stops at the first error: the \<open>for\<close> loops with \<open>?\<close> in their body.\<close>

fun fold_res :: "('a \<Rightarrow> 's \<Rightarrow> 'e + 's) \<Rightarrow> 'a list \<Rightarrow> 's \<Rightarrow> 'e + 's" where
  "fold_res f [] s = Inr s"
| "fold_res f (x # xs) s = and_then (f x s) (fold_res f xs)"

lemma fold_res_append:
  "fold_res f (xs @ ys) s = and_then (fold_res f xs s) (fold_res f ys)"
  by (induction xs arbitrary: s) (simp_all add: and_then_assoc and_then_def split: sum.split)

text \<open>An invariant of the loop body is an invariant of the loop.\<close>

lemma fold_res_invariant:
  assumes "\<And>x s s'. x \<in> set xs \<Longrightarrow> P s \<Longrightarrow> f x s = Inr s' \<Longrightarrow> P s'"
    and "fold_res f xs s = Inr s'" and "P s"
  shows "P s'"
  using assms
proof (induction xs arbitrary: s)
  case Nil
  then show ?case by simp
next
  case (Cons x xs)
  from Cons.prems(2) obtain t where t: "f x s = Inr t" "fold_res f xs t = Inr s'"
    by auto
  have "P t" using Cons.prems(1) [of x s t] Cons.prems(3) t(1) by simp
  show ?case
    by (rule Cons.IH [OF _ t(2) \<open>P t\<close>]) (use Cons.prems(1) in auto)
qed

lemma in_map_filter_iff: "y \<in> set (List.map_filter f xs) \<longleftrightarrow> (\<exists>x \<in> set xs. f x = Some y)"
  by (induction xs) (auto simp: map_filter_simps split: option.split)

lemma map_filter_append: "List.map_filter f (xs @ ys) = List.map_filter f xs @ List.map_filter f ys"
  by (simp add: map_filter_def)

lemma map_filter_map: "List.map_filter f (map g xs) = List.map_filter (f \<circ> g) xs"
  by (simp add: map_filter_def filter_map comp_def)

lemma map_filter_replicate:
  "List.map_filter f (replicate n y) = (case f y of None \<Rightarrow> [] | Some z \<Rightarrow> replicate n z)"
  by (induction n) (simp_all add: map_filter_simps split: option.split)

section \<open>Machine arithmetic\<close>

text \<open>
  \<open>ChainEpoch\<close> is an \<open>i64\<close>. An epoch is kept as an \<open>int\<close>, and every operation of the code on
  epochs checks the result, as the compiled code does. Division and remainder truncate towards
  zero.
\<close>

type_synonym chain_epoch = int

definition i64_range :: "int \<Rightarrow> bool" where
  "i64_range n \<longleftrightarrow> - (2 ^ 63) \<le> n \<and> n < 2 ^ 63"

definition i64_check :: "int \<Rightarrow> int res" where
  "i64_check n = (if i64_range n then Inr n else Inl Panic)"

definition i64_add :: "int \<Rightarrow> int \<Rightarrow> int res" where
  "i64_add a b = i64_check (a + b)"

definition i64_sub :: "int \<Rightarrow> int \<Rightarrow> int res" where
  "i64_sub a b = i64_check (a - b)"

definition i64_mul :: "int \<Rightarrow> int \<Rightarrow> int res" where
  "i64_mul a b = i64_check (a * b)"

definition i64_div :: "int \<Rightarrow> int \<Rightarrow> int res" where
  "i64_div a b = (if b = 0 then Inl Panic else i64_check (a sdiv b))"

definition i64_rem :: "int \<Rightarrow> int \<Rightarrow> int res" where
  "i64_rem a b = (if b = 0 \<or> (b = -1 \<and> a = - (2 ^ 63)) then Inl Panic else Inr (a smod b))"

lemma i64_check_Inr [simp]: "i64_check n = Inr m \<longleftrightarrow> i64_range n \<and> m = n"
  by (auto simp: i64_check_def)

lemma i64_add_Inr [simp]: "i64_add a b = Inr c \<longleftrightarrow> i64_range (a + b) \<and> c = a + b"
  by (simp add: i64_add_def)

lemma i64_sub_Inr [simp]: "i64_sub a b = Inr c \<longleftrightarrow> i64_range (a - b) \<and> c = a - b"
  by (simp add: i64_sub_def)

lemma i64_mul_Inr [simp]: "i64_mul a b = Inr c \<longleftrightarrow> i64_range (a * b) \<and> c = a * b"
  by (simp add: i64_mul_def)

text \<open>For a non-negative dividend and a positive divisor the truncating operations are \<open>div\<close> and \<open>mod\<close>.\<close>

lemma sdiv_nonneg: "0 \<le> a \<Longrightarrow> 0 < b \<Longrightarrow> (a::int) sdiv b = a div b"
  by (cases "a = 0") (simp_all add: signed_divide_int_def)

lemma smod_nonneg: "0 \<le> a \<Longrightarrow> 0 < b \<Longrightarrow> (a::int) smod b = a mod b"
  by (cases "a = 0") (simp_all add: signed_modulo_int_def)

lemma smod_0_iff_dvd: "b \<noteq> 0 \<Longrightarrow> (a::int) smod b = 0 \<longleftrightarrow> b dvd a"
  by (auto simp: signed_modulo_int_def sgn_0_0 dvd_eq_mod_eq_0 [symmetric])

text \<open>\<open>u64\<close> counters: \<open>n += 1\<close> panics at the largest value instead of wrapping.\<close>

type_synonym u64 = "64 word"

lemma u64_unat_less: "unat (n :: u64) < 2 ^ 64"
  using unsigned_less [of n, where ?'a = nat] by simp

lemma u64_of_nat_unat: "i < unat (n :: u64) \<Longrightarrow> unat (of_nat i :: u64) = i"
  using u64_unat_less [of n] by (simp add: unat_of_nat)

definition u64_incr :: "u64 \<Rightarrow> u64 res" where
  "u64_incr n = (if n = - 1 then Inl Panic else Inr (n + 1))"

definition u64_decr :: "u64 \<Rightarrow> u64 res" where
  "u64_decr n = (if n = 0 then Inl Panic else Inr (n - 1))"

lemma u64_incr_unat:
  assumes "u64_incr n = Inr m"
  shows "unat m = Suc (unat n)"
proof -
  have "n \<noteq> - 1" and m: "m = n + 1"
    using assms by (auto simp: u64_incr_def split: if_splits)
  then have "n + 1 \<noteq> 0"
    by (metis add_eq_0_iff2)
  then show ?thesis
    by (simp add: m unatSuc add.commute)
qed

lemma u64_incr_less: "u64_incr n = Inr m \<Longrightarrow> n < m"
  by (simp add: u64_incr_unat word_less_nat_alt)

lemma u64_decr_unat: "u64_decr n = Inr m \<Longrightarrow> unat n = Suc (unat m)"
  by (auto simp: u64_decr_def unat_minus_one unat_gt_0 split: if_splits)

lemma u64_incr_ok: "n < k \<Longrightarrow> \<exists>m. u64_incr n = Inr m"
  by (auto simp: u64_incr_def)
section \<open>Token amounts and bytes\<close>

text \<open>
  A \<open>TokenAmount\<close> is an arbitrary-precision integer number of atto (it may be negative, and the
  code checks the sign where it cares). \<open>from_nano\<close> and \<open>from_whole\<close> scale by their documented
  factors. \<open>div_floor\<close> rounds down and panics on a zero divisor.
\<close>

type_synonym token_amount = int

definition from_nano :: "int \<Rightarrow> token_amount" where
  "from_nano n = n * 10 ^ 9"

definition from_whole :: "int \<Rightarrow> token_amount" where
  "from_whole n = n * 10 ^ 18"

definition div_floor :: "token_amount \<Rightarrow> int \<Rightarrow> token_amount res" where
  "div_floor a d = (if d = 0 then Inl Panic else Inr (a div d))"

lemma div_floor_Inr [simp]: "div_floor a d = Inr r \<longleftrightarrow> d \<noteq> 0 \<and> r = a div d"
  by (auto simp: div_floor_def)

text \<open>\<open>RawBytes\<close> and \<open>Vec<u8>\<close>.\<close>

type_synonym raw_bytes = "8 word list"

section \<open>Sums over a table\<close>

definition table_sum :: "('v \<Rightarrow> int) \<Rightarrow> ('k \<rightharpoonup> 'v) \<Rightarrow> int" where
  "table_sum f m = (\<Sum>k \<in> dom m. f (the (m k)))"

lemma table_sum_empty [simp]: "table_sum f Map.empty = 0"
  by (simp add: table_sum_def)

lemma table_sum_del:
  assumes "finite (dom m)"
  shows "table_sum f (m(k := None)) = table_sum f m - (case m k of None \<Rightarrow> 0 | Some v \<Rightarrow> f v)"
proof (cases "m k")
  case None
  then have "m(k := None) = m" by auto
  with None show ?thesis by simp
next
  case (Some v)
  have "table_sum f (m(k := None)) = (\<Sum>k' \<in> dom m - {k}. f (the (m k')))"
    unfolding table_sum_def by (rule sum.cong) auto
  with Some show ?thesis
    using sum.remove [OF assms, of k "\<lambda>k. f (the (m k))"] by (auto simp: table_sum_def dom_def)
qed

lemma table_sum_upd:
  assumes "finite (dom m)"
  shows "table_sum f (m(k \<mapsto> v)) = table_sum f m - (case m k of None \<Rightarrow> 0 | Some u \<Rightarrow> f u) + f v"
proof -
  let ?m = "m(k := None)"
  have "table_sum f (m(k \<mapsto> v)) = f v + (\<Sum>k' \<in> dom ?m. f (the ((m(k \<mapsto> v)) k')))"
    using assms by (simp add: table_sum_def sum.insert_remove)
  also have "(\<Sum>k' \<in> dom ?m. f (the ((m(k \<mapsto> v)) k'))) = table_sum f ?m"
    unfolding table_sum_def by (rule sum.cong) auto
  finally show ?thesis
    unfolding table_sum_del [OF assms] by linarith
qed

lemma table_sum_nonneg: "(\<And>k v. m k = Some v \<Longrightarrow> 0 \<le> f v) \<Longrightarrow> 0 \<le> table_sum f m"
  unfolding table_sum_def by (rule sum_nonneg) auto

text \<open>Entries picked at different keys add up to no more than the whole table.\<close>

lemma table_sum_selection:
  assumes fin: "finite (dom m)" and f: "\<And>k v. m k = Some v \<Longrightarrow> 0 \<le> f v"
    and ks: "distinct ks" "map m ks = map Some vs"
  shows "sum_list (map f vs) \<le> table_sum f m"
proof -
  have "map (\<lambda>k. f (the (m k))) ks = map (f \<circ> the) (map m ks)" by simp
  also have "\<dots> = map f vs" by (simp only: ks(2)) simp
  finally have "sum_list (map f vs) = sum_list (map (\<lambda>k. f (the (m k))) ks)" by simp
  also have "\<dots> = (\<Sum>k \<in> set ks. f (the (m k)))" by (rule sum_list_distinct_conv_sum_set [OF ks(1)])
  also have "\<dots> \<le> table_sum f m"
  proof -
    have "m k \<noteq> None" if "k \<in> set ks" for k
    proof -
      have "m k \<in> set (map m ks)" using that by simp
      then show ?thesis unfolding ks(2) by auto
    qed
    then have "set ks \<subseteq> dom m" by auto
    then show ?thesis unfolding table_sum_def using f by (intro sum_mono2 [OF fin]) auto
  qed
  finally show ?thesis .
qed

section \<open>Interfaces\<close>

text \<open>
  A table in the state of an actor (a HAMT behind a \<open>TCid\<close>) whose entries carry their own key: a
  flush writes an entry under its key and touches nothing else. The clients only need this law.
\<close>

definition well_keyed :: "('s \<Rightarrow> 'k \<Rightarrow> 'v option) \<Rightarrow> ('v \<Rightarrow> 'k) \<Rightarrow> 's \<Rightarrow> bool" where
  "well_keyed look key_of s \<longleftrightarrow> (\<forall>k v. look s k = Some v \<longrightarrow> key_of v = k)"

locale keyed_store =
  fixes look :: "'s \<Rightarrow> 'k \<Rightarrow> 'v option"
    and flush :: "'v \<Rightarrow> 's \<Rightarrow> 's"
    and key_of :: "'v \<Rightarrow> 'k"
  assumes look_flush: "look (flush v s) k = (if k = key_of v then Some v else look s k)"
begin

lemma look_flush_same: "look (flush v s) (key_of v) = Some v"
  by (simp add: look_flush)

lemma dom_flush: "dom (look (flush v s)) = insert (key_of v) (dom (look s))"
  by (auto simp: look_flush split: if_splits)

lemma card_dom_flush:
  assumes "finite (dom (look s))"
  shows "card (dom (look (flush v s))) =
    card (dom (look s)) + (if look s (key_of v) = None then 1 else 0)"
  using assms by (auto simp: dom_flush card_insert_if)

text \<open>A property of every entry survives writing an entry that has it.\<close>

lemma flush_all:
  assumes "\<And>k v. look s k = Some v \<Longrightarrow> P k v" and "P (key_of v) v"
    and "look (flush v s) k' = Some v'"
  shows "P k' v'"
  using assms by (auto simp: look_flush split: if_splits)

lemma well_keyed_flush: "well_keyed look key_of s \<Longrightarrow> well_keyed look key_of (flush v s)"
  by (simp add: well_keyed_def look_flush)

lemma look_flush_twice: "key_of v = key_of w \<Longrightarrow> look (flush w (flush v s)) = look (flush w s)"
  by (rule ext) (simp add: look_flush)

end

text \<open>A table whose entries can also be removed.\<close>

locale deletable_store = keyed_store look flush key_of
  for look :: "'s \<Rightarrow> 'k \<Rightarrow> 'v option" and flush :: "'v \<Rightarrow> 's \<Rightarrow> 's" and key_of :: "'v \<Rightarrow> 'k" +
  fixes del :: "'k \<Rightarrow> 's \<Rightarrow> 's"
  assumes look_del: "look (del k s) k' = (if k' = k then None else look s k')"
begin

lemma del_all:
  assumes "\<And>k v. look s k = Some v \<Longrightarrow> P k v" and "look (del k s) k' = Some v'"
  shows "P k' v'"
  using assms by (auto simp: look_del split: if_splits)

lemma dom_del: "dom (look (del k s)) = dom (look s) - {k}"
  by (auto simp: look_del split: if_splits)

lemma card_dom_del:
  assumes "finite (dom (look s))" and "look s k \<noteq> None"
  shows "card (dom (look s)) = Suc (card (dom (look (del k s))))"
  unfolding dom_del using assms by (intro card.remove) auto

lemma well_keyed_del: "well_keyed look key_of s \<Longrightarrow> well_keyed look key_of (del k s)"
  by (simp add: well_keyed_def look_del)

end

section \<open>Runs\<close>

text \<open>A run of a labelled step relation, and the invariants it keeps.\<close>

inductive run :: "('s \<Rightarrow> 'e \<Rightarrow> 's \<Rightarrow> bool) \<Rightarrow> 's \<Rightarrow> 'e list \<Rightarrow> 's \<Rightarrow> bool"
  for step :: "'s \<Rightarrow> 'e \<Rightarrow> 's \<Rightarrow> bool" where
  run_nil [intro]: "run step s [] s"
| run_cons: "step s e t \<Longrightarrow> run step t es u \<Longrightarrow> run step s (e # es) u"

inductive_cases run_NilE [elim!]: "run step s [] t"
inductive_cases run_ConsE: "run step s (e # es) t"

lemma run_append: "run step s es t \<Longrightarrow> run step t fs u \<Longrightarrow> run step s (es @ fs) u"
  by (induction rule: run.induct) (auto intro: run_cons)

lemma run_invariant:
  assumes "run step s es t" and "P s" and "\<And>s e t. step s e t \<Longrightarrow> P s \<Longrightarrow> P t"
  shows "P t"
  using assms by (induction rule: run.induct) blast+

text \<open>An invariant that speaks about the events so far, for runs whose events all satisfy \<open>Q\<close>.\<close>

lemma run_history:
  assumes "run step s es t" and "P h s" and "\<forall>e \<in> set es. Q e"
    and "\<And>h s e t. step s e t \<Longrightarrow> Q e \<Longrightarrow> P h s \<Longrightarrow> P (h @ [e]) t"
  shows "P (h @ es) t"
  using assms(1-3)
proof (induction arbitrary: h rule: run.induct)
  case (run_cons s e t es u)
  from run_cons.IH [of "h @ [e]"] assms(4) [OF run_cons.hyps(1)] run_cons.prems show ?case by simp
qed simp

text \<open>
  An executor of numbered periods: some of its steps execute the next period, the others leave the
  last executed one alone. Whoever drives it sees the periods in order, without gaps or repetitions.
\<close>

locale sequential_executor =
  fixes step :: "'s \<Rightarrow> 'e \<Rightarrow> 's \<Rightarrow> bool"
    and last_of :: "'s \<Rightarrow> int"
    and period_of :: "'s \<Rightarrow> int"
    and executes :: "'e \<Rightarrow> int option"
  assumes period_fixed: "step s e t \<Longrightarrow> period_of t = period_of s"
    and idle: "step s e t \<Longrightarrow> executes e = None \<Longrightarrow> last_of t = last_of s"
    and advance: "step s e t \<Longrightarrow> executes e = Some n \<Longrightarrow> n = last_of s + period_of s \<and> last_of t = n"
begin

lemma run_period: "run step s es t \<Longrightarrow> period_of t = period_of s"
  by (induction rule: run.induct) (simp_all add: period_fixed)

text \<open>The executed numbers of a run are consecutive multiples of the period, in order.\<close>

lemma run_executes:
  "run step s es t \<Longrightarrow>
     List.map_filter executes es =
       map (\<lambda>i. last_of s + int (Suc i) * period_of s) [0..<length (List.map_filter executes es)] \<and>
     last_of t = last_of s + int (length (List.map_filter executes es)) * period_of s"
proof (induction rule: run.induct)
  case (run_nil s)
  then show ?case by (simp add: List.map_filter_def)
next
  case (run_cons s e t es u)
  note p = period_fixed [OF run_cons.hyps(1)]
  show ?case
  proof (cases "executes e")
    case None
    with idle [OF run_cons.hyps(1) None] run_cons.IH p show ?thesis
      by (simp add: map_filter_simps)
  next
    case (Some n)
    let ?k = "length (List.map_filter executes es)"
    have n: "n = last_of s + period_of s" "last_of t = n"
      using advance [OF run_cons.hyps(1) Some] by simp_all
    have "map (\<lambda>i. last_of s + int (Suc i) * period_of s) [0..<Suc ?k] =
        n # map (\<lambda>i. last_of t + int (Suc i) * period_of t) [0..<?k]"
      unfolding map_upt_Suc by (simp add: n p algebra_simps)
    with run_cons.IH Some n p show ?thesis
      by (simp add: map_filter_simps algebra_simps del: upt_Suc)
  qed
qed

lemma run_sorted:
  assumes "run step s es t" and "0 < period_of s"
  shows "sorted_wrt (<) (List.map_filter executes es)"
proof -
  have "sorted_wrt (<) (map (\<lambda>i. last_of s + int (Suc i) * period_of s) [0..<k])" for k
    unfolding sorted_wrt_map
    by (rule sorted_wrt_mono_rel [OF _ sorted_wrt_upt])
      (use assms(2) in \<open>simp add: mult_less_cancel_right_pos\<close>)
  then show ?thesis
    using run_executes [OF assms(1)] by metis
qed

end

end
