(* ===== verification/Text_Codec.thy ===== *)
theory Text_Codec
  imports Prelude
begin

text \<open>
  The pieces of Rust's \<open>std\<close> that the textual forms of subnet ids and addresses use: splitting a
  string at a separator, printing a \<open>u64\<close> in decimal, and \<open>parse::<u64>\<close>. A string is the list of
  its UTF-8 bytes.
\<close>

section \<open>Splitting\<close>

text \<open>\<open>s.split(c)\<close>: the pieces between the separators, always at least one.\<close>

fun split_on :: "char \<Rightarrow> string \<Rightarrow> string list" where
  "split_on c [] = [[]]"
| "split_on c (x # xs) =
     (if x = c then [] # split_on c xs
      else (case split_on c xs of [] \<Rightarrow> [[x]] | p # ps \<Rightarrow> (x # p) # ps))"

lemma split_on_nonempty: "split_on c s \<noteq> []"
  by (induction s) (auto split: list.splits)

lemma split_on_no_sep: "c \<notin> set s \<Longrightarrow> split_on c s = [s]"
  by (induction s) (auto split: list.splits)

lemma split_on_append: "c \<notin> set p \<Longrightarrow> split_on c (p @ c # rest) = p # split_on c rest"
  by (induction p) (auto split: list.splits)

text \<open>Pieces that do not hold the separator, each printed after one, come back from the split.\<close>

lemma split_on_prefixed:
  assumes "\<And>p. p \<in> set ps \<Longrightarrow> c \<notin> set p"
  shows "split_on c (concat (map (\<lambda>p. c # p) ps)) = [] # ps"
  using assms
proof (induction ps)
  case Nil
  then show ?case by simp
next
  case (Cons p ps)
  show ?case
  proof (cases ps)
    case Nil
    with Cons.prems show ?thesis by (simp add: split_on_no_sep)
  next
    case (Cons q qs)
    from Cons.IH Cons.prems have "split_on c (concat (map (\<lambda>p. c # p) ps)) = [] # ps"
      by simp
    with Cons have "split_on c (q @ concat (map (\<lambda>p. c # p) qs)) = ps"
      by simp
    with Cons Cons.prems show ?thesis
      by (simp add: split_on_append)
  qed
qed

lemma split_on_set: "p \<in> set (split_on c s) \<Longrightarrow> set p \<subseteq> set s"
proof (induction s arbitrary: p)
  case Nil
  then show ?case by simp
next
  case (Cons x xs)
  show ?case
  proof (cases "split_on c xs")
    case Nil
    then show ?thesis using split_on_nonempty [of c xs] by simp
  next
    case (Cons q qs)
    have "set r \<subseteq> set xs" if "r \<in> set (q # qs)" for r
      using Cons.IH [of r] Cons that by simp
    then show ?thesis
      using Cons.prems Cons by (force split: if_splits)
  qed
qed

lemma split_on_all_empty_iff: "(\<forall>p \<in> set (split_on c s). p = []) \<longleftrightarrow> set s \<subseteq> {c}"
  by (induction s) (use split_on_nonempty in \<open>auto split: list.splits\<close>)

section \<open>Decimal numbers\<close>

definition digit_char :: "nat \<Rightarrow> char" where
  "digit_char d = char_of (48 + d)"

definition char_digit :: "char \<Rightarrow> nat option" where
  "char_digit c = (let n = of_char c :: nat in if 48 \<le> n \<and> n \<le> 57 then Some (n - 48) else None)"

fun dec :: "nat \<Rightarrow> string" where
  "dec n = (if n < 10 then [digit_char n] else dec (n div 10) @ [digit_char (n mod 10)])"

declare dec.simps [simp del]

fun parse_digits :: "nat \<Rightarrow> string \<Rightarrow> nat option" where
  "parse_digits acc [] = Some acc"
| "parse_digits acc (c # cs) =
     (case char_digit c of None \<Rightarrow> None | Some d \<Rightarrow> parse_digits (10 * acc + d) cs)"

text \<open>\<open>parse::<u64>\<close>: an optional plus sign, then at least one digit, and no overflow.\<close>

definition parse_u64 :: "string \<Rightarrow> u64 option" where
  "parse_u64 s =
     (let ds = (case s of [] \<Rightarrow> [] | c # cs \<Rightarrow> if c = CHR ''+'' then cs else s)
      in if ds = [] then None
         else case parse_digits 0 ds of
                None \<Rightarrow> None
              | Some n \<Rightarrow> if n < 2 ^ 64 then Some (of_nat n) else None)"

definition show_u64 :: "u64 \<Rightarrow> string" where
  "show_u64 w = dec (unat w)"

lemma char_digit_digit_char: "d < 10 \<Longrightarrow> char_digit (digit_char d) = Some d"
  by (simp add: char_digit_def digit_char_def Let_def)

lemma parse_digits_append:
  "parse_digits acc (xs @ ys) =
     (case parse_digits acc xs of None \<Rightarrow> None | Some a \<Rightarrow> parse_digits a ys)"
  by (induction xs arbitrary: acc) (auto split: option.splits)

lemma parse_digits_dec: "parse_digits 0 (dec n) = Some n"
proof (induction n rule: dec.induct)
  case (1 n)
  show ?case
  proof (cases "n < 10")
    case True
    then show ?thesis
      by (subst dec.simps) (simp add: char_digit_digit_char)
  next
    case False
    with 1 have "parse_digits 0 (dec (n div 10)) = Some (n div 10)" by simp
    with False show ?thesis
      by (subst dec.simps) (simp add: parse_digits_append char_digit_digit_char)
  qed
qed

lemma dec_nonempty: "dec n \<noteq> []"
  by (subst dec.simps) simp

lemma dec_digits: "c \<in> set (dec n) \<Longrightarrow> \<exists>d. char_digit c = Some d"
proof (induction n rule: dec.induct)
  case (1 n)
  show ?case
  proof (cases "n < 10")
    case True
    with "1.prems" show ?thesis
      by (subst (asm) dec.simps) (simp add: char_digit_digit_char)
  next
    case False
    with "1.prems" have "c \<in> set (dec (n div 10)) \<or> c = digit_char (n mod 10)"
      by (subst (asm) dec.simps) auto
    with False "1.IH" show ?thesis
      by (auto simp: char_digit_digit_char)
  qed
qed

lemma dec_no_char: "char_digit c = None \<Longrightarrow> c \<notin> set (dec n)"
  using dec_digits [of c n] by auto

lemma parse_show_u64: "parse_u64 (show_u64 w) = Some w"
proof -
  obtain c cs where d: "dec (unat w) = c # cs"
    using dec_nonempty [of "unat w"] by (cases "dec (unat w)") auto
  then have "c \<noteq> CHR ''+''"
    using dec_no_char [of "CHR ''+''" "unat w"] by (auto simp: char_digit_def)
  with d have "parse_u64 (show_u64 w) =
      (case parse_digits 0 (dec (unat w)) of None \<Rightarrow> None
       | Some n \<Rightarrow> if n < 2 ^ 64 then Some (of_nat n) else None)"
    by (simp add: parse_u64_def show_u64_def)
  then show ?thesis
    using u64_unat_less [of w] by (simp add: parse_digits_dec)
qed

text \<open>Whether a byte can follow another inside one UTF-8 encoded character.\<close>

definition utf8_continuation :: "char \<Rightarrow> bool" where
  "utf8_continuation c \<longleftrightarrow> 128 \<le> (of_char c :: nat) \<and> (of_char c :: nat) < 192"

text \<open>
  The slice \<open>&s[1..]\<close> of a string panics when byte 1 is out of range or not a character boundary.
\<close>

definition str_from_1 :: "string \<Rightarrow> string option" where
  "str_from_1 s =
     (case s of [] \<Rightarrow> None
      | _ # rest \<Rightarrow> (case rest of [] \<Rightarrow> Some []
                      | c # _ \<Rightarrow> if utf8_continuation c then None else Some rest))"

lemma show_u64_not_continuation:
  "str_from_1 (c # show_u64 w) = Some (show_u64 w)"
proof -
  obtain d ds where d: "dec (unat w) = d # ds"
    using dec_nonempty [of "unat w"] by (cases "dec (unat w)") auto
  then have "\<exists>n. char_digit d = Some n"
    using dec_digits [of d "unat w"] by simp
  then have "\<not> utf8_continuation d"
    by (auto simp: char_digit_def utf8_continuation_def Let_def split: if_splits)
  with d show ?thesis
    by (simp add: str_from_1_def show_u64_def)
qed

end
