(* ===== verification/Subnet_Id.thy ===== *)
theory Subnet_Id
  imports Text_Codec "HOL-Library.Sublist"
begin

text \<open>
  Subnet identifiers (\<open>sdk/src/subnet_id.rs\<close>): the chain id of the root network and the subnet
  actors from the root down to the subnet. The type of addresses is a parameter \<open>'a\<close>, since
  \<open>fvm_shared::address::Address\<close> is not code of this repository; its printing, parsing and
  \<open>new_id\<close> are arguments where they are used.
\<close>

section \<open>The data and its constructors\<close>

record 'a subnet_id =
  root :: u64
  children :: "'a list"

definition MAX_CHAIN_ID :: u64 where
  "MAX_CHAIN_ID = 4503599627370476"

definition UNDEF :: "'a subnet_id" where
  "UNDEF = \<lparr>root = 0, children = []\<rparr>"

definition new_subnet_id :: "u64 \<Rightarrow> 'a list \<Rightarrow> 'a subnet_id" where
  "new_subnet_id r cs = \<lparr>root = r, children = cs\<rparr>"

definition new_from_parent :: "'a subnet_id \<Rightarrow> 'a \<Rightarrow> 'a subnet_id" where
  "new_from_parent p a = \<lparr>root = root p, children = children p @ [a]\<rparr>"

definition new_root :: "u64 \<Rightarrow> 'a subnet_id" where
  "new_root r = \<lparr>root = r, children = []\<rparr>"

definition is_root :: "'a subnet_id \<Rightarrow> bool" where
  "is_root s \<longleftrightarrow> children s = []"

text \<open>Only the last actor of the route is translated, and only when the runtime can resolve it.\<close>

definition f0_id :: "('a \<Rightarrow> 'a option) \<Rightarrow> 'a subnet_id \<Rightarrow> 'a subnet_id" where
  "f0_id resolve s =
     (if children s = [] then new_subnet_id (root s) []
      else case resolve (last (children s)) of
             Some f0 \<Rightarrow> new_subnet_id (root s) (butlast (children s) @ [f0])
           | None \<Rightarrow> new_subnet_id (root s) (children s))"

definition subnet_actor :: "(u64 \<Rightarrow> 'a) \<Rightarrow> 'a subnet_id \<Rightarrow> 'a" where
  "subnet_actor new_id s = (if children s = [] then new_id 0 else last (children s))"

definition parent :: "'a subnet_id \<Rightarrow> 'a subnet_id option" where
  "parent s =
     (if children s = [] then None
      else Some (new_subnet_id (root s) (take (length (children s) - 1) (children s))))"

section \<open>Routes\<close>

text \<open>The number of leading actors two routes share.\<close>

definition common_children :: "'a list \<Rightarrow> 'a list \<Rightarrow> nat" where
  "common_children xs ys = length (takeWhile (\<lambda>(a, b). a = b) (zip xs ys))"

definition common_parent :: "'a subnet_id \<Rightarrow> 'a subnet_id \<Rightarrow> (nat \<times> 'a subnet_id) option" where
  "common_parent self other =
     (if root self \<noteq> root other then None
      else let common = common_children (children self) (children other)
           in Some (common, new_subnet_id (root self) (take common (children self))))"

definition down :: "'a subnet_id \<Rightarrow> 'a subnet_id \<Rightarrow> 'a subnet_id option" where
  "down self from_net =
     (if length (children self) \<le> length (children from_net) then None
      else case common_parent self from_net of
             Some (i, _) \<Rightarrow> Some (new_subnet_id (root self) (take (i + 1) (children self)))
           | None \<Rightarrow> None)"

text \<open>
  In \<open>up\<close> the bound of the slice is \<open>i - 1\<close> on a \<open>usize\<close>, which panics when the two routes share
  no actor.
\<close>

definition up :: "'a subnet_id \<Rightarrow> 'a subnet_id \<Rightarrow> 'a subnet_id option res" where
  "up self from_net =
     (if length (children self) < length (children from_net) then Inr None
      else case common_parent self from_net of
             Some (i, _) \<Rightarrow>
               (if i = 0 then Inl Panic
                else Inr (Some (new_subnet_id (root self) (take (i - 1) (children self)))))
           | None \<Rightarrow> Inr None)"

section \<open>Text\<close>

text \<open>The errors of the sdk; a panic of the code is a constructor of its own.\<close>

datatype sdk_error =
    InvalidID
  | InvalidIPCAddr
  | FVMAddressError
  | ActorFailure
  | SdkPanic

definition subnet_to_string :: "('a \<Rightarrow> string) \<Rightarrow> 'a subnet_id \<Rightarrow> string" where
  "subnet_to_string show_addr s =
     ''/r'' @ show_u64 (root s) @ concat (map (\<lambda>a. CHR ''/'' # show_addr a) (children s))"

text \<open>\<open>collect\<close> of an iterator of results: all the values, or no list.\<close>

fun collect_opt :: "('b \<Rightarrow> 'c option) \<Rightarrow> 'b list \<Rightarrow> 'c list option" where
  "collect_opt f [] = Some []"
| "collect_opt f (x # xs) =
     (case f x of None \<Rightarrow> None
      | Some y \<Rightarrow> (case collect_opt f xs of None \<Rightarrow> None | Some ys \<Rightarrow> Some (y # ys)))"

definition subnet_from_str :: "(string \<Rightarrow> 'a option) \<Rightarrow> string \<Rightarrow> sdk_error + 'a subnet_id" where
  "subnet_from_str parse_addr s =
     (case filter (\<lambda>e. e \<noteq> []) (split_on (CHR ''/'') s) of
        [] \<Rightarrow> Inl SdkPanic
      | l0 # ls \<Rightarrow>
          (case str_from_1 l0 of
             None \<Rightarrow> Inl SdkPanic
           | Some digits \<Rightarrow>
               and_then (ok_or InvalidID (parse_u64 digits)) (\<lambda>r.
                 and_then (ok_or InvalidID (collect_opt parse_addr ls)) (\<lambda>cs.
                   Inr \<lparr>root = r, children = cs\<rparr>))))"

text \<open>The hash behind the chain id of a subnet (the \<open>fnv\<close> crate) is an argument.\<close>

definition chain_id :: "(string \<Rightarrow> u64) \<Rightarrow> ('a \<Rightarrow> string) \<Rightarrow> 'a subnet_id \<Rightarrow> u64" where
  "chain_id fnv show_addr s =
     (if is_root s then root s else fnv (subnet_to_string show_addr s) mod MAX_CHAIN_ID)"


section \<open>Facts about the constructors\<close>

lemma new_subnet_id_simps [simp]:
  "root (new_subnet_id r cs) = r"
  "children (new_subnet_id r cs) = cs"
  by (simp_all add: new_subnet_id_def)

lemma new_from_parent_simps [simp]:
  "root (new_from_parent p a) = root p"
  "children (new_from_parent p a) = children p @ [a]"
  by (simp_all add: new_from_parent_def)

lemma new_subnet_id_self [simp]: "new_subnet_id (root s) (children s) = s"
  by (simp add: new_subnet_id_def)

lemma subnet_id_eqI: "root s = root t \<Longrightarrow> children s = children t \<Longrightarrow> s = (t :: 'a subnet_id)"
  by simp

lemma parent_new_from_parent [simp]: "parent (new_from_parent p a) = Some p"
  by (simp add: parent_def new_subnet_id_def)

lemma subnet_actor_new_from_parent [simp]: "subnet_actor new_id (new_from_parent p a) = a"
  by (simp add: subnet_actor_def)

lemma new_from_parent_inject [simp]:
  "new_from_parent p a = new_from_parent p b \<longleftrightarrow> a = b"
  by (auto simp: new_from_parent_def)

lemma parent_Some_iff:
  "parent s = Some p \<longleftrightarrow> (\<exists>a. s = new_from_parent p a)"
proof
  assume p: "parent s = Some p"
  then have ne: "children s \<noteq> []" by (auto simp: parent_def split: if_splits)
  with p have "p = new_subnet_id (root s) (butlast (children s))"
    by (simp add: parent_def butlast_conv_take)
  with ne have "s = new_from_parent p (last (children s))"
    by (simp add: new_from_parent_def new_subnet_id_def)
  then show "\<exists>a. s = new_from_parent p a" ..
qed auto

lemma f0_id_root [simp]: "root (f0_id resolve s) = root s"
  by (simp add: f0_id_def split: option.split)

lemma length_f0_id [simp]: "length (children (f0_id resolve s)) = length (children s)"
  by (simp add: f0_id_def split: option.split)

lemma f0_id_new_from_parent:
  "f0_id resolve (new_from_parent p a) =
     new_from_parent p (case resolve a of Some f0 \<Rightarrow> f0 | None \<Rightarrow> a)"
  by (simp add: f0_id_def new_subnet_id_def new_from_parent_def split: option.split)

lemma f0_id_resolved [simp]:
  "resolve a = Some a \<Longrightarrow> f0_id resolve (new_from_parent p a) = new_from_parent p a"
  by (simp add: f0_id_new_from_parent)

section \<open>Shared prefixes\<close>

lemma common_children_simps [simp]:
  "common_children [] ys = 0"
  "common_children xs [] = 0"
  "common_children (x # xs) (y # ys) = (if x = y then Suc (common_children xs ys) else 0)"
  by (simp_all add: common_children_def)

lemma common_children_le: "common_children xs ys \<le> length xs" "common_children xs ys \<le> length ys"
  by (induction xs ys rule: list_induct2') auto

lemma common_children_commute: "common_children xs ys = common_children ys xs"
  by (induction xs ys rule: list_induct2') auto

text \<open>The computed prefix is the longest common prefix of the library.\<close>

lemma take_common_children:
  "take (common_children xs ys) xs = longest_common_prefix xs ys"
  by (induction xs ys rule: list_induct2') auto

lemma take_common_children':
  "take (common_children xs ys) ys = longest_common_prefix xs ys"
  by (induction xs ys rule: list_induct2') auto

lemma common_children_prefix_iff:
  "common_children xs ys = length xs \<longleftrightarrow> prefix xs ys"
  by (induction xs ys rule: list_induct2') auto

lemma common_children_self [simp]: "common_children xs xs = length xs"
  by (simp add: common_children_prefix_iff)

lemma length_longest_common_prefix:
  "length (longest_common_prefix xs ys) = common_children xs ys"
  using common_children_le(1) [of xs ys] by (simp flip: take_common_children)

text \<open>The characteristic equation of \<open>common_parent\<close>.\<close>

lemma common_parent_eq:
  "common_parent s t =
     (if root s \<noteq> root t then None
      else let l = longest_common_prefix (children s) (children t)
           in Some (length l, new_subnet_id (root s) l))"
  by (simp add: common_parent_def Let_def length_longest_common_prefix take_common_children)

text \<open>A subnet is at or above another one.\<close>

definition ancestor :: "'a subnet_id \<Rightarrow> 'a subnet_id \<Rightarrow> bool" where
  "ancestor p s \<longleftrightarrow> root p = root s \<and> prefix (children p) (children s)"

definition strict_ancestor :: "'a subnet_id \<Rightarrow> 'a subnet_id \<Rightarrow> bool" where
  "strict_ancestor p s \<longleftrightarrow> root p = root s \<and> strict_prefix (children p) (children s)"

lemma ancestor_refl [simp, intro]: "ancestor s s"
  by (simp add: ancestor_def)

lemma ancestor_trans: "ancestor p s \<Longrightarrow> ancestor s t \<Longrightarrow> ancestor p t"
  unfolding ancestor_def by (metis prefix_order.trans)

lemma ancestor_antisym: "ancestor p s \<Longrightarrow> ancestor s p \<Longrightarrow> p = s"
  by (auto simp: ancestor_def intro!: subnet_id_eqI prefix_order.antisym)

lemma strict_ancestor_iff: "strict_ancestor p s \<longleftrightarrow> ancestor p s \<and> p \<noteq> s"
  by (auto simp: strict_ancestor_def ancestor_def strict_prefix_def intro: subnet_id_eqI)

lemma strict_ancestor_length:
  "strict_ancestor p s \<Longrightarrow> length (children p) < length (children s)"
  by (auto simp: strict_ancestor_def intro: prefix_length_less)

lemma ancestor_new_from_parent [simp, intro]: "ancestor p (new_from_parent p a)"
  by (simp add: ancestor_def)

lemma strict_ancestor_new_from_parent [simp, intro]: "strict_ancestor p (new_from_parent p a)"
  by (simp add: strict_ancestor_def strict_prefix_def)

lemma common_parent_Some_iff:
  "common_parent s t = Some (n, c) \<longleftrightarrow>
     root s = root t \<and> n = common_children (children s) (children t) \<and>
     c = new_subnet_id (root s) (longest_common_prefix (children s) (children t))"
  by (auto simp: common_parent_def Let_def take_common_children)

lemma common_parent_commute: "common_parent s t = common_parent t s"
  by (simp add: common_parent_def Let_def common_children_commute [of "children s"]
      take_common_children take_common_children')

lemma common_parent_None_iff: "common_parent s t = None \<longleftrightarrow> root s \<noteq> root t"
  by (simp add: common_parent_def Let_def)

text \<open>The common parent is the greatest lower bound of the two subnets in the hierarchy.\<close>

lemma common_parent_glb:
  assumes "common_parent s t = Some (n, c)"
  shows "ancestor c s" and "ancestor c t" and "n = length (children c)"
    and "\<And>d. ancestor d s \<Longrightarrow> ancestor d t \<Longrightarrow> ancestor d c"
proof -
  from assms have r: "root s = root t"
    and c: "c = new_subnet_id (root s) (longest_common_prefix (children s) (children t))"
    and n: "n = common_children (children s) (children t)"
    by (simp_all add: common_parent_Some_iff)
  show "ancestor c s" "ancestor c t"
    by (simp_all add: ancestor_def c r longest_common_prefix_prefix1 longest_common_prefix_prefix2)
  show "n = length (children c)"
    using common_children_le(1) [of "children s" "children t"]
    by (simp add: c n take_common_children [symmetric])
  show "ancestor d c" if "ancestor d s" "ancestor d t" for d
    using that by (auto simp: ancestor_def c longest_common_prefix_max_prefix)
qed

lemma prefix_common:
  assumes "prefix xs ys"
  shows "common_children xs ys = length xs" and "common_children ys xs = length xs"
    and "longest_common_prefix xs ys = xs" and "longest_common_prefix ys xs = xs"
proof -
  show l: "common_children xs ys = length xs"
    using assms by (simp add: common_children_prefix_iff)
  then show r: "common_children ys xs = length xs"
    by (simp add: common_children_commute)
  show "longest_common_prefix xs ys = xs"
    using take_common_children [of xs ys] by (simp add: l)
  show "longest_common_prefix ys xs = xs"
    using take_common_children' [of ys xs] by (simp add: r)
qed

lemma common_parent_ancestor:
  "ancestor p s \<Longrightarrow> common_parent p s = Some (length (children p), p)"
  "ancestor p s \<Longrightarrow> common_parent s p = Some (length (children p), p)"
  by (auto simp: ancestor_def common_parent_Some_iff prefix_common intro!: subnet_id_eqI)

section \<open>Moving down and up a route\<close>

text \<open>The slice of \<open>down\<close> is always in range, so \<open>down\<close> never panics.\<close>

lemma down_slice_in_range:
  assumes "length (children from_net) < length (children self)"
    and "common_parent self from_net = Some (i, c)"
  shows "i + 1 \<le> length (children self)"
  using assms common_children_le(2) [of "children self" "children from_net"]
  by (simp add: common_parent_Some_iff)

lemma down_Some_iff:
  "down self from_net = Some n \<longleftrightarrow>
     root self = root from_net \<and> length (children from_net) < length (children self) \<and>
     n = new_subnet_id (root self)
           (take (Suc (common_children (children self) (children from_net))) (children self))"
  by (auto simp: down_def common_parent_def Let_def)

lemma down_self [simp]: "down s s = None"
  by (simp add: down_def)

lemma down_ancestor: "down self from_net = Some n \<Longrightarrow> ancestor n self"
  by (auto simp: down_Some_iff ancestor_def take_is_prefix)

text \<open>From a subnet above the destination, \<open>down\<close> is the child of that subnet on the route.\<close>

lemma down_from_ancestor:
  assumes "strict_ancestor net dest"
  shows "down dest net = Some (new_from_parent net (children dest ! length (children net)))"
proof -
  from assms obtain x xs where cs: "children dest = children net @ x # xs"
    and r: "root net = root dest"
    by (auto simp: strict_ancestor_def strict_prefix_def prefix_def) (metis neq_Nil_conv)
  then have "common_children (children dest) (children net) = length (children net)"
    by (intro prefix_common) simp
  with cs r show ?thesis
    by (auto simp: down_Some_iff intro!: subnet_id_eqI)
qed

text \<open>
  \<open>down\<close> on a destination answers a subnet exactly when the roots agree and the destination
  is longer than the current route; and the answer is a child of the current network, lying on
  the route to the destination, exactly when the current network is strictly above the destination.
  (Off the route it still answers: a subnet that is not a child of the current network.)
\<close>

theorem down_next_hop:
  "((\<exists>n. down dest net = Some n) \<longleftrightarrow>
      root dest = root net \<and> length (children net) < length (children dest)) \<and>
   ((\<exists>n. down dest net = Some n \<and> parent n = Some net \<and> ancestor n dest) \<longleftrightarrow>
      strict_ancestor net dest)"
proof -
  have "strict_ancestor net dest" if "down dest net = Some n" "parent n = Some net" "ancestor n dest" for n
  proof -
    from that(2) have "strict_ancestor net n"
      by (auto simp: parent_Some_iff)
    with that(3) show ?thesis
      unfolding strict_ancestor_iff by (metis ancestor_antisym ancestor_trans)
  qed
  moreover have "ancestor (new_from_parent net (children dest ! length (children net))) dest"
    if "strict_ancestor net dest"
    using down_ancestor [OF down_from_ancestor [OF that]] .
  ultimately show ?thesis
    by (auto simp: down_from_ancestor) (auto simp: down_def common_parent_def Let_def split: if_splits)
qed

text \<open>
  C38: a message that is handed down one hop at a time arrives: starting from any network above the
  destination, repeating \<open>down\<close> as many times as the routes differ in length ends at the
  destination, and not before.
\<close>

theorem down_reaches_destination:
  assumes "ancestor net dest"
  shows "((\<lambda>n. case down dest n of Some m \<Rightarrow> m | None \<Rightarrow> n) ^^ k) net = dest \<longleftrightarrow>
           length (children dest) - length (children net) \<le> k"
  using assms
proof (induction k arbitrary: net)
  case 0
  then show ?case
    by (metis diff_is_0_eq funpow_0 le_zero_eq linorder_not_less order_refl strict_ancestor_iff
        strict_ancestor_length)
next
  case (Suc k)
  let ?hop = "\<lambda>n. case down dest n of Some m \<Rightarrow> m | None \<Rightarrow> n"
  show ?case
  proof (cases "net = dest")
    case True
    have "(?hop ^^ j) dest = dest" for j
      by (induction j) simp_all
    with True show ?thesis by simp
  next
    case False
    with Suc.prems have sa: "strict_ancestor net dest" by (simp add: strict_ancestor_iff)
    let ?n = "new_from_parent net (children dest ! length (children net))"
    have hop: "?hop net = ?n" by (simp add: down_from_ancestor [OF sa])
    have "ancestor ?n dest" by (rule down_ancestor [OF down_from_ancestor [OF sa]])
    from Suc.IH [OF this] have "(?hop ^^ k) (?hop net) = dest \<longleftrightarrow>
        length (children dest) - Suc (length (children net)) \<le> k"
      by (simp add: hop)
    then show ?thesis
      using strict_ancestor_length [OF sa] by (simp add: funpow_Suc_right del: funpow.simps) linarith
  qed
qed

theorem down_reaches_destination_witness:
  "((\<lambda>n. case down \<lparr>root = 1, children = [1, 2, 3 :: nat]\<rparr> n of Some m \<Rightarrow> m | None \<Rightarrow> n) ^^ 2)
     \<lparr>root = 1, children = [1]\<rparr> = \<lparr>root = 1, children = [1, 2, 3]\<rparr>"
  by (subst down_reaches_destination) (simp_all add: ancestor_def)

text \<open>
  \<open>up\<close> answers the parent of the common parent of the two routes; when the roots differ, or the
  route is shorter than the current one, it answers \<open>None\<close>; and when the two routes share no actor,
  so that their common parent is the root network, it panics instead of answering \<open>None\<close>.
\<close>

theorem up_behaviour:
  "up self from_net =
     (if root self = root from_net \<and> length (children from_net) \<le> length (children self)
      then (if is_root (snd (the (common_parent self from_net))) then Inl Panic
            else Inr (parent (snd (the (common_parent self from_net)))))
      else Inr None)"
proof (cases "length (children self) < length (children from_net) \<or> root self \<noteq> root from_net")
  case True
  then show ?thesis by (auto simp: up_def common_parent_def)
next
  case False
  let ?i = "common_children (children self) (children from_net)"
  let ?c = "new_subnet_id (root self) (take ?i (children self))"
  from False have cp: "common_parent self from_net = Some (?i, ?c)"
    by (simp add: common_parent_def Let_def)
  have le: "?i \<le> length (children self)" by (rule common_children_le)
  have "is_root ?c \<longleftrightarrow> ?i = 0"
    using le by (auto simp: is_root_def)
  moreover have "parent ?c = Some (new_subnet_id (root self) (take (?i - 1) (children self)))"
    if "?i \<noteq> 0"
    using that le by (auto simp: parent_def min_def)
  ultimately show ?thesis
    using False cp by (simp add: up_def)
qed

section \<open>Parsing and printing\<close>

text \<open>
  What printing and parsing an address must promise for its text to be usable inside a longer text
  with the separators \<open>seps\<close>: it parses back, is not empty, and holds no separator.
\<close>

definition printable :: "('a \<Rightarrow> string) \<Rightarrow> (string \<Rightarrow> 'a option) \<Rightarrow> char set \<Rightarrow> 'a \<Rightarrow> bool" where
  "printable show_addr parse_addr seps a \<longleftrightarrow>
     parse_addr (show_addr a) = Some a \<and> show_addr a \<noteq> [] \<and> set (show_addr a) \<inter> seps = {}"

lemma collect_opt_map:
  "(\<And>x. x \<in> set xs \<Longrightarrow> f (g x) = Some x) \<Longrightarrow> collect_opt f (map g xs) = Some xs"
  by (induction xs) auto

lemma show_u64_no_char: "char_digit c = None \<Longrightarrow> c \<notin> set (show_u64 w)"
  by (simp add: show_u64_def dec_no_char)

lemma subnet_to_string_eq:
  "subnet_to_string show_addr s =
     concat (map (\<lambda>p. CHR ''/'' # p)
       ((CHR ''r'' # show_u64 (root s)) # map show_addr (children s)))"
  by (simp add: subnet_to_string_def comp_def)

lemma split_subnet_to_string:
  assumes "\<And>a. a \<in> set (children s) \<Longrightarrow> CHR ''/'' \<notin> set (show_addr a)"
  shows "split_on (CHR ''/'') (subnet_to_string show_addr s) =
           [] # (CHR ''r'' # show_u64 (root s)) # map show_addr (children s)"
  unfolding subnet_to_string_eq
  by (rule split_on_prefixed) (use assms in \<open>auto simp: show_u64_no_char char_digit_def\<close>)

lemma subnet_id_text_inverse:
  assumes "\<forall>a \<in> set (children s). printable show_addr parse_addr {CHR ''/''} a"
  shows "subnet_from_str parse_addr (subnet_to_string show_addr s) = Inr s"
proof -
  from assms have "split_on (CHR ''/'') (subnet_to_string show_addr s) =
           [] # (CHR ''r'' # show_u64 (root s)) # map show_addr (children s)"
    by (intro split_subnet_to_string) (auto simp: printable_def)
  moreover from assms have "filter (\<lambda>e. e \<noteq> []) (map show_addr (children s)) = map show_addr (children s)"
    by (auto simp: printable_def filter_id_conv)
  moreover from assms have "collect_opt parse_addr (map show_addr (children s)) = Some (children s)"
    by (intro collect_opt_map) (auto simp: printable_def)
  ultimately show ?thesis
    by (simp add: subnet_from_str_def show_u64_not_continuation parse_show_u64)
qed

text \<open>
  C39: printing a subnet id and parsing the text gives the id back, for every route whose addresses
  print to a text that parses back, is not empty and holds no slash.
\<close>

theorem subnet_id_roundtrip:
  assumes "\<forall>a \<in> set (children s). printable show_addr parse_addr {CHR ''/''} a"
  shows "subnet_from_str parse_addr (subnet_to_string show_addr s) = Inr s"
  using assms by (rule subnet_id_text_inverse)

theorem subnet_id_roundtrip_witness:
  "subnet_from_str (\<lambda>t. parse_digits 0 (drop 2 t))
     (subnet_to_string (\<lambda>n. ''f0'' @ dec n) \<lparr>root = 123, children = [1001, 7]\<rparr>) =
   Inr \<lparr>root = 123, children = [1001, 7]\<rparr>"
  by (rule subnet_id_roundtrip)
    (auto simp: printable_def parse_digits_dec dec_no_char char_digit_def)

text \<open>
  On a text without multi-byte characters, parsing a subnet id panics exactly when the text is
  empty or consists of slashes only; there the code indexes the first element of an empty vector
  instead of answering \<open>InvalidID\<close>.
\<close>

theorem subnet_from_str_panics:
  assumes "\<forall>c \<in> set s. \<not> utf8_continuation c"
  shows "subnet_from_str parse_addr s = Inl SdkPanic \<longleftrightarrow> set s \<subseteq> {CHR ''/''}"
proof -
  let ?ps = "filter (\<lambda>e. e \<noteq> []) (split_on (CHR ''/'') s)"
  have empty: "?ps = [] \<longleftrightarrow> set s \<subseteq> {CHR ''/''}"
    unfolding split_on_all_empty_iff [symmetric] by (simp add: filter_empty_conv)
  have slice: "str_from_1 l0 \<noteq> None" if "l0 \<in> set ?ps" for l0
  proof -
    from that have "l0 \<noteq> []" and "set l0 \<subseteq> set s"
      using split_on_set [of l0] by auto
    with assms show ?thesis
      by (auto simp: str_from_1_def split: list.split)
  qed
  show ?thesis
  proof (cases ?ps)
    case Nil
    with empty show ?thesis by (simp add: subnet_from_str_def)
  next
    case (Cons l0 ls)
    with slice [of l0] obtain d where "str_from_1 l0 = Some d" by auto
    then have "subnet_from_str parse_addr s \<noteq> Inl SdkPanic"
      using Cons by (auto simp: subnet_from_str_def and_then_Inl ok_or_def split: option.splits)
    with Cons empty show ?thesis by auto
  qed
qed

theorem subnet_from_str_panics_witness:
  "subnet_from_str (\<lambda>t. Some t) [] = Inl SdkPanic \<and>
   subnet_from_str (\<lambda>t. Some t) ''/r9'' \<noteq> Inl SdkPanic"
  using subnet_from_str_panics [of "[]" "\<lambda>t. Some t"]
    subnet_from_str_panics [of "''/r9''" "\<lambda>t. Some t"]
  by (simp add: utf8_continuation_def)

end
