(* ===== verification/Ipc_Address.thy ===== *)
theory Ipc_Address
  imports Subnet_Id
begin

text \<open>
  Addresses with their subnet (\<open>sdk/src/address.rs\<close>). \<open>new\<close>, \<open>subnet\<close> and \<open>raw_addr\<close> of the source
  always succeed, so they are the record's constructor and fields.
\<close>

record 'a ipc_address =
  subnet_of :: "'a subnet_id"
  raw_address :: 'a

definition new_ipc_address :: "'a subnet_id \<Rightarrow> 'a \<Rightarrow> 'a ipc_address" where
  "new_ipc_address sn a = \<lparr>subnet_of = sn, raw_address = a\<rparr>"

lemma new_ipc_address_simps [simp]:
  "subnet_of (new_ipc_address sn a) = sn"
  "raw_address (new_ipc_address sn a) = a"
  by (simp_all add: new_ipc_address_def)

text \<open>The protocols of a Filecoin address that the source distinguishes.\<close>

datatype protocol = ID | Secp256k1 | Actor | BLS | Delegated

definition is_valid_contract_address :: "('a \<Rightarrow> protocol) \<Rightarrow> 'a \<Rightarrow> bool" where
  "is_valid_contract_address protocol_of a \<longleftrightarrow>
     protocol_of a = Delegated \<or> protocol_of a = Actor"

definition is_valid_account_address :: "('a \<Rightarrow> protocol) \<Rightarrow> 'a \<Rightarrow> bool" where
  "is_valid_account_address protocol_of a \<longleftrightarrow>
     protocol_of a = Delegated \<or> protocol_of a = BLS \<or>
     protocol_of a = Secp256k1 \<or> protocol_of a = ID"

lemma valid_account_or_contract:
  "is_valid_account_address protocol_of a \<or> is_valid_contract_address protocol_of a"
  by (cases "protocol_of a") (simp_all add: is_valid_account_address_def is_valid_contract_address_def)

definition ipc_to_string :: "('a \<Rightarrow> string) \<Rightarrow> 'a ipc_address \<Rightarrow> string" where
  "ipc_to_string show_addr a =
     subnet_to_string show_addr (subnet_of a) @ '':'' @ show_addr (raw_address a)"

text \<open>The raw address is parsed before the subnet id, so its error wins.\<close>

definition ipc_from_str :: "(string \<Rightarrow> 'a option) \<Rightarrow> string \<Rightarrow> sdk_error + 'a ipc_address" where
  "ipc_from_str parse_addr s =
     (case split_on (CHR '':'') s of
        [p0, p1] \<Rightarrow>
          and_then (ok_or FVMAddressError (parse_addr p1)) (\<lambda>a.
            and_then (subnet_from_str parse_addr p0) (\<lambda>sn.
              Inr \<lparr>subnet_of = sn, raw_address = a\<rparr>))
      | _ \<Rightarrow> Inl InvalidIPCAddr)"

text \<open>
  The byte form. The CBOR encoding of the runtime is an argument; its errors are errors of the runtime, which
  \<open>?\<close> wraps.
\<close>

definition ipc_to_bytes ::
    "('a ipc_address \<Rightarrow> 'e + raw_bytes) \<Rightarrow> 'a ipc_address \<Rightarrow> sdk_error + raw_bytes" where
  "ipc_to_bytes serialize a = map_err (\<lambda>_. ActorFailure) (serialize a)"

definition ipc_from_bytes ::
    "(raw_bytes \<Rightarrow> 'e + 'a ipc_address) \<Rightarrow> raw_bytes \<Rightarrow> sdk_error + 'a ipc_address" where
  "ipc_from_bytes deserialize bz = map_err (\<lambda>_. ActorFailure) (deserialize bz)"

lemma ipc_bytes_inverse:
  assumes "\<And>bz. serialize a = Inr bz \<Longrightarrow> deserialize bz = Inr a" and "ipc_to_bytes serialize a = Inr bz"
  shows "ipc_from_bytes deserialize bz = Inr a"
  using assms by (simp add: ipc_to_bytes_def ipc_from_bytes_def)

text \<open>
  Printing an IPC address and parsing the text gives the address back, when the addresses in it
  print to texts that parse back, are not empty and hold neither a slash nor a colon.
\<close>

theorem ipc_address_roundtrip:
  assumes "\<forall>x \<in> insert (raw_address a) (set (children (subnet_of a))).
             printable show_addr parse_addr {CHR ''/'', CHR '':''} x"
  shows "ipc_from_str parse_addr (ipc_to_string show_addr a) = Inr a"
proof -
  have sn: "subnet_from_str parse_addr (subnet_to_string show_addr (subnet_of a)) = Inr (subnet_of a)"
    by (rule subnet_id_text_inverse) (use assms in \<open>auto simp: printable_def\<close>)
  have "CHR '':'' \<notin> set (subnet_to_string show_addr (subnet_of a))"
    using assms
    by (auto simp: subnet_to_string_def show_u64_no_char char_digit_def printable_def)
  then have "split_on (CHR '':'') (ipc_to_string show_addr a) =
      [subnet_to_string show_addr (subnet_of a), show_addr (raw_address a)]"
    using assms by (auto simp: ipc_to_string_def split_on_append split_on_no_sep printable_def)
  then show ?thesis
    using assms by (simp add: ipc_from_str_def sn printable_def)
qed

theorem ipc_address_roundtrip_witness:
  "ipc_from_str (\<lambda>t. parse_digits 0 (drop 2 t))
     (ipc_to_string (\<lambda>n. ''f0'' @ dec n)
        \<lparr>subnet_of = \<lparr>root = 123, children = [100]\<rparr>, raw_address = 101\<rparr>) =
   Inr \<lparr>subnet_of = \<lparr>root = 123, children = [100]\<rparr>, raw_address = 101\<rparr>"
  by (rule ipc_address_roundtrip)
    (auto simp: printable_def parse_digits_dec dec_no_char char_digit_def)

end
