(* ===== verification/Runtime.thy ===== *)
theory Runtime
  imports Prelude
begin

text \<open>
  The actor runtime as the actors see it. The runtime is code of the FVM crates, not of this
  repository, so what it decides is a parameter: the message being handled is a record of its own
  (\<open>msg_env\<close>), and \<open>rt.send\<close> is an argument of every handler that sends.
\<close>

section \<open>The message being handled\<close>

text \<open>
  \<open>caller_signable\<close> says whether the code of the caller is one of \<open>CALLER_TYPES_SIGNABLE\<close>;
  \<open>resolve_address\<close> is \<open>rt.resolve_address\<close>.
\<close>

record 'a msg_env =
  caller :: 'a
  receiver :: 'a
  value_received :: token_amount
  curr_epoch :: chain_epoch
  caller_signable :: bool
  resolve_address :: "'a \<Rightarrow> 'a option"

text \<open>The checks on the immediate caller: \<open>USR_FORBIDDEN\<close> when they fail.\<close>

definition validate_caller_is :: "'a \<Rightarrow> ('a, 'm) msg_env_scheme \<Rightarrow> unit res" where
  "validate_caller_is a env = (if caller env = a then Inr () else Inl (ActorError USR_FORBIDDEN))"

definition validate_caller_signable :: "('a, 'm) msg_env_scheme \<Rightarrow> unit res" where
  "validate_caller_signable env =
     (if caller_signable env then Inr () else Inl (ActorError USR_FORBIDDEN))"

definition validate_caller_not_signable :: "('a, 'm) msg_env_scheme \<Rightarrow> unit res" where
  "validate_caller_not_signable env =
     (if caller_signable env then Inl (ActorError USR_FORBIDDEN) else Inr ())"

lemma validate_caller_Inr [simp]:
  "validate_caller_is a env = Inr u \<longleftrightarrow> caller env = a"
  "validate_caller_signable env = Inr u \<longleftrightarrow> caller_signable env"
  "validate_caller_not_signable env = Inr u \<longleftrightarrow> \<not> caller_signable env"
  by (simp_all add: validate_caller_is_def validate_caller_signable_def
      validate_caller_not_signable_def)

section \<open>The world of an actor\<close>

text \<open>
  The actor's own state, its balance (which already includes the value received with the message
  being handled), and everything else a send may reach.
\<close>

record ('s, 'x) world =
  wstate :: 's
  wbalance :: token_amount
  wrest :: 'x

text \<open>\<open>rt.transaction\<close>: the closure gets the state and returns a value and the new state; on an
  error nothing is stored.\<close>

definition transaction ::
    "('s \<Rightarrow> ('r \<times> 's) res) \<Rightarrow> ('s, 'x) world \<Rightarrow> ('r \<times> ('s, 'x) world) res" where
  "transaction f w = and_then (f (wstate w)) (\<lambda>(r, s). Inr (r, w\<lparr>wstate := s\<rparr>))"

lemma transaction_Inr [simp]:
  "transaction f w = Inr (r, w') \<longleftrightarrow> (\<exists>s. f (wstate w) = Inr (r, s) \<and> w' = w\<lparr>wstate := s\<rparr>)"
  by (auto simp: transaction_def)

lemma transaction_Inl: "transaction f w = Inl e \<longleftrightarrow> f (wstate w) = Inl e"
  by (auto simp: transaction_def and_then_Inl split: prod.splits)

text \<open>
  The runtime credits the value of a message before the actor runs, and keeps nothing of a message
  that fails.
\<close>

definition credited :: "('a, 'm) msg_env_scheme \<Rightarrow> ('s, 'x) world \<Rightarrow> ('s, 'x) world" where
  "credited env w = w\<lparr>wbalance := wbalance w + value_received env\<rparr>"

lemma credited_simps [simp]:
  "wstate (credited env w) = wstate w"
  "wbalance (credited env w) = wbalance w + value_received env"
  "wrest (credited env w) = wrest w"
  by (simp_all add: credited_def)

section \<open>Sends\<close>

record ('a, 'p) send_req =
  sr_to :: 'a
  sr_method :: u64
  sr_params :: 'p
  sr_value :: token_amount

type_synonym ('a, 'p, 's, 'x) sender =
  "('a, 'p) send_req \<Rightarrow> ('s, 'x) world \<Rightarrow> (raw_bytes option \<times> ('s, 'x) world) res"

text \<open>
  \<open>METHOD_SEND\<close> of the FVM, the plain value transfer.
\<close>

definition METHOD_SEND :: u64 where
  "METHOD_SEND = 0"

text \<open>
  What the FVM documents of a send to an actor that does not call back: a negative value and a
  value above the balance are refused, otherwise the value leaves the balance, and the state of the
  sender is not touched. Properties about balances take this as a hypothesis on the sender.
\<close>

definition sender_pays :: "('a, 'p, 's, 'x) sender \<Rightarrow> bool" where
  "sender_pays sender \<longleftrightarrow>
     (\<forall>r w b w'. sender r w = Inr (b, w') \<longrightarrow>
        0 \<le> sr_value r \<and> sr_value r \<le> wbalance w \<and>
        wstate w' = wstate w \<and> wbalance w' = wbalance w - sr_value r)"

lemma sender_paysD:
  assumes "sender_pays sender" and "sender r w = Inr (b, w')"
  shows "0 \<le> sr_value r" and "sr_value r \<le> wbalance w"
    and "wstate w' = wstate w" and "wbalance w' = wbalance w - sr_value r"
  using assms unfolding sender_pays_def by blast+

text \<open>
  A weaker demand, which allows callees to call back: a property of the state that holds before the
  send holds after it.
\<close>

definition sender_keeps :: "('s \<Rightarrow> bool) \<Rightarrow> ('a, 'p, 's, 'x) sender \<Rightarrow> bool" where
  "sender_keeps P sender \<longleftrightarrow>
     (\<forall>r w b w'. sender r w = Inr (b, w') \<longrightarrow> P (wstate w) \<longrightarrow> P (wstate w'))"

lemma sender_keepsD: "sender_keeps P sender \<Longrightarrow> sender r w = Inr (b, w') \<Longrightarrow> P (wstate w) \<Longrightarrow> P (wstate w')"
  unfolding sender_keeps_def by blast

lemma sender_pays_keeps: "sender_pays sender \<Longrightarrow> sender_keeps P sender"
  by (auto simp: sender_keeps_def sender_paysD(3))

text \<open>
  A concrete sender: every callee accepts the message, and the world keeps the list of what was
  sent, as the mock runtime of the test suites does.
\<close>

definition recording_send :: "('a, 'p, 's, ('a, 'p) send_req list) sender" where
  "recording_send r w =
     (if sr_value r < 0 \<or> wbalance w < sr_value r then Inl (ActorError USR_UNSPECIFIED)
      else Inr (None, w\<lparr>wbalance := wbalance w - sr_value r, wrest := wrest w @ [r]\<rparr>))"

lemma sender_pays_recording: "sender_pays recording_send"
  by (auto simp: sender_pays_def recording_send_def split: if_splits)

lemma recording_send_Inr:
  "recording_send r w = Inr (b, w') \<longleftrightarrow>
     0 \<le> sr_value r \<and> sr_value r \<le> wbalance w \<and> b = None \<and>
     w' = w\<lparr>wbalance := wbalance w - sr_value r, wrest := wrest w @ [r]\<rparr>"
  by (auto simp: recording_send_def)

end
