(* ===== verification/Cross.thy ===== *)
theory Cross
  imports Ipc_Address Runtime
begin

text \<open>
  Cross-net messages (\<open>sdk/src/cross.rs\<close>): the messages, how they are built for funding and
  releasing, and how a network on the route classifies them.
\<close>

section \<open>Messages\<close>

record 'a storable_msg =
  msg_from :: "'a ipc_address"
  msg_to :: "'a ipc_address"
  msg_method :: u64
  msg_params :: raw_bytes
  msg_value :: token_amount
  msg_nonce :: u64

record 'a cross_msg =
  msg :: "'a storable_msg"
  wrapped :: bool

datatype ipc_msg_type = BottomUp | TopDown

definition new_release_msg ::
    "'a subnet_id \<Rightarrow> 'a \<Rightarrow> 'a \<Rightarrow> token_amount \<Rightarrow> 'a storable_msg res" where
  "new_release_msg sub_id from_addr to_addr v =
     (case parent sub_id of
        None \<Rightarrow> Inl Anyhow
      | Some p \<Rightarrow> Inr \<lparr>msg_from = new_ipc_address sub_id from_addr,
                       msg_to = new_ipc_address p to_addr,
                       msg_method = METHOD_SEND, msg_params = [],
                       msg_value = v, msg_nonce = 0\<rparr>)"

definition new_fund_msg ::
    "'a subnet_id \<Rightarrow> 'a \<Rightarrow> 'a \<Rightarrow> token_amount \<Rightarrow> 'a storable_msg res" where
  "new_fund_msg sub_id from_addr to_addr v =
     (case parent sub_id of
        None \<Rightarrow> Inl Anyhow
      | Some p \<Rightarrow> Inr \<lparr>msg_from = new_ipc_address p from_addr,
                       msg_to = new_ipc_address sub_id to_addr,
                       msg_method = METHOD_SEND, msg_params = [],
                       msg_value = v, msg_nonce = 0\<rparr>)"

section \<open>Classification\<close>

definition is_bottomup :: "'a subnet_id \<Rightarrow> 'a subnet_id \<Rightarrow> bool" where
  "is_bottomup sfrom sto =
     (case common_parent sfrom sto of
        Some (ind, _) \<Rightarrow> ind < length (children sfrom)
      | None \<Rightarrow> False)"

definition ipc_type :: "'a storable_msg \<Rightarrow> ipc_msg_type" where
  "ipc_type m =
     (if is_bottomup (subnet_of (msg_from m)) (subnet_of (msg_to m)) then BottomUp else TopDown)"

definition apply_type :: "'a storable_msg \<Rightarrow> 'a subnet_id \<Rightarrow> ipc_msg_type" where
  "apply_type m net =
     (let sto = subnet_of (msg_to m); sfrom = subnet_of (msg_from m)
      in if common_parent net sto = common_parent sfrom sto \<and> ipc_type m = BottomUp
         then BottomUp else TopDown)"

section \<open>Facts about the classification\<close>

lemma is_bottomup_iff:
  "is_bottomup s t \<longleftrightarrow> root s = root t \<and> \<not> ancestor s t"
proof (cases "root s = root t")
  case True
  let ?n = "common_children (children s) (children t)"
  have "?n < length (children s) \<longleftrightarrow> ?n \<noteq> length (children s)"
    using common_children_le(1) [of "children s" "children t"] by linarith
  with True show ?thesis
    by (simp add: is_bottomup_def common_parent_def Let_def ancestor_def common_children_prefix_iff)
next
  case False
  then show ?thesis by (simp add: is_bottomup_def common_parent_def)
qed

lemma ipc_type_BottomUp_iff [simp]:
  "ipc_type m = BottomUp \<longleftrightarrow> is_bottomup (subnet_of (msg_from m)) (subnet_of (msg_to m))"
  by (simp add: ipc_type_def)

lemma apply_type_BottomUp_iff:
  "apply_type m net = BottomUp \<longleftrightarrow>
     is_bottomup (subnet_of (msg_from m)) (subnet_of (msg_to m)) \<and>
     common_parent net (subnet_of (msg_to m)) =
       common_parent (subnet_of (msg_from m)) (subnet_of (msg_to m))"
  by (auto simp: apply_type_def Let_def)

lemma apply_type_not_BottomUp [simp]: "apply_type m net \<noteq> BottomUp \<longleftrightarrow> apply_type m net = TopDown"
  by (cases "apply_type m net") simp_all

text \<open>A message classified bottom-up has a common parent of source and destination (no panic there).\<close>

lemma apply_type_BottomUp_common_parent:
  "apply_type m net = BottomUp \<Longrightarrow>
     \<exists>n c. common_parent (subnet_of (msg_to m)) (subnet_of (msg_from m)) = Some (n, c)"
  by (auto simp: apply_type_BottomUp_iff is_bottomup_iff common_parent_eq Let_def)

lemma lcp_between:
  assumes "prefix (longest_common_prefix f t) n" and "prefix n f"
  shows "longest_common_prefix n t = longest_common_prefix f t"
proof (rule prefix_order.antisym)
  show "prefix (longest_common_prefix n t) (longest_common_prefix f t)"
    by (meson assms(2) longest_common_prefix_max_prefix longest_common_prefix_prefix1
        longest_common_prefix_prefix2 prefix_order.trans)
  show "prefix (longest_common_prefix f t) (longest_common_prefix n t)"
    by (meson assms(1) longest_common_prefix_max_prefix longest_common_prefix_prefix2)
qed



text \<open>On the way up, between the source and the common parent, a message is bottom-up.\<close>

lemma apply_type_upward:
  assumes cp: "common_parent (subnet_of (msg_from m)) (subnet_of (msg_to m)) = Some (n, c)"
    and "subnet_of (msg_from m) \<noteq> c" and "ancestor c net" and "ancestor net (subnet_of (msg_from m))"
  shows "apply_type m net = BottomUp"
proof -
  let ?f = "subnet_of (msg_from m)" and ?t = "subnet_of (msg_to m)"
  from cp have r: "root ?f = root ?t"
    and c: "c = new_subnet_id (root ?f) (longest_common_prefix (children ?f) (children ?t))"
    by (simp_all add: common_parent_Some_iff)
  have "\<not> ancestor ?f ?t"
    using assms(2) cp common_parent_ancestor(1) [of ?f ?t] by auto
  then have "is_bottomup ?f ?t" by (simp add: is_bottomup_iff r)
  moreover have "longest_common_prefix (children net) (children ?t) = children c"
    using assms(3,4) lcp_between [of "children ?f" "children ?t" "children net"]
    by (simp add: c ancestor_def)
  moreover have "root net = root ?t"
    using assms(4) r by (simp add: ancestor_def)
  ultimately show ?thesis
    using r c by (simp add: apply_type_BottomUp_iff common_parent_eq Let_def)
qed

text \<open>
  Off the upward part of the route a message is top-down: at the source of a message to a network
  below it, and everywhere strictly below the common parent on the way to the destination.
\<close>

lemma apply_type_not_bottomup:
  "ancestor (subnet_of (msg_from m)) (subnet_of (msg_to m)) \<Longrightarrow> apply_type m net = TopDown"
  by (simp flip: apply_type_not_BottomUp add: apply_type_BottomUp_iff is_bottomup_iff)

lemma apply_type_downward:
  assumes cp: "common_parent (subnet_of (msg_from m)) (subnet_of (msg_to m)) = Some (n, c)"
    and "strict_ancestor c net" and "ancestor net (subnet_of (msg_to m))"
  shows "apply_type m net = TopDown"
proof -
  have "common_parent net (subnet_of (msg_to m)) = Some (length (children net), net)"
    using assms(3) by (rule common_parent_ancestor)
  with assms(2) cp have "common_parent net (subnet_of (msg_to m)) \<noteq>
      common_parent (subnet_of (msg_from m)) (subnet_of (msg_to m))"
    by (auto simp: strict_ancestor_iff)
  then show ?thesis
    by (simp flip: apply_type_not_BottomUp add: apply_type_BottomUp_iff)
qed

text \<open>
  On its route a message is classified bottom-up exactly while it climbs: at every network from
  the source up to the common parent of source and destination (unless the source is itself at or
  above the destination), and top-down at every network strictly below the common parent on the way
  to the destination.
\<close>

theorem apply_type_on_route:
  assumes "common_parent (subnet_of (msg_from m)) (subnet_of (msg_to m)) = Some (n, c)"
  shows "(ancestor c net \<and> ancestor net (subnet_of (msg_from m)) \<longrightarrow>
            apply_type m net = (if subnet_of (msg_from m) = c then TopDown else BottomUp)) \<and>
         (strict_ancestor c net \<and> ancestor net (subnet_of (msg_to m)) \<longrightarrow>
            apply_type m net = TopDown)"
  using apply_type_upward [OF assms] apply_type_downward [OF assms] apply_type_not_bottomup [of m net]
    common_parent_glb(2) [OF assms]
  by auto

theorem apply_type_on_route_witness:
  "let at = \<lambda>cs. \<lparr>root = 123, children = cs :: nat list\<rparr>;
       m = \<lparr>msg_from = \<lparr>subnet_of = at [1, 2], raw_address = 7\<rparr>,
            msg_to = \<lparr>subnet_of = at [1, 3, 4], raw_address = 8\<rparr>,
            msg_method = 0, msg_params = [], msg_value = 5, msg_nonce = 0\<rparr>
   in apply_type m (at [1, 2]) = BottomUp \<and> apply_type m (at [1]) = BottomUp \<and>
      apply_type m (at [1, 3]) = TopDown \<and> apply_type m (at [1, 3, 4]) = TopDown"
proof -
  let ?at = "\<lambda>cs. \<lparr>root = 123, children = cs :: nat list\<rparr>"
  let ?m = "\<lparr>msg_from = \<lparr>subnet_of = ?at [1, 2], raw_address = 7\<rparr>,
             msg_to = \<lparr>subnet_of = ?at [1, 3, 4], raw_address = 8\<rparr>,
             msg_method = 0, msg_params = [], msg_value = 5, msg_nonce = 0\<rparr>"
  have cp: "common_parent (subnet_of (msg_from ?m)) (subnet_of (msg_to ?m)) = Some (1, ?at [1])"
    by (simp add: common_parent_eq new_subnet_id_def)
  show ?thesis
    using apply_type_on_route [OF cp, of "?at [1, 2]"] apply_type_on_route [OF cp, of "?at [1]"]
      apply_type_on_route [OF cp, of "?at [1, 3]"] apply_type_on_route [OF cp, of "?at [1, 3, 4]"]
    by (simp add: ancestor_def strict_ancestor_iff)
qed

end
