(* ===== verification/Submission.thy ===== *)
theory Submission
  imports Runtime
begin

text \<open>
  One round of voting on an epoch (\<open>common/src/vote/submission.rs\<close>). The HAMTs of the state are maps
  (the one with unit values is a set). The votes are of a type \<open>'v\<close> that implements the trait
  \<open>UniqueVote\<close>, whose only method is the argument \<open>unique_key\<close>.
\<close>

section \<open>State\<close>

type_synonym unique_bytes_key = raw_bytes

type_synonym ratio = "u64 \<times> u64"

record ('a, 'v) epoch_vote_submissions =
  total_submission_weight :: token_amount
  most_voted_key :: "unique_bytes_key option"
  submitters :: "'a set"
  submission_weights :: "unique_bytes_key \<rightharpoonup> token_amount"
  submissions :: "unique_bytes_key \<rightharpoonup> 'v"

datatype vote_execution_status =
    ThresholdNotReached
  | ReachingConsensus
  | RoundAbort
  | ConsensusReached

definition new_submissions :: "('a, 'v) epoch_vote_submissions" where
  "new_submissions =
     \<lparr>total_submission_weight = 0, most_voted_key = None, submitters = {},
      submission_weights = Map.empty, submissions = Map.empty\<rparr>"

text \<open>Aborting a round keeps the votes themselves and forgets who voted with what weight.\<close>

definition abort :: "('a, 'v) epoch_vote_submissions \<Rightarrow> ('a, 'v) epoch_vote_submissions" where
  "abort s =
     s\<lparr>total_submission_weight := 0, submitters := {}, most_voted_key := None,
       submission_weights := Map.empty\<rparr>"

section \<open>Submitting a vote\<close>

definition update_submitters ::
    "'a \<Rightarrow> ('a, 'v) epoch_vote_submissions \<Rightarrow> ('a, 'v) epoch_vote_submissions res" where
  "update_submitters a s =
     (if a \<in> submitters s then Inl Anyhow else Inr (s\<lparr>submitters := insert a (submitters s)\<rparr>))"

definition insert_vote ::
    "('v \<Rightarrow> unique_bytes_key res) \<Rightarrow> 'v \<Rightarrow> ('a, 'v) epoch_vote_submissions \<Rightarrow>
     (unique_bytes_key \<times> ('a, 'v) epoch_vote_submissions) res" where
  "insert_vote unique_key v s =
     and_then (unique_key v) (\<lambda>k.
       if submissions s k \<noteq> None then Inr (k, s)
       else Inr (k, s\<lparr>submissions := (submissions s)(k \<mapsto> v)\<rparr>))"

text \<open>
  The weight of the key grows, and the key becomes the most voted one when there was none or when it
  now strictly exceeds the old one. The result is the weight of the most voted key. The lookup of the
  old most voted key is unwrapped by the code.
\<close>

definition update_submission_weight ::
    "unique_bytes_key \<Rightarrow> token_amount \<Rightarrow> ('a, 'v) epoch_vote_submissions \<Rightarrow>
     (token_amount \<times> ('a, 'v) epoch_vote_submissions) res" where
  "update_submission_weight k w s =
     (let new_weight = (case submission_weights s k of None \<Rightarrow> 0 | Some x \<Rightarrow> x) + w;
          weights = (submission_weights s)(k \<mapsto> new_weight);
          s1 = s\<lparr>submission_weights := weights\<rparr>
      in case most_voted_key s of
           None \<Rightarrow> Inr (new_weight, s1\<lparr>most_voted_key := Some k\<rparr>)
         | Some mk \<Rightarrow>
             if mk = k then Inr (new_weight, s1)
             else (case weights mk of
                     None \<Rightarrow> Inl Panic
                   | Some most \<Rightarrow>
                       if most < new_weight
                       then Inr (new_weight, s1\<lparr>most_voted_key := Some k\<rparr>)
                       else Inr (most, s1)))"

definition submit ::
    "('v \<Rightarrow> unique_bytes_key res) \<Rightarrow> 'a \<Rightarrow> token_amount \<Rightarrow> 'v \<Rightarrow>
     ('a, 'v) epoch_vote_submissions \<Rightarrow> (token_amount \<times> ('a, 'v) epoch_vote_submissions) res" where
  "submit unique_key submitter weight v s =
     and_then (update_submitters submitter s) (\<lambda>s1.
       let s2 = s1\<lparr>total_submission_weight := total_submission_weight s1 + weight\<rparr>
       in and_then (insert_vote unique_key v s2) (\<lambda>(k, s3).
            update_submission_weight k weight s3))"

section \<open>Reading a round\<close>

definition get_submission :: "unique_bytes_key \<Rightarrow> ('a, 'v) epoch_vote_submissions \<Rightarrow> 'v option" where
  "get_submission k s = submissions s k"

definition get_submission_weight ::
    "unique_bytes_key \<Rightarrow> ('a, 'v) epoch_vote_submissions \<Rightarrow> token_amount option" where
  "get_submission_weight k s = submission_weights s k"

definition load_most_voted_submission :: "('a, 'v) epoch_vote_submissions \<Rightarrow> 'v option" where
  "load_most_voted_submission s =
     (case most_voted_key s of Some k \<Rightarrow> get_submission k s | None \<Rightarrow> None)"

definition load_most_voted_weight :: "('a, 'v) epoch_vote_submissions \<Rightarrow> token_amount option" where
  "load_most_voted_weight s =
     (case most_voted_key s of Some k \<Rightarrow> get_submission_weight k s | None \<Rightarrow> None)"

definition has_submitted :: "'a \<Rightarrow> ('a, 'v) epoch_vote_submissions \<Rightarrow> bool" where
  "has_submitted a s \<longleftrightarrow> a \<in> submitters s"

definition derive_execution_status ::
    "token_amount \<Rightarrow> token_amount \<Rightarrow> ratio \<Rightarrow> ('a, 'v) epoch_vote_submissions \<Rightarrow>
     vote_execution_status res" where
  "derive_execution_status total_weight most_voted_weight r s =
     and_then (div_floor (total_weight * uint (fst r)) (uint (snd r))) (\<lambda>threshold.
       Inr (if total_submission_weight s \<le> threshold then ThresholdNotReached
            else if threshold < most_voted_weight then ConsensusReached
            else if total_weight - total_submission_weight s \<le> threshold - most_voted_weight
                 then RoundAbort
                 else ReachingConsensus))"

section \<open>Storage form\<close>

text \<open>
  The stored form of a round has no option: the absent most voted key is the empty key, and the
  empty key is read back as absent.
\<close>

definition serialize_submissions ::
    "('a, 'v) epoch_vote_submissions \<Rightarrow>
     token_amount \<times> unique_bytes_key \<times> 'a set \<times> (unique_bytes_key \<rightharpoonup> token_amount) \<times>
     (unique_bytes_key \<rightharpoonup> 'v)" where
  "serialize_submissions s =
     (case most_voted_key s of
        Some key \<Rightarrow> (total_submission_weight s, key, submitters s, submission_weights s, submissions s)
      | None \<Rightarrow> (total_submission_weight s, [], submitters s, submission_weights s, submissions s))"

definition deserialize_submissions ::
    "token_amount \<times> unique_bytes_key \<times> 'a set \<times> (unique_bytes_key \<rightharpoonup> token_amount) \<times>
     (unique_bytes_key \<rightharpoonup> 'v) \<Rightarrow> ('a, 'v) epoch_vote_submissions" where
  "deserialize_submissions t =
     (case t of (weight, key, subs, weights, votes) \<Rightarrow>
        \<lparr>total_submission_weight = weight,
         most_voted_key = (if key = [] then None else Some key),
         submitters = subs, submission_weights = weights, submissions = votes\<rparr>)"

section \<open>The ballots behind a round\<close>

text \<open>
  The abstract view of a round: the accepted ballots in order, each with its voter, its weight and
  the key of its vote. The state of a round is a summary of that list.
\<close>

type_synonym 'a ballot = "'a \<times> token_amount \<times> unique_bytes_key"

definition voters :: "'a ballot list \<Rightarrow> 'a list" where
  "voters bs = map fst bs"

definition keys :: "'a ballot list \<Rightarrow> unique_bytes_key list" where
  "keys bs = map (snd \<circ> snd) bs"

definition ballot_weight :: "'a ballot list \<Rightarrow> token_amount" where
  "ballot_weight bs = sum_list (map (\<lambda>b. fst (snd b)) bs)"

definition key_weight :: "'a ballot list \<Rightarrow> unique_bytes_key \<Rightarrow> token_amount" where
  "key_weight bs k = sum_list (map (\<lambda>b. if snd (snd b) = k then fst (snd b) else 0) bs)"

definition tally :: "'a ballot list \<Rightarrow> unique_bytes_key \<rightharpoonup> token_amount" where
  "tally bs k = (if k \<in> set (keys bs) then Some (key_weight bs k) else None)"

definition nonneg_ballots :: "'a ballot list \<Rightarrow> bool" where
  "nonneg_ballots bs \<longleftrightarrow> (\<forall>b \<in> set bs. 0 \<le> fst (snd b))"

lemma ballots_Nil [simp]:
  "voters [] = []" "keys [] = []" "ballot_weight [] = 0" "key_weight [] k = 0"
  "tally [] = Map.empty" "nonneg_ballots []"
  by (auto simp: voters_def keys_def ballot_weight_def key_weight_def tally_def nonneg_ballots_def)

lemma ballots_append [simp]:
  "voters (bs @ cs) = voters bs @ voters cs"
  "keys (bs @ cs) = keys bs @ keys cs"
  "ballot_weight (bs @ cs) = ballot_weight bs + ballot_weight cs"
  "key_weight (bs @ cs) k = key_weight bs k + key_weight cs k"
  "nonneg_ballots (bs @ cs) \<longleftrightarrow> nonneg_ballots bs \<and> nonneg_ballots cs"
  by (auto simp: voters_def keys_def ballot_weight_def key_weight_def nonneg_ballots_def)

lemma ballots_single [simp]:
  "voters [(a, w, k)] = [a]" "keys [(a, w, k)] = [k]" "ballot_weight [(a, w, k)] = w"
  "key_weight [(a, w, k)] k' = (if k = k' then w else 0)"
  "nonneg_ballots [(a, w, k)] \<longleftrightarrow> 0 \<le> w"
  "tally [(a, w, k)] = [k \<mapsto> w]"
  by (auto simp: voters_def keys_def ballot_weight_def key_weight_def nonneg_ballots_def tally_def)

lemma key_weight_nonneg: "nonneg_ballots bs \<Longrightarrow> 0 \<le> key_weight bs k"
  by (auto simp: nonneg_ballots_def key_weight_def intro!: sum_list_nonneg)

lemma key_weight_absent: "k \<notin> set (keys bs) \<Longrightarrow> key_weight bs k = 0"
  by (induction bs) (auto simp: key_weight_def keys_def)

lemma tally_snoc: "tally (bs @ [(a, w, k)]) = (tally bs)(k \<mapsto> key_weight bs k + w)"
  by (rule ext) (auto simp: tally_def)

lemma tally_default: "(case tally bs k of None \<Rightarrow> 0 | Some x \<Rightarrow> x) = key_weight bs k"
  by (simp add: tally_def key_weight_absent)

lemma tally_present: "k \<in> set (keys bs) \<Longrightarrow> tally bs k = Some (key_weight bs k)"
  by (simp add: tally_def)

text \<open>Two different keys share the weight of the ballots.\<close>

lemma key_weights_disjoint:
  "nonneg_ballots bs \<Longrightarrow> k \<noteq> l \<Longrightarrow> key_weight bs k + key_weight bs l \<le> ballot_weight bs"
proof (induction bs)
  case Nil
  then show ?case by simp
next
  case (Cons b bs)
  then have "key_weight bs k + key_weight bs l \<le> ballot_weight bs" "0 \<le> fst (snd b)"
    by (simp_all add: nonneg_ballots_def)
  then show ?case
    using Cons.prems(2) by (simp add: key_weight_def ballot_weight_def)
qed

lemma key_weight_le_ballot_weight: "nonneg_ballots bs \<Longrightarrow> key_weight bs k \<le> ballot_weight bs"
  by (induction bs) (auto simp: nonneg_ballots_def key_weight_def ballot_weight_def)

lemma key_weight_le_ballot_weight':
  "nonneg_ballots bs \<Longrightarrow> ballot_weight bs = key_weight bs k + (ballot_weight bs - key_weight bs k) \<and>
     0 \<le> ballot_weight bs - key_weight bs k"
  by (simp add: key_weight_le_ballot_weight)

section \<open>The state of a round summarises its ballots\<close>

definition round_of ::
    "('v \<Rightarrow> unique_bytes_key res) \<Rightarrow> 'a ballot list \<Rightarrow> ('a, 'v) epoch_vote_submissions \<Rightarrow> bool" where
  "round_of unique_key bs s \<longleftrightarrow>
     distinct (voters bs) \<and> nonneg_ballots bs \<and>
     total_submission_weight s = ballot_weight bs \<and>
     submitters s = set (voters bs) \<and>
     submission_weights s = tally bs \<and>
     (most_voted_key s = None \<longleftrightarrow> bs = []) \<and>
     (\<forall>mk. most_voted_key s = Some mk \<longrightarrow>
        mk \<in> set (keys bs) \<and> (\<forall>k. key_weight bs k \<le> key_weight bs mk)) \<and>
     (\<forall>k v. submissions s k = Some v \<longrightarrow> unique_key v = Inr k) \<and>
     (\<forall>k \<in> set (keys bs). submissions s k \<noteq> None)"

lemma round_of_new: "round_of unique_key [] new_submissions"
  by (simp add: round_of_def new_submissions_def)

lemma round_of_abort: "round_of unique_key bs s \<Longrightarrow> round_of unique_key [] (abort s)"
  by (simp add: round_of_def abort_def)

text \<open>The weight update keeps the summary, and never panics on a summary.\<close>

lemma update_submission_weight_round:
  assumes "round_of unique_key bs s0" and "0 \<le> w"
    and "submission_weights s = submission_weights s0" and "most_voted_key s = most_voted_key s0"
  shows "\<exists>mk. update_submission_weight k w s =
      Inr (key_weight (bs @ [(a, w, k)]) mk,
           s\<lparr>submission_weights := tally (bs @ [(a, w, k)]), most_voted_key := Some mk\<rparr>) \<and>
      mk \<in> set (keys (bs @ [(a, w, k)])) \<and>
      (\<forall>l. key_weight (bs @ [(a, w, k)]) l \<le> key_weight (bs @ [(a, w, k)]) mk)"
proof -
  from assms have weights: "submission_weights s = tally bs"
    and none: "most_voted_key s = None \<longleftrightarrow> bs = []"
    and top: "\<And>mk. most_voted_key s = Some mk \<Longrightarrow>
      mk \<in> set (keys bs) \<and> (\<forall>k. key_weight bs k \<le> key_weight bs mk)"
    by (auto simp: round_of_def)
  note upd = update_submission_weight_def Let_def weights tally_default tally_snoc
  show ?thesis
  proof (cases "most_voted_key s")
    case None
    with none have "bs = []" by simp
    with None show ?thesis
      using assms(2) by (intro exI [of _ k]) (simp add: upd)
  next
    case (Some mk)
    note mk = top [OF Some]
    consider (same) "mk = k" | (over) "mk \<noteq> k" "key_weight bs mk < key_weight bs k + w"
      | (under) "mk \<noteq> k" "key_weight bs k + w \<le> key_weight bs mk" by linarith
    then show ?thesis
    proof cases
      case same
      then show ?thesis
        using Some mk assms(2) by (intro exI [of _ k]) (auto simp: upd intro: add_increasing2)
    next
      case over
      have "key_weight bs l \<le> key_weight bs k + w" for l
        using mk over(2) by (meson less_imp_le order_trans)
      with over show ?thesis
        using Some mk by (intro exI [of _ k]) (auto simp: upd tally_present)
    next
      case under
      then show ?thesis
        using Some mk by (intro exI [of _ mk]) (auto simp: upd tally_present)
    qed
  qed
qed

lemma insert_vote_Inr:
  "insert_vote unique_key v s = Inr (k, s') \<longleftrightarrow>
     unique_key v = Inr k \<and>
     s' = (if submissions s k = None then s\<lparr>submissions := (submissions s)(k \<mapsto> v)\<rparr> else s)"
  by (auto simp: insert_vote_def)

text \<open>A vote of a new voter is accepted, and the new state summarises one more ballot.\<close>

lemma submit_round:
  assumes r: "round_of unique_key bs s" and "0 \<le> w"
    and fresh: "a \<notin> set (voters bs)" and k: "unique_key v = Inr k"
  shows "\<exists>mk s'. submit unique_key a w v s = Inr (key_weight (bs @ [(a, w, k)]) mk, s') \<and>
           most_voted_key s' = Some mk \<and> round_of unique_key (bs @ [(a, w, k)]) s'"
proof -
  define s2 where "s2 = s\<lparr>submitters := insert a (submitters s),
    total_submission_weight := total_submission_weight s + w\<rparr>"
  define s3 where "s3 =
    (if submissions s2 k = None then s2\<lparr>submissions := (submissions s2)(k \<mapsto> v)\<rparr> else s2)"
  have ins: "insert_vote unique_key v s2 = Inr (k, s3)"
    by (simp add: insert_vote_Inr k s3_def)
  have same: "submission_weights s3 = submission_weights s" "most_voted_key s3 = most_voted_key s"
    by (simp_all add: s3_def s2_def)
  obtain mk where upd: "update_submission_weight k w s3 =
      Inr (key_weight (bs @ [(a, w, k)]) mk,
           s3\<lparr>submission_weights := tally (bs @ [(a, w, k)]), most_voted_key := Some mk\<rparr>)"
    and mk: "mk \<in> set (keys (bs @ [(a, w, k)]))"
      "\<forall>l. key_weight (bs @ [(a, w, k)]) l \<le> key_weight (bs @ [(a, w, k)]) mk"
    using update_submission_weight_round [OF r \<open>0 \<le> w\<close> same, of k a] by blast
  let ?s' = "s3\<lparr>submission_weights := tally (bs @ [(a, w, k)]), most_voted_key := Some mk\<rparr>"
  have "a \<notin> submitters s" using r fresh by (simp add: round_of_def)
  then have "submit unique_key a w v s =
      and_then (insert_vote unique_key v s2) (\<lambda>(k, s3). update_submission_weight k w s3)"
    by (simp add: submit_def update_submitters_def Let_def s2_def)
  then have "submit unique_key a w v s = Inr (key_weight (bs @ [(a, w, k)]) mk, ?s')"
    by (simp only: ins upd and_then_simps prod.case)
  moreover have "round_of unique_key (bs @ [(a, w, k)]) ?s'"
    using r mk fresh \<open>0 \<le> w\<close> k unfolding round_of_def s3_def s2_def
    by (auto split: if_splits)
  ultimately show ?thesis by force
qed

text \<open>Everything else is refused, and the state is not touched.\<close>

lemma submit_refused:
  assumes "round_of unique_key bs s"
  shows "a \<in> set (voters bs) \<Longrightarrow> submit unique_key a w v s = Inl Anyhow"
    and "a \<notin> set (voters bs) \<Longrightarrow> unique_key v = Inl e \<Longrightarrow> submit unique_key a w v s = Inl e"
  using assms by (simp_all add: submit_def update_submitters_def insert_vote_def round_of_def Let_def)

lemma submit_round_Inr:
  assumes "round_of unique_key bs s" and "0 \<le> w" and "submit unique_key a w v s = Inr (m, s')"
  shows "\<exists>k. unique_key v = Inr k \<and> a \<notin> set (voters bs) \<and>
           round_of unique_key (bs @ [(a, w, k)]) s' \<and>
           (\<exists>mk. most_voted_key s' = Some mk \<and> m = key_weight (bs @ [(a, w, k)]) mk)"
proof -
  have fresh: "a \<notin> set (voters bs)"
    using submit_refused(1) [OF assms(1)] assms(3) by force
  then obtain k where k: "unique_key v = Inr k"
    using submit_refused(2) [OF assms(1) fresh] assms(3) by (cases "unique_key v") simp_all
  from submit_round [OF assms(1,2) fresh k] assms(3)
  have "round_of unique_key (bs @ [(a, w, k)]) s' \<and>
      (\<exists>mk. most_voted_key s' = Some mk \<and> m = key_weight (bs @ [(a, w, k)]) mk)"
    by (metis (no_types, lifting) Pair_inject sum.inject(2))
  with fresh k show ?thesis by blast
qed

text \<open>The most voted vote of a non-empty round can always be loaded.\<close>

lemma round_of_loadable:
  assumes "round_of unique_key bs s" and "most_voted_key s = Some mk"
  shows "\<exists>v. load_most_voted_submission s = Some v \<and> unique_key v = Inr mk"
  using assms by (auto simp: round_of_def load_most_voted_submission_def get_submission_def)

text \<open>
  C25: submitting a vote implements casting a ballot: on a state that summarises the ballots \<open>bs\<close> (total
  weight, set of voters, weight per key, a key of greatest weight, the votes by key), the vote of an
  address that already voted is refused, an error of \<open>unique_key\<close> is passed on, and any other vote
  succeeds with a state that summarises \<open>bs\<close> with the new ballot appended, answering the weight of the
  most voted key of that longer list.
\<close>

theorem submit_refines_ballots:
  assumes "round_of unique_key bs s" and "0 \<le> w"
  shows "case unique_key v of
      Inl e \<Rightarrow> submit unique_key a w v s = Inl (if a \<in> set (voters bs) then Anyhow else e)
    | Inr k \<Rightarrow>
        if a \<in> set (voters bs) then submit unique_key a w v s = Inl Anyhow
        else \<exists>mk s'. submit unique_key a w v s = Inr (key_weight (bs @ [(a, w, k)]) mk, s') \<and>
               round_of unique_key (bs @ [(a, w, k)]) s' \<and> most_voted_key s' = Some mk \<and>
               (\<forall>l. key_weight (bs @ [(a, w, k)]) l \<le> key_weight (bs @ [(a, w, k)]) mk)"
proof (cases "unique_key v")
  case (Inl e)
  then show ?thesis using submit_refused [OF assms(1)] by auto
next
  case (Inr k)
  show ?thesis
  proof (cases "a \<in> set (voters bs)")
    case True
    then show ?thesis using Inr submit_refused(1) [OF assms(1)] by simp
  next
    case False
    from submit_round [OF assms False Inr] obtain mk s' where
      "submit unique_key a w v s = Inr (key_weight (bs @ [(a, w, k)]) mk, s')"
      "most_voted_key s' = Some mk" "round_of unique_key (bs @ [(a, w, k)]) s'" by blast
    then show ?thesis using Inr False unfolding round_of_def by auto
  qed
qed

theorem submit_refines_ballots_witness:
  "\<exists>mk s'. submit (\<lambda>v. Inr v) (7 :: nat) 5 [1] new_submissions = Inr (5, s') \<and>
     round_of (\<lambda>v. Inr v) [(7, 5, [1])] s' \<and> most_voted_key s' = Some mk"
proof -
  have "(0 :: token_amount) \<le> 5" by simp
  from submit_refines_ballots [OF round_of_new this, where unique_key = "\<lambda>v. Inr v"
      and v = "[1]" and a = "7 :: nat"]
  obtain mk s' where
    "submit (\<lambda>v. Inr v) (7 :: nat) 5 [1] new_submissions = Inr (key_weight [(7 :: nat, 5, [1])] mk, s')"
    and r: "round_of (\<lambda>v. Inr v) [(7, 5, [1])] s'" "most_voted_key s' = Some mk" by auto
  moreover from r have "mk = [1]" by (simp add: round_of_def)
  ultimately show ?thesis by auto
qed

section \<open>What the execution status means\<close>

definition threshold :: "token_amount \<Rightarrow> ratio \<Rightarrow> token_amount" where
  "threshold total_weight r = total_weight * uint (fst r) div uint (snd r)"

lemma derive_execution_status_eq:
  "snd r \<noteq> 0 \<Longrightarrow> derive_execution_status tw most r s =
     Inr (if total_submission_weight s \<le> threshold tw r then ThresholdNotReached
          else if threshold tw r < most then ConsensusReached
          else if tw - total_submission_weight s \<le> threshold tw r - most then RoundAbort
          else ReachingConsensus)"
  by (simp add: derive_execution_status_def threshold_def div_floor_def uint_0_iff)

text \<open>Only an exceeded threshold counts as consensus, and then the total exceeds it too.\<close>

lemma consensus_reached_iff:
  assumes "round_of unique_key bs s" and "snd r \<noteq> 0"
  shows "derive_execution_status tw (key_weight bs mk) r s = Inr ConsensusReached \<longleftrightarrow>
           threshold tw r < key_weight bs mk"
proof -
  have "key_weight bs mk \<le> total_submission_weight s"
    using assms(1) by (simp add: round_of_def key_weight_le_ballot_weight)
  with assms(2) show ?thesis by (auto simp: derive_execution_status_eq)
qed

text \<open>
  The status of a round says what it claims about the ballots. Consensus reached: the most voted
  key exceeds the threshold (equality is not enough). Threshold not reached: all ballots together do
  not exceed it. Round abort: no further ballots, of whatever voters and keys, as long as the weight
  cast stays within the total, can lift any key over the threshold. Reaching consensus: no key is over
  it yet, and the weight not yet cast suffices to lift the most voted key over it.
\<close>

theorem execution_status_meaning:
  assumes r: "round_of unique_key bs s" and mk: "most_voted_key s = Some mk"
    and "snd r \<noteq> 0" and "ballot_weight bs \<le> tw"
  shows "case derive_execution_status tw (key_weight bs mk) r s of
      Inl e \<Rightarrow> False
    | Inr ConsensusReached \<Rightarrow> threshold tw r < key_weight bs mk
    | Inr ThresholdNotReached \<Rightarrow> ballot_weight bs \<le> threshold tw r
    | Inr RoundAbort \<Rightarrow> \<forall>cs k. nonneg_ballots cs \<and> ballot_weight (bs @ cs) \<le> tw \<longrightarrow>
                          key_weight (bs @ cs) k \<le> threshold tw r
    | Inr ReachingConsensus \<Rightarrow> (\<forall>k. key_weight bs k \<le> threshold tw r) \<and>
                          threshold tw r < key_weight bs mk + (tw - ballot_weight bs)"
proof -
  have top: "key_weight bs k \<le> key_weight bs mk" for k
    using r mk by (simp add: round_of_def)

  have sub: "total_submission_weight s = ballot_weight bs"
    using r by (simp add: round_of_def)
  have abort: "key_weight (bs @ cs) k \<le> threshold tw r"
    if "tw - ballot_weight bs \<le> threshold tw r - key_weight bs mk"
      "nonneg_ballots cs" "ballot_weight (bs @ cs) \<le> tw" for cs k
    using that(1,3) top [of k] key_weight_le_ballot_weight [OF that(2), of k] by simp
  have reaching: "key_weight bs k \<le> threshold tw r"
    if "\<not> threshold tw r < key_weight bs mk" for k
    using that top [of k] by simp
  show ?thesis
    using abort reaching by (auto simp: derive_execution_status_eq [OF assms(3)] sub)
qed

theorem execution_status_meaning_witness:
  "\<exists>s mk. round_of (\<lambda>v. Inr v) [(1 :: nat, 4, [1])] s \<and> most_voted_key s = Some mk \<and>
     (case derive_execution_status 5 (key_weight [(1 :: nat, 4, [1])] mk) (2, 3) s of
        Inr ConsensusReached \<Rightarrow> threshold 5 (2, 3) < key_weight [(1 :: nat, 4, [1])] mk
      | _ \<Rightarrow> False)"
proof -
  have "(0 :: token_amount) \<le> 4" by simp
  from submit_round [OF round_of_new this, of "1 :: nat" "\<lambda>v. Inr v" "[1]" "[1]"]
  obtain mk s where s: "round_of (\<lambda>v. Inr v) [(1 :: nat, 4, [1])] s" "most_voted_key s = Some mk"
    by auto
  moreover from s have "mk = [1]" by (simp add: round_of_def)
  ultimately show ?thesis
    using execution_status_meaning [OF s, of "(2, 3)" 5]
    by (intro exI [of _ s] exI [of _ mk])
      (simp add: derive_execution_status_eq threshold_def round_of_def)
qed

text \<open>Two keys over a threshold of at least one half are the same key.\<close>

lemma quorum_unique:
  assumes "nonneg_ballots bs" and "ballot_weight bs \<le> tw" and "0 \<le> tw"
    and "snd r \<noteq> 0" and "uint (snd r) \<le> 2 * uint (fst r)"
    and "threshold tw r < key_weight bs k" and "threshold tw r < key_weight bs l"
  shows "k = l"
proof (rule ccontr)
  assume "k \<noteq> l"
  let ?n = "uint (fst r)" and ?d = "uint (snd r)" and ?t = "threshold tw r"
  have d: "0 < ?d" using assms(4) by (simp add: uint_0_iff order_less_le)
  have "tw * ?n = ?d * ?t + tw * ?n mod ?d" "tw * ?n mod ?d < ?d"
    using d by (simp_all add: threshold_def)
  then have "tw * ?n < ?d * ?t + ?d" by linarith
  then have "2 * (tw * ?n) < 2 * (?d * ?t + ?d)"
    by (rule mult_strict_left_mono) simp
  moreover have "tw * ?d \<le> 2 * (tw * ?n)"
    using mult_left_mono [OF assms(5) assms(3)] by (simp only: ac_simps)
  ultimately have "tw * ?d < 2 * (?d * ?t + ?d)" by (rule order_le_less_trans [rotated])
  moreover have "2 * (?d * ?t + ?d) = ?d * (2 * ?t + 2)" "tw * ?d = ?d * tw"
    by (simp_all add: distrib_left)
  ultimately have "?d * tw < ?d * (2 * ?t + 2)" by (simp only:)
  then have "tw < 2 * ?t + 2"
    using d by (simp only: mult_less_cancel_left_pos)
  moreover have "2 * ?t + 2 \<le> key_weight bs k + key_weight bs l"
    using assms(6,7) by simp
  ultimately show False
    using key_weights_disjoint [OF assms(1) \<open>k \<noteq> l\<close>] assms(2) by simp
qed

text \<open>
  A round survives being stored and loaded exactly when its most voted key is not the empty byte
  string; the empty key would come back as no key at all.
\<close>

theorem submissions_storage_roundtrip:
  "deserialize_submissions (serialize_submissions s) = s \<longleftrightarrow> most_voted_key s \<noteq> Some []"
  by (cases s) (auto simp: deserialize_submissions_def serialize_submissions_def split: option.split)

end
