(* ===== verification/Validator_Set.thy ===== *)
theory Validator_Set
  imports Runtime
begin

text \<open>
  Validators and validator sets (\<open>sdk/src/lib.rs\<close>). The configuration number is a \<open>u64\<close> that every
  update increments; with the overflow checks of the workspace's profile the increment panics at the
  largest value, although the comment in the source says that it may overflow.
\<close>

record 'a validator =
  val_addr :: 'a
  val_net_addr :: string
  val_weight :: token_amount

record 'a validator_set =
  validators :: "'a validator list"
  configuration_number :: u64

definition empty_validator_set :: "'a validator_set" where
  "empty_validator_set = \<lparr>validators = [], configuration_number = 0\<rparr>"

definition new_validator_set :: "'a validator list \<Rightarrow> u64 \<Rightarrow> 'a validator_set" where
  "new_validator_set vs n = \<lparr>validators = vs, configuration_number = n\<rparr>"

text \<open>The \<open>configuration_number += 1\<close> of the three updates.\<close>

definition bump_configuration :: "'a validator_set \<Rightarrow> 'a validator_set res" where
  "bump_configuration vs =
     and_then (u64_incr (configuration_number vs)) (\<lambda>n. Inr (vs\<lparr>configuration_number := n\<rparr>))"

definition push :: "'a validator \<Rightarrow> 'a validator_set \<Rightarrow> 'a validator_set res" where
  "push v vs = bump_configuration (vs\<lparr>validators := validators vs @ [v]\<rparr>)"

definition rm :: "'a \<Rightarrow> 'a validator_set \<Rightarrow> 'a validator_set res" where
  "rm a vs = bump_configuration (vs\<lparr>validators := filter (\<lambda>x. val_addr x \<noteq> a) (validators vs)\<rparr>)"

definition update_weight :: "'a \<Rightarrow> token_amount \<Rightarrow> 'a validator_set \<Rightarrow> 'a validator_set res" where
  "update_weight a w vs =
     bump_configuration
       (vs\<lparr>validators := map (\<lambda>x. if val_addr x = a then x\<lparr>val_weight := w\<rparr> else x) (validators vs)\<rparr>)"

text \<open>The weight of an address: of the first validator with it.\<close>

definition weight_of :: "'a \<Rightarrow> 'a validator_set \<Rightarrow> token_amount option" where
  "weight_of a vs = map_option val_weight (find (\<lambda>v. val_addr v = a) (validators vs))"

definition val_addrs :: "'a validator_set \<Rightarrow> 'a list" where
  "val_addrs vs = map val_addr (validators vs)"

lemma bump_configuration_Inr:
  "bump_configuration vs = Inr vs' \<Longrightarrow> validators vs' = validators vs"
  by (auto simp: bump_configuration_def)

lemma push_Inr: "push v vs = Inr vs' \<Longrightarrow> validators vs' = validators vs @ [v]"
  by (auto simp: push_def dest: bump_configuration_Inr)

lemma rm_Inr: "rm a vs = Inr vs' \<Longrightarrow> validators vs' = filter (\<lambda>x. val_addr x \<noteq> a) (validators vs)"
  by (auto simp: rm_def dest: bump_configuration_Inr)

lemma update_weight_Inr:
  "update_weight a w vs = Inr vs' \<Longrightarrow>
     validators vs' = map (\<lambda>x. if val_addr x = a then x\<lparr>val_weight := w\<rparr> else x) (validators vs)"
  by (auto simp: update_weight_def dest: bump_configuration_Inr)

lemma configuration_increases:
  "push v vs = Inr vs' \<or> rm a vs = Inr vs' \<or> update_weight a w vs = Inr vs' \<Longrightarrow>
     unat (configuration_number vs') = Suc (unat (configuration_number vs))"
  by (auto simp: push_def rm_def update_weight_def bump_configuration_def dest: u64_incr_unat)

lemma val_addrs_push: "push v vs = Inr vs' \<Longrightarrow> val_addrs vs' = val_addrs vs @ [val_addr v]"
  by (simp add: val_addrs_def push_Inr)

lemma val_addrs_rm: "rm a vs = Inr vs' \<Longrightarrow> val_addrs vs' = filter (\<lambda>x. x \<noteq> a) (val_addrs vs)"
  by (simp add: val_addrs_def rm_Inr filter_map comp_def)

lemma val_addrs_update_weight: "update_weight a w vs = Inr vs' \<Longrightarrow> val_addrs vs' = val_addrs vs"
  by (simp add: val_addrs_def update_weight_Inr cong: if_cong)

end
