(* ===== verification/Checkpoint.thy ===== *)
theory Checkpoint
  imports Cross Submission Validator_Set
begin

text \<open>
  Checkpoints (\<open>gateway/src/checkpoint.rs\<close> and \<open>ensure_message_sorted\<close> of \<open>gateway/src/types.rs\<close>).
  A CID is a value of a type \<open>'c\<close>; the hash of a stored form (Blake2b over its DAG-CBOR bytes) is an
  argument where it is taken.
\<close>

section \<open>Ordered messages\<close>

text \<open>The trait \<open>ExecutableMessage\<close> is the argument \<open>nonce\<close>.\<close>

fun ensure_message_sorted :: "('m \<Rightarrow> u64) \<Rightarrow> 'm list \<Rightarrow> unit res" where
  "ensure_message_sorted nonce (m # n # ms) =
     (if nonce m < nonce n then ensure_message_sorted nonce (n # ms) else Inl Anyhow)"
| "ensure_message_sorted nonce ms = Inr ()"

definition cross_nonce :: "'a cross_msg \<Rightarrow> u64" where
  "cross_nonce cm = msg_nonce (msg cm)"

lemma ensure_message_sorted_iff:
  "ensure_message_sorted nonce ms = Inr u \<longleftrightarrow> sorted_wrt (<) (map nonce ms)"
proof (induction nonce ms rule: ensure_message_sorted.induct)
  case (1 nonce m n ms)
  then show ?case by (auto dest: order.strict_trans)
qed simp_all

section \<open>Bottom-up checkpoints\<close>

record 'a batch_cross_msgs =
  batch_msgs :: "'a cross_msg list option"
  batch_fee :: token_amount

record ('a, 'c) child_check =
  child_source :: "'a subnet_id"
  child_cids :: "'c list"

record ('a, 'c) check_data =
  check_source :: "'a subnet_id"
  check_proof :: raw_bytes
  check_epoch :: chain_epoch
  prev_check :: 'c
  check_children :: "('a, 'c) child_check list"
  check_batch :: "'a batch_cross_msgs"

record ('a, 'c) bottom_up_checkpoint =
  check_content :: "('a, 'c) check_data"
  check_sig :: raw_bytes

definition default_batch :: "'a batch_cross_msgs" where
  "default_batch = \<lparr>batch_msgs = None, batch_fee = 0\<rparr>"

definition new_check_data :: "'c \<Rightarrow> 'a subnet_id \<Rightarrow> chain_epoch \<Rightarrow> ('a, 'c) check_data" where
  "new_check_data genesis_cid net e =
     \<lparr>check_source = net, check_proof = [], check_epoch = e, prev_check = genesis_cid,
      check_children = [], check_batch = default_batch\<rparr>"

definition new_checkpoint :: "'c \<Rightarrow> 'a subnet_id \<Rightarrow> chain_epoch \<Rightarrow> ('a, 'c) bottom_up_checkpoint" where
  "new_checkpoint genesis_cid net e =
     \<lparr>check_content = new_check_data genesis_cid net e, check_sig = []\<rparr>"

text \<open>The stored form of the batch has no option: an absent list is written as the empty list.\<close>

definition serialize_batch :: "'a batch_cross_msgs \<Rightarrow> 'a cross_msg list \<times> token_amount" where
  "serialize_batch b = (case batch_msgs b of Some v \<Rightarrow> (v, batch_fee b) | None \<Rightarrow> ([], batch_fee b))"

definition deserialize_batch :: "'a cross_msg list \<times> token_amount \<Rightarrow> 'a batch_cross_msgs" where
  "deserialize_batch inner =
     \<lparr>batch_msgs = (if fst inner = [] then None else Some (fst inner)), batch_fee = snd inner\<rparr>"

text \<open>The bytes that are hashed are those of the tuple of the data; the signature is left out.\<close>

type_synonym ('a, 'c) check_form =
  "'a subnet_id \<times> raw_bytes \<times> chain_epoch \<times> 'c \<times> ('a, 'c) child_check list \<times>
   ('a cross_msg list \<times> token_amount)"

definition check_data_form :: "('a, 'c) check_data \<Rightarrow> ('a, 'c) check_form" where
  "check_data_form d =
     (check_source d, check_proof d, check_epoch d, prev_check d, check_children d,
      serialize_batch (check_batch d))"

definition check_cid ::
    "(('a, 'c) check_form \<Rightarrow> 'c) \<Rightarrow> ('a, 'c) bottom_up_checkpoint \<Rightarrow> 'c" where
  "check_cid hash c = hash (check_data_form (check_content c))"

definition bottom_up_key ::
    "(('a, 'c) check_form \<Rightarrow> 'c) \<Rightarrow> ('c \<Rightarrow> raw_bytes) \<Rightarrow> ('a, 'c) bottom_up_checkpoint \<Rightarrow>
     unique_bytes_key res" where
  "bottom_up_key hash cid_bytes c = Inr (cid_bytes (check_cid hash c))"

definition set_signature :: "raw_bytes \<Rightarrow> ('a, 'c) bottom_up_checkpoint \<Rightarrow> ('a, 'c) bottom_up_checkpoint" where
  "set_signature s c = c\<lparr>check_sig := s\<rparr>"

definition checkpoint_msgs :: "('a, 'c) bottom_up_checkpoint \<Rightarrow> 'a cross_msg list option" where
  "checkpoint_msgs c = batch_msgs (check_batch (check_content c))"

definition ensure_cross_msgs_sorted :: "('a, 'c) bottom_up_checkpoint \<Rightarrow> unit res" where
  "ensure_cross_msgs_sorted c =
     (case checkpoint_msgs c of None \<Rightarrow> Inr () | Some v \<Rightarrow> ensure_message_sorted cross_nonce v)"

definition enforce_f0_source ::
    "('a \<Rightarrow> 'a option) \<Rightarrow> ('a, 'c) bottom_up_checkpoint \<Rightarrow> ('a, 'c) bottom_up_checkpoint" where
  "enforce_f0_source resolve c =
     c\<lparr>check_content := (check_content c)\<lparr>check_source := f0_id resolve (check_source (check_content c))\<rparr>\<rparr>"

definition total_value :: "('a, 'c) bottom_up_checkpoint \<Rightarrow> token_amount" where
  "total_value c =
     (case checkpoint_msgs c of None \<Rightarrow> 0 | Some v \<Rightarrow> fold (\<lambda>cm acc. acc + msg_value (msg cm)) v 0)"

definition total_fee :: "('a, 'c) bottom_up_checkpoint \<Rightarrow> token_amount" where
  "total_fee c = batch_fee (check_batch (check_content c))"

definition push_cross_msgs ::
    "'a cross_msg \<Rightarrow> token_amount \<Rightarrow> ('a, 'c) bottom_up_checkpoint \<Rightarrow> ('a, 'c) bottom_up_checkpoint" where
  "push_cross_msgs cm fee c =
     (let d = check_content c; b = check_batch d
      in c\<lparr>check_content := d\<lparr>check_batch := b\<lparr>batch_fee := batch_fee b + fee,
             batch_msgs := Some (case batch_msgs b of None \<Rightarrow> [cm] | Some v \<Rightarrow> v @ [cm])\<rparr>\<rparr>\<rparr>)"

text \<open>The first entry of the child's source gets the cid, unless it is already there.\<close>

fun add_child_cid ::
    "'a subnet_id \<Rightarrow> 'c \<Rightarrow> ('a, 'c) child_check list \<Rightarrow> ('a, 'c) child_check list res" where
  "add_child_cid src cid [] = Inr [\<lparr>child_source = src, child_cids = [cid]\<rparr>]"
| "add_child_cid src cid (m # ms) =
     (if src = child_source m
      then (if cid \<in> set (child_cids m) then Inl Anyhow
            else Inr (m\<lparr>child_cids := child_cids m @ [cid]\<rparr> # ms))
      else and_then (add_child_cid src cid ms) (\<lambda>ms'. Inr (m # ms')))"

definition add_child_check ::
    "(('a, 'c) check_form \<Rightarrow> 'c) \<Rightarrow> ('a, 'c) bottom_up_checkpoint \<Rightarrow> ('a, 'c) bottom_up_checkpoint \<Rightarrow>
     ('a, 'c) bottom_up_checkpoint res" where
  "add_child_check hash commit c =
     and_then (add_child_cid (check_source (check_content commit)) (check_cid hash commit)
                (check_children (check_content c)))
       (\<lambda>cs. Inr (c\<lparr>check_content := (check_content c)\<lparr>check_children := cs\<rparr>\<rparr>))"

section \<open>Checkpoint windows\<close>

definition checkpoint_epoch :: "chain_epoch \<Rightarrow> chain_epoch \<Rightarrow> chain_epoch res" where
  "checkpoint_epoch e period = and_then (i64_div e period) (\<lambda>ind. i64_mul ind period)"

definition window_epoch :: "chain_epoch \<Rightarrow> chain_epoch \<Rightarrow> chain_epoch res" where
  "window_epoch e period =
     and_then (i64_div e period) (\<lambda>ind. and_then (i64_add ind 1) (\<lambda>k. i64_mul period k))"

section \<open>Validators and top-down checkpoints\<close>

record 'a membership =
  member_set :: "'a validator_set"
  total_weight :: token_amount

definition new_membership :: "'a validator_set \<Rightarrow> 'a membership" where
  "new_membership vs =
     \<lparr>member_set = vs, total_weight = fold (\<lambda>v acc. acc + val_weight v) (validators vs) 0\<rparr>"

definition get_validator_weight :: "('a \<Rightarrow> 'a option) \<Rightarrow> 'a \<Rightarrow> 'a membership \<Rightarrow> token_amount option" where
  "get_validator_weight resolve a ms =
     map_option val_weight
       (find (\<lambda>x. case resolve (val_addr x) of Some f0 \<Rightarrow> f0 = a | None \<Rightarrow> False)
         (validators (member_set ms)))"

record 'a topdown_checkpoint =
  topdown_epoch :: chain_epoch
  top_down_msgs :: "'a cross_msg list"

definition topdown_key ::
    "('a topdown_checkpoint \<Rightarrow> raw_bytes) \<Rightarrow> 'a topdown_checkpoint \<Rightarrow> unique_bytes_key res" where
  "topdown_key digest cp =
     and_then (ensure_message_sorted cross_nonce (top_down_msgs cp)) (\<lambda>_. Inr (digest cp))"

section \<open>Facts about checkpoints\<close>

text \<open>The messages of a checkpoint as a list, and the sum of their values.\<close>

definition msgs_of :: "('a, 'c) bottom_up_checkpoint \<Rightarrow> 'a cross_msg list" where
  "msgs_of c = (case checkpoint_msgs c of None \<Rightarrow> [] | Some v \<Rightarrow> v)"

definition sum_values :: "'a cross_msg list \<Rightarrow> token_amount" where
  "sum_values ms = (\<Sum>cm\<leftarrow>ms. msg_value (msg cm))"

lemma sum_values_simps [simp]:
  "sum_values [] = 0"
  "sum_values (cm # ms) = msg_value (msg cm) + sum_values ms"
  "sum_values (ms @ ns) = sum_values ms + sum_values ns"
  by (simp_all add: sum_values_def)

lemma fold_msg_values: "fold (\<lambda>cm acc. acc + msg_value (msg cm)) v a = a + sum_values v"
  by (induction v arbitrary: a) simp_all

lemma total_value_eq: "total_value c = sum_values (msgs_of c)"
  by (simp add: total_value_def msgs_of_def fold_msg_values split: option.split)

lemma fold_weights: "fold (\<lambda>v acc. acc + val_weight v) vs a = a + (\<Sum>v\<leftarrow>vs. val_weight v)"
  by (induction vs arbitrary: a) simp_all

lemma total_weight_new_membership:
  "total_weight (new_membership vs) = (\<Sum>v\<leftarrow>validators vs. val_weight v)"
  by (simp add: new_membership_def fold_weights)

lemma ensure_cross_msgs_sorted_iff:
  "ensure_cross_msgs_sorted c = Inr u \<longleftrightarrow> sorted_wrt (<) (map cross_nonce (msgs_of c))"
  by (auto simp: ensure_cross_msgs_sorted_def msgs_of_def ensure_message_sorted_iff split: option.split)

lemma push_cross_msgs_facts [simp]:
  "msgs_of (push_cross_msgs cm fee c) = msgs_of c @ [cm]"
  "total_fee (push_cross_msgs cm fee c) = total_fee c + fee"
  "check_source (check_content (push_cross_msgs cm fee c)) = check_source (check_content c)"
  "check_epoch (check_content (push_cross_msgs cm fee c)) = check_epoch (check_content c)"
  "prev_check (check_content (push_cross_msgs cm fee c)) = prev_check (check_content c)"
  "check_children (check_content (push_cross_msgs cm fee c)) = check_children (check_content c)"
  by (simp_all add: push_cross_msgs_def msgs_of_def checkpoint_msgs_def total_fee_def Let_def
      split: option.split)

lemma new_checkpoint_facts [simp]:
  "msgs_of (new_checkpoint g net e) = []"
  "total_fee (new_checkpoint g net e) = 0"
  "check_source (check_content (new_checkpoint g net e)) = net"
  "check_epoch (check_content (new_checkpoint g net e)) = e"
  "prev_check (check_content (new_checkpoint g net e)) = g"
  "check_children (check_content (new_checkpoint g net e)) = []"
  by (simp_all add: new_checkpoint_def new_check_data_def default_batch_def msgs_of_def
      checkpoint_msgs_def total_fee_def)

text \<open>The cids recorded for a child.\<close>

definition cids_of :: "'a subnet_id \<Rightarrow> ('a, 'c) child_check list \<Rightarrow> 'c list" where
  "cids_of src cs = concat (map child_cids (filter (\<lambda>m. child_source m = src) cs))"

lemma add_child_cid_Inr:
  "add_child_cid src cid cs = Inr cs' \<Longrightarrow> distinct (map child_source cs) \<Longrightarrow>
     distinct (map child_source cs') \<and> set (map child_source cs') = insert src (set (map child_source cs)) \<and>
     cid \<notin> set (cids_of src cs) \<and> cids_of src cs' = cids_of src cs @ [cid] \<and>
     (\<forall>t. t \<noteq> src \<longrightarrow> cids_of t cs' = cids_of t cs)"
proof (induction cs arbitrary: cs')
  case Nil
  then show ?case by (auto simp: cids_of_def)
next
  case (Cons m ms)
  show ?case
  proof (cases "src = child_source m")
    case True
    then have "filter (\<lambda>m. child_source m = src) ms = []"
      using Cons.prems(2) by (auto simp: filter_empty_conv image_iff)
    with True Cons.prems show ?thesis
      by (auto simp: cids_of_def split: if_splits)
  next
    case False
    with Cons.prems(1) obtain ns where "add_child_cid src cid ms = Inr ns" "cs' = m # ns"
      by auto
    with Cons.IH [of ns] Cons.prems(2) False show ?thesis
      by (auto simp: cids_of_def)
  qed
qed

lemma add_child_cid_refused:
  "distinct (map child_source cs) \<Longrightarrow>
     (\<exists>e. add_child_cid src cid cs = Inl e) \<longleftrightarrow> cid \<in> set (cids_of src cs)"
proof (induction cs)
  case Nil
  then show ?case by (simp add: cids_of_def)
next
  case (Cons m ms)
  show ?case
  proof (cases "src = child_source m")
    case True
    then have "filter (\<lambda>m. child_source m = src) ms = []"
      using Cons.prems by (auto simp: filter_empty_conv image_iff)
    with True show ?thesis by (auto simp: cids_of_def)
  next
    case False
    with Cons show ?thesis by (auto simp: cids_of_def and_then_Inl)
  qed
qed

lemma add_child_check_facts:
  assumes "add_child_check hash commit c = Inr c'"
  shows "msgs_of c' = msgs_of c" and "total_fee c' = total_fee c"
    and "check_source (check_content c') = check_source (check_content c)"
    and "check_epoch (check_content c') = check_epoch (check_content c)"
    and "prev_check (check_content c') = prev_check (check_content c)"
  using assms by (auto simp: add_child_check_def msgs_of_def checkpoint_msgs_def total_fee_def)

section \<open>Properties\<close>

text \<open>
  For a non-negative epoch and a positive period whose window does not overflow, the two epoch
  functions never fail and bracket the epoch between two neighbouring multiples of the period; the
  window the messages of an epoch go to is strictly in the future.
\<close>

theorem window_brackets_epoch:
  assumes "0 \<le> e" and "0 < period" and "i64_range (e + period)"
  shows "\<exists>c w. checkpoint_epoch e period = Inr c \<and> window_epoch e period = Inr w \<and>
     period dvd c \<and> c \<le> e \<and> e < w \<and> w = c + period"
proof -
  let ?q = "e div period"
  have m: "?q * period + e mod period = e" "0 \<le> e mod period" "e mod period < period"
    using assms(2) by simp_all
  have q: "0 \<le> ?q" "?q \<le> e"
    using assms(1,2) zdiv_mono2 [of e 1 period] by (simp_all add: pos_imp_zdiv_nonneg_iff)
  define c where "c = ?q * period"
  have sum: "c + e mod period = e" by (simp add: c_def)
  have c: "0 \<le> c" "c \<le> e" "e < c + period" "period dvd c" "period * (?q + 1) = c + period"
    using q(1) assms(2) sum m(2,3) by (linarith | simp add: c_def distrib_left mult.commute)+
  then have r: "i64_range ?q" "i64_range (?q + 1)" "i64_range c" "i64_range (c + period)"
    using assms q by (simp_all add: i64_range_def)
  have "checkpoint_epoch e period = Inr c" "window_epoch e period = Inr (c + period)"
    using assms(2) r sdiv_nonneg [OF assms(1,2)]
    by (simp_all add: checkpoint_epoch_def window_epoch_def i64_div_def i64_check_def i64_mul_def
        i64_add_def c(5) flip: c_def)
  then show ?thesis using c by auto
qed

theorem window_brackets_epoch_witness:
  "\<exists>c w. checkpoint_epoch 27 10 = Inr c \<and> window_epoch 27 10 = Inr w \<and>
     10 dvd c \<and> c \<le> 27 \<and> 27 < w \<and> w = c + 10"
  by (rule window_brackets_epoch) (simp_all add: i64_range_def)

text \<open>
  A child checkpoint is recorded under its source, at the end of the list of that source, and
  changes no other source; committing the same content twice in a window is refused, and nothing else
  is. Each source keeps a single entry.
\<close>

theorem child_checks_recorded:
  assumes "distinct (map child_source (check_children (check_content c)))"
  shows "case add_child_check hash commit c of
      Inl e \<Rightarrow> check_cid hash commit \<in>
        set (cids_of (check_source (check_content commit)) (check_children (check_content c)))
    | Inr c' \<Rightarrow>
        check_cid hash commit \<notin>
          set (cids_of (check_source (check_content commit)) (check_children (check_content c))) \<and>
        distinct (map child_source (check_children (check_content c'))) \<and>
        cids_of (check_source (check_content commit)) (check_children (check_content c')) =
          cids_of (check_source (check_content commit)) (check_children (check_content c)) @
            [check_cid hash commit] \<and>
        (\<forall>t. t \<noteq> check_source (check_content commit) \<longrightarrow>
           cids_of t (check_children (check_content c')) = cids_of t (check_children (check_content c)))"
proof -
  let ?r = "add_child_cid (check_source (check_content commit)) (check_cid hash commit)
    (check_children (check_content c))"
  show ?thesis
  proof (cases ?r)
    case (Inl e)
    then show ?thesis
      using add_child_cid_refused [OF assms] by (auto simp: add_child_check_def)
  next
    case (Inr cs)
    then show ?thesis
      using add_child_cid_Inr [OF Inr assms] by (simp add: add_child_check_def)
  qed
qed

theorem child_checks_recorded_witness:
  "(\<exists>c'. add_child_check (\<lambda>d. 7 :: nat) (new_checkpoint 0 (new_root 1 :: nat subnet_id) 10)
       (new_checkpoint 0 (new_root 5) 20) = Inr c' \<and>
     cids_of (new_root 1) (check_children (check_content c')) = [7])"
  using child_checks_recorded [of "new_checkpoint 0 (new_root 5) 20" "\<lambda>d. 7 :: nat"
      "new_checkpoint 0 (new_root 1 :: nat subnet_id) 10"]
  by (simp add: add_child_check_def check_cid_def cids_of_def)

text \<open>
  The batch of a checkpoint survives being stored and loaded exactly when it does not hold an
  empty list, which would come back as an absent one; the cid of a checkpoint does not see the
  difference, nor the signature.
\<close>

theorem batch_storage_roundtrip:
  "(deserialize_batch (serialize_batch b) = b \<longleftrightarrow> batch_msgs b \<noteq> Some []) \<and>
   check_cid hash (set_signature s c) = check_cid hash c \<and>
   serialize_batch (deserialize_batch (serialize_batch b)) = serialize_batch b"
  by (cases b)
    (auto simp: deserialize_batch_def serialize_batch_def check_cid_def set_signature_def split: option.split)

end
