(* ===== verification/Voting.thy ===== *)
theory Voting
  imports Submission
begin

text \<open>
  Voting on a sequence of epochs (\<open>common/src/vote/voting.rs\<close>). The executable queue is an optional
  \<open>BTreeSet\<close>: an optional set, whose \<open>first\<close> is the least element.
\<close>

section \<open>State\<close>

record ('a, 'v) voting =
  genesis_epoch :: chain_epoch
  submission_period :: chain_epoch
  last_voting_executed_epoch :: chain_epoch
  executable_epoch_queue :: "chain_epoch set option"
  epoch_votes :: "chain_epoch \<rightharpoonup> ('a, 'v) epoch_vote_submissions"
  threshold_ratio :: ratio

definition DEFAULT_THRESHOLD_RATIO :: ratio where
  "DEFAULT_THRESHOLD_RATIO = (2, 3)"

definition new_voting_with_ratio ::
    "chain_epoch \<Rightarrow> chain_epoch \<Rightarrow> u64 \<Rightarrow> u64 \<Rightarrow> ('a, 'v) voting" where
  "new_voting_with_ratio genesis period num den =
     \<lparr>genesis_epoch = genesis, submission_period = period, last_voting_executed_epoch = genesis,
      executable_epoch_queue = None, epoch_votes = Map.empty, threshold_ratio = (num, den)\<rparr>"

definition new_voting :: "chain_epoch \<Rightarrow> chain_epoch \<Rightarrow> ('a, 'v) voting" where
  "new_voting genesis period =
     new_voting_with_ratio genesis period (fst DEFAULT_THRESHOLD_RATIO) (snd DEFAULT_THRESHOLD_RATIO)"

section \<open>Operations\<close>

definition epoch_can_vote :: "('a, 'v) voting \<Rightarrow> chain_epoch \<Rightarrow> bool res" where
  "epoch_can_vote vt epoch =
     and_then (i64_sub epoch (genesis_epoch vt)) (\<lambda>d.
       and_then (i64_rem d (submission_period vt)) (\<lambda>r. Inr (r = 0)))"

definition is_epoch_executed :: "('a, 'v) voting \<Rightarrow> chain_epoch \<Rightarrow> bool" where
  "is_epoch_executed vt epoch \<longleftrightarrow> epoch \<le> last_voting_executed_epoch vt"

definition is_next_executable_epoch :: "('a, 'v) voting \<Rightarrow> chain_epoch \<Rightarrow> bool res" where
  "is_next_executable_epoch vt epoch =
     and_then (i64_add (last_voting_executed_epoch vt) (submission_period vt)) (\<lambda>n. Inr (n = epoch))"

definition set_first :: "chain_epoch set \<Rightarrow> chain_epoch option" where
  "set_first q = (if q = {} then None else Some (Min q))"

definition remove_epoch_from_queue :: "chain_epoch \<Rightarrow> ('a, 'v) voting \<Rightarrow> ('a, 'v) voting" where
  "remove_epoch_from_queue epoch vt =
     (case executable_epoch_queue vt of
        None \<Rightarrow> vt
      | Some q \<Rightarrow>
          let q' = q - {epoch}
          in vt\<lparr>executable_epoch_queue := (if q' = {} then None else Some q')\<rparr>)"

definition insert_executable_epoch :: "chain_epoch \<Rightarrow> ('a, 'v) voting \<Rightarrow> ('a, 'v) voting" where
  "insert_executable_epoch epoch vt =
     (case executable_epoch_queue vt of
        None \<Rightarrow> vt\<lparr>executable_epoch_queue := Some {epoch}\<rparr>
      | Some q \<Rightarrow> vt\<lparr>executable_epoch_queue := Some (insert epoch q)\<rparr>)"

definition set_round ::
    "chain_epoch \<Rightarrow> ('a, 'v) epoch_vote_submissions \<Rightarrow> ('a, 'v) voting \<Rightarrow> ('a, 'v) voting" where
  "set_round epoch s vt = vt\<lparr>epoch_votes := (epoch_votes vt)(epoch \<mapsto> s)\<rparr>"

definition submit_vote ::
    "('v \<Rightarrow> unique_bytes_key res) \<Rightarrow> 'v \<Rightarrow> chain_epoch \<Rightarrow> 'a \<Rightarrow> token_amount \<Rightarrow> token_amount \<Rightarrow>
     ('a, 'v) voting \<Rightarrow> ('v option \<times> ('a, 'v) voting) res" where
  "submit_vote unique_key vote epoch submitter submitter_weight total_weight vt =
     and_then (epoch_can_vote vt epoch) (\<lambda>can_vote.
     if \<not> can_vote then Inl Anyhow
     else if is_epoch_executed vt epoch then Inl Anyhow
     else
       let submission = (case epoch_votes vt epoch of Some s \<Rightarrow> s | None \<Rightarrow> new_submissions)
       in and_then (submit unique_key submitter submitter_weight vote submission)
            (\<lambda>(most_voted_weight, submission).
          and_then (derive_execution_status total_weight most_voted_weight (threshold_ratio vt) submission)
            (\<lambda>status.
          case status of
            ThresholdNotReached \<Rightarrow> Inr (None, set_round epoch submission vt)
          | ReachingConsensus \<Rightarrow> Inr (None, set_round epoch submission vt)
          | RoundAbort \<Rightarrow> Inr (None, set_round epoch (abort submission) vt)
          | ConsensusReached \<Rightarrow>
              and_then (i64_add (last_voting_executed_epoch vt) (submission_period vt)) (\<lambda>next.
                if next \<noteq> epoch
                then Inr (None, insert_executable_epoch epoch (set_round epoch submission vt))
                else and_then (ok_or Panic (load_most_voted_submission submission)) (\<lambda>v.
                       Inr (Some v, vt))))))"

definition abort_epoch :: "chain_epoch \<Rightarrow> ('a, 'v) voting \<Rightarrow> ('a, 'v) voting" where
  "abort_epoch epoch vt =
     (let vt1 = remove_epoch_from_queue epoch vt
      in case epoch_votes vt1 epoch of
           Some s \<Rightarrow> set_round epoch (abort s) vt1
         | None \<Rightarrow> vt1)"

definition mark_epoch_executed :: "chain_epoch \<Rightarrow> ('a, 'v) voting \<Rightarrow> ('a, 'v) voting res" where
  "mark_epoch_executed epoch vt =
     and_then (is_next_executable_epoch vt epoch) (\<lambda>is_next.
     if \<not> is_next then Inl Anyhow
     else if (case executable_epoch_queue vt of
                Some q \<Rightarrow> epoch \<in> q \<and> set_first q \<noteq> Some epoch
              | None \<Rightarrow> False)
     then Inl Anyhow
     else
       let vt1 = remove_epoch_from_queue epoch (vt\<lparr>last_voting_executed_epoch := epoch\<rparr>)
       in Inr (vt1\<lparr>epoch_votes := (epoch_votes vt1)(epoch := None)\<rparr>))"

text \<open>The two \<open>unreachable!\<close> branches and the \<open>unwrap\<close> of the code are panics.\<close>

definition get_next_executable_vote :: "('a, 'v) voting \<Rightarrow> 'v option res" where
  "get_next_executable_vote vt =
     (case executable_epoch_queue vt of
        None \<Rightarrow> Inr None
      | Some q \<Rightarrow>
          (case set_first q of
             None \<Rightarrow> Inl Panic
           | Some epoch \<Rightarrow>
               and_then (i64_add (last_voting_executed_epoch vt) (submission_period vt)) (\<lambda>next.
                 if next < epoch then Inr None
                 else case epoch_votes vt epoch of
                        None \<Rightarrow> Inl Panic
                      | Some s \<Rightarrow>
                          and_then (ok_or Panic (load_most_voted_submission s)) (\<lambda>v. Inr (Some v)))))"

definition load_most_voted_submission_at :: "chain_epoch \<Rightarrow> ('a, 'v) voting \<Rightarrow> 'v option" where
  "load_most_voted_submission_at epoch vt =
     (case epoch_votes vt epoch of Some s \<Rightarrow> load_most_voted_submission s | None \<Rightarrow> None)"

definition load_most_voted_weight_at :: "chain_epoch \<Rightarrow> ('a, 'v) voting \<Rightarrow> token_amount option" where
  "load_most_voted_weight_at epoch vt =
     (case epoch_votes vt epoch of Some s \<Rightarrow> load_most_voted_weight s | None \<Rightarrow> None)"

section \<open>Storage form\<close>

definition serialize_voting ::
    "('a, 'v) voting \<Rightarrow> chain_epoch \<times> chain_epoch \<times> chain_epoch \<times> chain_epoch list \<times>
     (chain_epoch \<rightharpoonup> ('a, 'v) epoch_vote_submissions) \<times> ratio" where
  "serialize_voting vt =
     (case executable_epoch_queue vt of
        Some q \<Rightarrow> (genesis_epoch vt, submission_period vt, last_voting_executed_epoch vt,
                   sorted_list_of_set q, epoch_votes vt, threshold_ratio vt)
      | None \<Rightarrow> (genesis_epoch vt, submission_period vt, last_voting_executed_epoch vt,
                 [], epoch_votes vt, threshold_ratio vt))"

definition deserialize_voting ::
    "chain_epoch \<times> chain_epoch \<times> chain_epoch \<times> chain_epoch list \<times>
     (chain_epoch \<rightharpoonup> ('a, 'v) epoch_vote_submissions) \<times> ratio \<Rightarrow> ('a, 'v) voting" where
  "deserialize_voting t =
     (case t of (genesis, period, last_epoch, queue, votes, r) \<Rightarrow>
        \<lparr>genesis_epoch = genesis, submission_period = period, last_voting_executed_epoch = last_epoch,
         executable_epoch_queue = (if queue = [] then None else Some (set queue)),
         epoch_votes = votes, threshold_ratio = r\<rparr>)"

section \<open>Field lemmas\<close>

lemma set_round_simps [simp]:
  "genesis_epoch (set_round e s vt) = genesis_epoch vt"
  "submission_period (set_round e s vt) = submission_period vt"
  "last_voting_executed_epoch (set_round e s vt) = last_voting_executed_epoch vt"
  "executable_epoch_queue (set_round e s vt) = executable_epoch_queue vt"
  "epoch_votes (set_round e s vt) = (epoch_votes vt)(e \<mapsto> s)"
  "threshold_ratio (set_round e s vt) = threshold_ratio vt"
  by (simp_all add: set_round_def)

lemma insert_executable_epoch_simps [simp]:
  "genesis_epoch (insert_executable_epoch e vt) = genesis_epoch vt"
  "submission_period (insert_executable_epoch e vt) = submission_period vt"
  "last_voting_executed_epoch (insert_executable_epoch e vt) = last_voting_executed_epoch vt"
  "epoch_votes (insert_executable_epoch e vt) = epoch_votes vt"
  "threshold_ratio (insert_executable_epoch e vt) = threshold_ratio vt"
  by (simp_all add: insert_executable_epoch_def split: option.split)

lemma remove_epoch_from_queue_simps [simp]:
  "genesis_epoch (remove_epoch_from_queue e vt) = genesis_epoch vt"
  "submission_period (remove_epoch_from_queue e vt) = submission_period vt"
  "last_voting_executed_epoch (remove_epoch_from_queue e vt) = last_voting_executed_epoch vt"
  "epoch_votes (remove_epoch_from_queue e vt) = epoch_votes vt"
  "threshold_ratio (remove_epoch_from_queue e vt) = threshold_ratio vt"
  by (simp_all add: remove_epoch_from_queue_def Let_def split: option.split)

text \<open>The queue as a set; the code keeps it \<open>None\<close> when it is empty.\<close>

definition queued :: "('a, 'v) voting \<Rightarrow> chain_epoch set" where
  "queued vt = (case executable_epoch_queue vt of None \<Rightarrow> {} | Some q \<Rightarrow> q)"

definition queue_ok :: "('a, 'v) voting \<Rightarrow> bool" where
  "queue_ok vt \<longleftrightarrow> executable_epoch_queue vt \<noteq> Some {} \<and> finite (queued vt)"

lemma queued_set_round [simp]: "queued (set_round e s vt) = queued vt"
  by (simp add: queued_def)

lemma queued_insert [simp]: "queued (insert_executable_epoch e vt) = insert e (queued vt)"
  by (simp add: queued_def insert_executable_epoch_def split: option.split)

lemma queued_remove [simp]: "queued (remove_epoch_from_queue e vt) = queued vt - {e}"
  by (auto simp: queued_def remove_epoch_from_queue_def Let_def split: option.split)

lemma queue_ok_changes:
  "queue_ok vt \<Longrightarrow> queue_ok (set_round e s vt)"
  "queue_ok vt \<Longrightarrow> queue_ok (insert_executable_epoch e vt)"
  "queue_ok vt \<Longrightarrow> queue_ok (remove_epoch_from_queue e vt)"
  by (auto simp: queue_ok_def queued_def insert_executable_epoch_def remove_epoch_from_queue_def
      Let_def split: option.splits if_splits)

lemma queue_ok_cases:
  assumes "queue_ok vt"
  obtains (empty) "executable_epoch_queue vt = None" "queued vt = {}"
  | (full) q where "executable_epoch_queue vt = Some q" "q \<noteq> {}" "finite q" "queued vt = q"
  using assms by (cases "executable_epoch_queue vt") (auto simp: queue_ok_def queued_def)

section \<open>The invariant of a voting\<close>

text \<open>
  The abstract view of a voting: the ballots of the current round of every epoch. A stored round
  summarises its ballots, belongs to an epoch that is not executed yet and lies on the grid of the
  period. An epoch is queued for execution only with a key over the threshold.
\<close>

definition on_grid :: "('a, 'v) voting \<Rightarrow> chain_epoch \<Rightarrow> bool" where
  "on_grid vt e \<longleftrightarrow> submission_period vt dvd e - genesis_epoch vt"

definition tracks ::
    "('v \<Rightarrow> unique_bytes_key res) \<Rightarrow> (chain_epoch \<Rightarrow> 'a ballot list) \<Rightarrow> ('a, 'v) voting \<Rightarrow> bool" where
  "tracks unique_key rounds vt \<longleftrightarrow>
     (\<forall>e. epoch_votes vt e = None \<longrightarrow> rounds e = []) \<and>
     (\<forall>e s. epoch_votes vt e = Some s \<longrightarrow>
        round_of unique_key (rounds e) s \<and> last_voting_executed_epoch vt < e \<and> on_grid vt e)"

definition has_quorum :: "token_amount \<Rightarrow> ratio \<Rightarrow> 'a ballot list \<Rightarrow> bool" where
  "has_quorum tw r bs \<longleftrightarrow> bs \<noteq> [] \<and> (\<exists>k. threshold tw r < key_weight bs k)"

definition voting_inv ::
    "('v \<Rightarrow> unique_bytes_key res) \<Rightarrow> token_amount \<Rightarrow> (chain_epoch \<Rightarrow> 'a ballot list) \<Rightarrow>
     ('a, 'v) voting \<Rightarrow> bool" where
  "voting_inv unique_key tw rounds vt \<longleftrightarrow>
     0 < submission_period vt \<and> snd (threshold_ratio vt) \<noteq> 0 \<and>
     genesis_epoch vt \<le> last_voting_executed_epoch vt \<and> on_grid vt (last_voting_executed_epoch vt) \<and>
     tracks unique_key rounds vt \<and> queue_ok vt \<and>
     (\<forall>e \<in> queued vt. has_quorum tw (threshold_ratio vt) (rounds e))"

lemma voting_inv_new:
  assumes "0 < period" and "den \<noteq> 0"
  shows "voting_inv unique_key tw (\<lambda>_. []) (new_voting_with_ratio genesis period num den)"
  using assms
  by (simp add: voting_inv_def new_voting_with_ratio_def on_grid_def tracks_def queue_ok_def queued_def)

lemma on_grid_next:
  assumes "0 < submission_period vt" and "on_grid vt l" and "on_grid vt e" and "l < e"
  shows "l + submission_period vt \<le> e"
proof -
  have "submission_period vt dvd e - l"
    using dvd_diff [of "submission_period vt" "e - genesis_epoch vt" "l - genesis_epoch vt"]
      assms(2,3) by (simp add: on_grid_def)
  then have "submission_period vt \<le> e - l"
    using assms(4) by (intro zdvd_imp_le) simp_all
  then show ?thesis by simp
qed

lemma on_grid_step: "on_grid vt l \<Longrightarrow> on_grid vt (l + submission_period vt)"
  using dvd_add [of "submission_period vt" "l - genesis_epoch vt" "submission_period vt"]
  by (simp add: on_grid_def algebra_simps)

lemma on_grid_cong:
  "submission_period vt' = submission_period vt \<Longrightarrow> genesis_epoch vt' = genesis_epoch vt \<Longrightarrow>
     on_grid vt' e \<longleftrightarrow> on_grid vt e"
  by (simp add: on_grid_def)

lemma epoch_can_vote_grid:
  "epoch_can_vote vt e = Inr b \<Longrightarrow> b \<longleftrightarrow> on_grid vt e"
  by (auto simp: epoch_can_vote_def i64_rem_def on_grid_def smod_0_iff_dvd split: if_splits)

lemma tracksD:
  assumes "tracks unique_key rounds vt"
  shows "epoch_votes vt e = None \<Longrightarrow> rounds e = []"
    and "epoch_votes vt e = Some s \<Longrightarrow>
      round_of unique_key (rounds e) s \<and> last_voting_executed_epoch vt < e \<and> on_grid vt e"
  using assms by (simp_all add: tracks_def)

lemma tracks_current_round:
  assumes "tracks unique_key rounds vt"
  shows "round_of unique_key (rounds e)
           (case epoch_votes vt e of Some s \<Rightarrow> s | None \<Rightarrow> new_submissions)"
  using tracksD [OF assms, of e] round_of_new by (force split: option.split)

lemma tracks_set_round:
  assumes "tracks unique_key rounds vt" and "round_of unique_key bs s"
    and "last_voting_executed_epoch vt < e" and "on_grid vt e"
  shows "tracks unique_key (rounds(e := bs)) (set_round e s vt)"
  using assms by (auto simp: tracks_def on_grid_def)

section \<open>Submitting a vote keeps the invariant\<close>

text \<open>Everything the code checks and does when a vote is accepted, read off its branches.\<close>

lemma submit_vote_Inr:
  assumes "submit_vote unique_key v e a w tw vt = Inr (res, vt')"
  obtains m s' status where
    "on_grid vt e" "last_voting_executed_epoch vt < e"
    "submit unique_key a w v (case epoch_votes vt e of Some s \<Rightarrow> s | None \<Rightarrow> new_submissions) = Inr (m, s')"
    "derive_execution_status tw m (threshold_ratio vt) s' = Inr status"
    "case status of
       ConsensusReached \<Rightarrow>
         if last_voting_executed_epoch vt + submission_period vt \<noteq> e
         then res = None \<and> vt' = insert_executable_epoch e (set_round e s' vt)
         else vt' = vt \<and> load_most_voted_submission s' = res \<and> res \<noteq> None
     | RoundAbort \<Rightarrow> res = None \<and> vt' = set_round e (abort s') vt
     | _ \<Rightarrow> res = None \<and> vt' = set_round e s' vt"
  using assms epoch_can_vote_grid [of vt e True] unfolding submit_vote_def Let_def
  by (auto simp: is_epoch_executed_def not_le split: if_splits vote_execution_status.splits)
    (meson vote_execution_status.exhaust)+



lemma has_quorum_top:
  assumes "round_of unique_key bs s" and "most_voted_key s = Some mk"
  shows "has_quorum tw r bs \<longleftrightarrow> threshold tw r < key_weight bs mk"
proof -
  have "bs \<noteq> []" and "key_weight bs k \<le> key_weight bs mk" for k
    using assms by (auto simp: round_of_def)
  then show ?thesis
    unfolding has_quorum_def by (meson less_le_trans)
qed

lemma has_quorum_append:
  assumes "has_quorum tw r bs" and "nonneg_ballots cs"
  shows "has_quorum tw r (bs @ cs)"
proof -
  obtain k where "threshold tw r < key_weight bs k" and "bs \<noteq> []"
    using assms(1) by (auto simp: has_quorum_def)
  then have "threshold tw r < key_weight (bs @ cs) k"
    using key_weight_nonneg [OF assms(2), of k] by simp
  then show ?thesis using \<open>bs \<noteq> []\<close> unfolding has_quorum_def by blast
qed

text \<open>The round of an accepted vote: the ballot joins its epoch, and the status tells whether there is a quorum.\<close>

lemma submit_vote_round:
  assumes inv: "voting_inv unique_key tw rounds vt" and "0 \<le> w"
    and sub: "submit_vote unique_key v e a w tw vt = Inr (res, vt')"
  obtains k mk s' status where "unique_key v = Inr k" "on_grid vt e" "last_voting_executed_epoch vt < e"
    "round_of unique_key (rounds e @ [(a, w, k)]) s'" "most_voted_key s' = Some mk"
    "status = ConsensusReached \<longleftrightarrow> has_quorum tw (threshold_ratio vt) (rounds e @ [(a, w, k)])"
    "case status of
       ConsensusReached \<Rightarrow>
         if last_voting_executed_epoch vt + submission_period vt \<noteq> e
         then res = None \<and> vt' = insert_executable_epoch e (set_round e s' vt)
         else vt' = vt \<and> load_most_voted_submission s' = res \<and> res \<noteq> None
     | RoundAbort \<Rightarrow> res = None \<and> vt' = set_round e (abort s') vt
     | _ \<Rightarrow> res = None \<and> vt' = set_round e s' vt"
proof -
  from sub obtain m s' status where
    grid: "on_grid vt e" "last_voting_executed_epoch vt < e" and
    s': "submit unique_key a w v (case epoch_votes vt e of Some s \<Rightarrow> s | None \<Rightarrow> new_submissions) = Inr (m, s')"
    and status: "derive_execution_status tw m (threshold_ratio vt) s' = Inr status"
    and out: "case status of
       ConsensusReached \<Rightarrow>
         if last_voting_executed_epoch vt + submission_period vt \<noteq> e
         then res = None \<and> vt' = insert_executable_epoch e (set_round e s' vt)
         else vt' = vt \<and> load_most_voted_submission s' = res \<and> res \<noteq> None
     | RoundAbort \<Rightarrow> res = None \<and> vt' = set_round e (abort s') vt
     | _ \<Rightarrow> res = None \<and> vt' = set_round e s' vt"
    by (rule submit_vote_Inr)
  from inv have tr: "tracks unique_key rounds vt" and r0: "snd (threshold_ratio vt) \<noteq> 0"
    by (simp_all add: voting_inv_def)
  from submit_round_Inr [OF tracks_current_round [OF tr, of e] \<open>0 \<le> w\<close> s'] obtain k mk where
    k: "unique_key v = Inr k" and r': "round_of unique_key (rounds e @ [(a, w, k)]) s'"
    and mk: "most_voted_key s' = Some mk" "m = key_weight (rounds e @ [(a, w, k)]) mk"
    by blast
  have "status = ConsensusReached \<longleftrightarrow> has_quorum tw (threshold_ratio vt) (rounds e @ [(a, w, k)])"
    using consensus_reached_iff [OF r' r0, of tw mk] status has_quorum_top [OF r' mk(1), of tw "threshold_ratio vt"]
    by (simp add: mk(2))
  then show ?thesis by (rule that [OF k grid r' mk(1) _ out])
qed

text \<open>
  The four outcomes of an accepted vote over the ballots: the ballot is appended to its epoch; with a
  quorum the epoch is queued, or, when it is the next one, its most voted vote is answered and the
  voting is left for \<open>mark_epoch_executed\<close>; without one the round goes on or is reset.
\<close>

lemma submit_vote_outcome:
  assumes inv: "voting_inv unique_key tw rounds vt" and "0 \<le> w"
    and sub: "submit_vote unique_key v e a w tw vt = Inr (res, vt')"
  obtains k bs where
    "unique_key v = Inr k" "bs = rounds e @ [(a, w, k)]" "distinct (voters bs)" "nonneg_ballots bs"
    "on_grid vt e" "last_voting_executed_epoch vt < e"
    "(\<not> has_quorum tw (threshold_ratio vt) bs \<and> res = None \<and> queued vt' = queued vt \<and>
        (voting_inv unique_key tw (rounds(e := bs)) vt' \<or> voting_inv unique_key tw (rounds(e := [])) vt')) \<or>
     (has_quorum tw (threshold_ratio vt) bs \<and> res = None \<and> queued vt' = insert e (queued vt) \<and>
        last_voting_executed_epoch vt + submission_period vt \<noteq> e \<and>
        voting_inv unique_key tw (rounds(e := bs)) vt') \<or>
     (has_quorum tw (threshold_ratio vt) bs \<and> vt' = vt \<and>
        last_voting_executed_epoch vt + submission_period vt = e \<and>
        (\<exists>v' mk. res = Some v' \<and> unique_key v' = Inr mk \<and>
                 threshold tw (threshold_ratio vt) < key_weight bs mk))"
proof -
  from inv have tr: "tracks unique_key rounds vt" by (simp add: voting_inv_def)
  from assms obtain k mk s' status where k: "unique_key v = Inr k" and grid: "on_grid vt e" "last_voting_executed_epoch vt < e"
    and r': "round_of unique_key (rounds e @ [(a, w, k)]) s'" and mk: "most_voted_key s' = Some mk"
    and st: "status = ConsensusReached \<longleftrightarrow> has_quorum tw (threshold_ratio vt) (rounds e @ [(a, w, k)])"
    and out: "case status of
       ConsensusReached \<Rightarrow>
         if last_voting_executed_epoch vt + submission_period vt \<noteq> e
         then res = None \<and> vt' = insert_executable_epoch e (set_round e s' vt)
         else vt' = vt \<and> load_most_voted_submission s' = res \<and> res \<noteq> None
     | RoundAbort \<Rightarrow> res = None \<and> vt' = set_round e (abort s') vt
     | _ \<Rightarrow> res = None \<and> vt' = set_round e s' vt"
    by (rule submit_vote_round)
  define bs where "bs = rounds e @ [(a, w, k)]"
  note quorum = has_quorum_top [OF r' mk, of tw "threshold_ratio vt", folded bs_def] and consensus = st [folded bs_def]
  have bs: "distinct (voters bs)" "nonneg_ballots bs" "round_of unique_key bs s'"
    using r' by (simp_all add: bs_def round_of_def)
  have keep: "voting_inv unique_key tw (rounds(e := cs)) (set_round e s vt)"
    if "round_of unique_key cs s" "e \<notin> queued vt \<or> has_quorum tw (threshold_ratio vt) cs" for cs s
    using inv that tracks_set_round [OF tr that(1) grid(2,1)]
    by (auto simp: voting_inv_def on_grid_def queue_ok_changes)
  have not_queued: "e \<notin> queued vt" if "\<not> has_quorum tw (threshold_ratio vt) bs"
    using that inv has_quorum_append [of tw "threshold_ratio vt" "rounds e" "[(a, w, k)]"] \<open>0 \<le> w\<close>
    by (auto simp: voting_inv_def bs_def)
  show ?thesis
  proof (rule that [OF k bs_def bs(1,2) grid])
    show "(\<not> has_quorum tw (threshold_ratio vt) bs \<and> res = None \<and> queued vt' = queued vt \<and>
        (voting_inv unique_key tw (rounds(e := bs)) vt' \<or> voting_inv unique_key tw (rounds(e := [])) vt')) \<or>
     (has_quorum tw (threshold_ratio vt) bs \<and> res = None \<and> queued vt' = insert e (queued vt) \<and>
        last_voting_executed_epoch vt + submission_period vt \<noteq> e \<and>
        voting_inv unique_key tw (rounds(e := bs)) vt') \<or>
     (has_quorum tw (threshold_ratio vt) bs \<and> vt' = vt \<and>
        last_voting_executed_epoch vt + submission_period vt = e \<and>
        (\<exists>v' mk. res = Some v' \<and> unique_key v' = Inr mk \<and>
                 threshold tw (threshold_ratio vt) < key_weight bs mk))"
    proof (cases "has_quorum tw (threshold_ratio vt) bs")
      case False
      with out consensus keep [OF bs(3)] keep [OF round_of_abort [OF bs(3)]] not_queued
      show ?thesis by (cases status) auto
    next
      case True
      then have st: "status = ConsensusReached" by (simp add: consensus)
      show ?thesis
      proof (cases "last_voting_executed_epoch vt + submission_period vt = e")
        case True
        with out st round_of_loadable [OF bs(3) mk] quorum \<open>has_quorum _ _ bs\<close>
        show ?thesis by auto
      next
        case False
        have "voting_inv unique_key tw (rounds(e := bs)) (insert_executable_epoch e (set_round e s' vt))"
          using keep [OF bs(3)] True
          by (auto simp: voting_inv_def on_grid_def tracks_def queue_ok_changes)
        with False out st True show ?thesis by simp
      qed
    qed
  qed
qed

section \<open>Executing and aborting epochs\<close>

lemma queuedD:
  assumes "voting_inv unique_key tw rounds vt" and "e \<in> queued vt"
  shows "\<exists>s. epoch_votes vt e = Some s \<and> round_of unique_key (rounds e) s"
    and "last_voting_executed_epoch vt + submission_period vt \<le> e"
    and "has_quorum tw (threshold_ratio vt) (rounds e)"
proof -
  from assms show q: "has_quorum tw (threshold_ratio vt) (rounds e)"
    by (simp add: voting_inv_def)
  from assms(1) have tr: "tracks unique_key rounds vt" by (simp add: voting_inv_def)
  from q have "rounds e \<noteq> []" by (simp add: has_quorum_def)
  then obtain s where "epoch_votes vt e = Some s"
    using tracksD(1) [OF tr, of e] by auto
  with tracksD(2) [OF tr this] assms(1)
  show "\<exists>s. epoch_votes vt e = Some s \<and> round_of unique_key (rounds e) s"
    and "last_voting_executed_epoch vt + submission_period vt \<le> e"
    by (auto simp: voting_inv_def intro!: on_grid_next)
qed

lemma mark_epoch_executed_Inr:
  assumes "mark_epoch_executed e vt = Inr vt'"
  shows "e = last_voting_executed_epoch vt + submission_period vt"
    and "last_voting_executed_epoch vt' = e" and "submission_period vt' = submission_period vt"
    and "genesis_epoch vt' = genesis_epoch vt" and "threshold_ratio vt' = threshold_ratio vt"
    and "epoch_votes vt' = (epoch_votes vt)(e := None)" and "queued vt' = queued vt - {e}"
    and "queue_ok vt \<Longrightarrow> queue_ok vt'"
  using assms unfolding mark_epoch_executed_def is_next_executable_epoch_def Let_def
  by (auto simp: queued_def queue_ok_def remove_epoch_from_queue_def Let_def split: if_splits option.splits)

lemma mark_epoch_executed_inv:
  assumes inv: "voting_inv unique_key tw rounds vt" and "mark_epoch_executed e vt = Inr vt'"
  shows "voting_inv unique_key tw (rounds(e := [])) vt'"
proof -
  note m = mark_epoch_executed_Inr [OF assms(2)]
  from inv have tr: "tracks unique_key rounds vt" and p: "0 < submission_period vt"
    and l: "on_grid vt (last_voting_executed_epoch vt)"
    by (simp_all add: voting_inv_def)
  have later: "e < f" if "epoch_votes vt f = Some s" "f \<noteq> e" for f s
    using tracksD(2) [OF tr that(1)] on_grid_next [OF p l, of f] that(2) m(1) by force
  have grid: "on_grid vt' f \<longleftrightarrow> on_grid vt f" for f
    by (simp add: on_grid_def m(3,4))
  have "tracks unique_key (rounds(e := [])) vt'"
    using tr later unfolding tracks_def grid by (auto simp: m(2,6))
  then show ?thesis
    using inv m(8) on_grid_step [OF l] p
    by (auto simp: voting_inv_def m(1-7) grid)
qed

text \<open>The next epoch on the grid can always be marked; the check on the queue never refuses it.\<close>

lemma mark_next_epoch:
  assumes inv: "voting_inv unique_key tw rounds vt"
    and "i64_range (last_voting_executed_epoch vt + submission_period vt)"
  shows "\<exists>vt'. mark_epoch_executed (last_voting_executed_epoch vt + submission_period vt) vt = Inr vt'"
proof -
  let ?e = "last_voting_executed_epoch vt + submission_period vt"
  have "set_first (queued vt) = Some ?e" if "?e \<in> queued vt"
    using that inv queuedD(2) [OF inv]
    by (auto simp: set_first_def voting_inv_def queue_ok_def intro!: Min_eqI)
  then show ?thesis
    using assms(2)
    by (auto simp: mark_epoch_executed_def is_next_executable_epoch_def i64_add_def i64_check_def
        Let_def queued_def split: option.splits)
qed

lemma abort_epoch_simps [simp]:
  "genesis_epoch (abort_epoch e vt) = genesis_epoch vt"
  "submission_period (abort_epoch e vt) = submission_period vt"
  "last_voting_executed_epoch (abort_epoch e vt) = last_voting_executed_epoch vt"
  "threshold_ratio (abort_epoch e vt) = threshold_ratio vt"
  "queued (abort_epoch e vt) = queued vt - {e}"
  "epoch_votes (abort_epoch e vt) = (epoch_votes vt)(e := map_option abort (epoch_votes vt e))"
  by (auto simp: abort_epoch_def Let_def split: option.split)

lemma abort_epoch_inv:
  assumes "voting_inv unique_key tw rounds vt"
  shows "voting_inv unique_key tw (rounds(e := [])) (abort_epoch e vt)"
proof -
  from assms have tr: "tracks unique_key rounds vt" by (simp add: voting_inv_def)
  have grid: "on_grid (abort_epoch e vt) f \<longleftrightarrow> on_grid vt f" for f
    by (simp add: on_grid_def)
  have "tracks unique_key (rounds(e := [])) (abort_epoch e vt)"
    using tr by (auto simp: tracks_def grid intro: round_of_abort)
  moreover have "queue_ok (abort_epoch e vt)"
    using assms by (auto simp: voting_inv_def abort_epoch_def Let_def queue_ok_changes split: option.split)
  ultimately show ?thesis
    using assms by (auto simp: voting_inv_def grid)
qed

lemma get_next_executable_vote_inv:
  assumes inv: "voting_inv unique_key tw rounds vt"
    and range: "i64_range (last_voting_executed_epoch vt + submission_period vt)"
  shows "get_next_executable_vote vt =
      Inr (if last_voting_executed_epoch vt + submission_period vt \<in> queued vt
           then load_most_voted_submission_at (last_voting_executed_epoch vt + submission_period vt) vt
           else None)"
    and "e \<in> queued vt \<Longrightarrow>
      \<exists>v mk. load_most_voted_submission_at e vt = Some v \<and> unique_key v = Inr mk \<and>
             threshold tw (threshold_ratio vt) < key_weight (rounds e) mk"
proof -
  let ?n = "last_voting_executed_epoch vt + submission_period vt"
  show load: "\<exists>v mk. load_most_voted_submission_at e vt = Some v \<and> unique_key v = Inr mk \<and>
      threshold tw (threshold_ratio vt) < key_weight (rounds e) mk" if e: "e \<in> queued vt" for e
  proof -
    from queuedD [OF inv e] obtain s where s: "epoch_votes vt e = Some s"
      "round_of unique_key (rounds e) s" and q: "has_quorum tw (threshold_ratio vt) (rounds e)" by blast
    then obtain mk where mk: "most_voted_key s = Some mk"
      by (auto simp: has_quorum_def round_of_def)
    with round_of_loadable [OF s(2) mk] has_quorum_top [OF s(2) mk] q s(1) show ?thesis
      by (auto simp: load_most_voted_submission_at_def)
  qed
  have ok: "queue_ok vt" using inv by (simp add: voting_inv_def)
  then show "get_next_executable_vote vt =
      Inr (if ?n \<in> queued vt then load_most_voted_submission_at ?n vt else None)"
  proof (cases rule: queue_ok_cases)
    case empty
    then show ?thesis by (simp add: get_next_executable_vote_def)
  next
    case (full q)
    have min: "Min q \<in> queued vt" using full by simp
    have ge: "?n \<le> f" if "f \<in> q" for f using queuedD(2) [OF inv, of f] that full(4) by simp
    have first: "set_first q = Some (Min q)" by (simp add: set_first_def full(2))
    show ?thesis
    proof (cases "?n \<in> q")
      case True
      then have m: "Min q = ?n" using ge full(3) by (intro Min_eqI) auto
      obtain v where v: "load_most_voted_submission_at ?n vt = Some v"
        using load [of ?n] True full(4) by blast
      then obtain s where "epoch_votes vt ?n = Some s" "load_most_voted_submission s = Some v"
        by (auto simp: load_most_voted_submission_at_def split: option.splits)
      then show ?thesis
        using True full(1,4) first m v range
        by (simp add: get_next_executable_vote_def i64_add_def i64_check_def)
    next
      case False
      then have "?n < Min q" using ge [of "Min q"] min full(4) by (metis order_le_less)
      then show ?thesis
        using False full(1,4) first range
        by (simp add: get_next_executable_vote_def i64_add_def i64_check_def)
    qed
  qed
qed

section \<open>Histories of a voting\<close>

text \<open>
  What the actors do with a voting: they submit votes (with the total weight of the validator set at
  that moment), mark epochs executed, and abort epochs whose vote does not apply.
\<close>

datatype ('a, 'v) voting_event =
    VoteCast chain_epoch 'a token_amount 'v token_amount
  | EpochExecuted chain_epoch
  | EpochAborted chain_epoch

inductive voting_step ::
    "('v \<Rightarrow> unique_bytes_key res) \<Rightarrow> ('a, 'v) voting \<Rightarrow> ('a, 'v) voting_event \<Rightarrow>
     ('a, 'v) voting \<Rightarrow> bool"
  for unique_key :: "'v \<Rightarrow> unique_bytes_key res" where
  vote_cast: "submit_vote unique_key v e a w tw vt = Inr (res, vt') \<Longrightarrow>
     voting_step unique_key vt (VoteCast e a w v tw) vt'"
| epoch_executed: "mark_epoch_executed e vt = Inr vt' \<Longrightarrow>
     voting_step unique_key vt (EpochExecuted e) vt'"
| epoch_aborted: "voting_step unique_key vt (EpochAborted e) (abort_epoch e vt)"

inductive_cases VoteCastE: "voting_step unique_key vt (VoteCast e a w v tw) vt'"
inductive_cases EpochExecutedE: "voting_step unique_key vt (EpochExecuted e) vt'"
inductive_cases EpochAbortedE: "voting_step unique_key vt (EpochAborted e) vt'"

text \<open>The same history as a function.\<close>

fun apply_event :: "('v \<Rightarrow> unique_bytes_key res) \<Rightarrow> ('a, 'v) voting_event \<Rightarrow> ('a, 'v) voting \<Rightarrow> ('a, 'v) voting res" where
  "apply_event uk (VoteCast e a w v tw) vt = and_then (submit_vote uk v e a w tw vt) (\<lambda>(res, vt'). Inr vt')"
| "apply_event uk (EpochExecuted e) vt = mark_epoch_executed e vt"
| "apply_event uk (EpochAborted e) vt = Inr (abort_epoch e vt)"

lemma apply_event_step: "voting_step uk vt ev vt' \<longleftrightarrow> apply_event uk ev vt = Inr vt'"
  by (cases ev) (auto intro: voting_step.intros elim: voting_step.cases)

lemma fold_apply_event: "run (voting_step uk) vt evs vt' \<longleftrightarrow> fold_res (apply_event uk) evs vt = Inr vt'"
proof
  show "run (voting_step uk) vt evs vt' \<Longrightarrow> fold_res (apply_event uk) evs vt = Inr vt'"
    by (induction rule: run.induct) (simp_all add: apply_event_step)
  show "fold_res (apply_event uk) evs vt = Inr vt' \<Longrightarrow> run (voting_step uk) vt evs vt'"
    by (induction evs arbitrary: vt) (auto simp: apply_event_step [symmetric] intro: run.intros)
qed

fun executed_epoch :: "('a, 'v) voting_event \<Rightarrow> chain_epoch option" where
  "executed_epoch (EpochExecuted e) = Some e"
| "executed_epoch _ = None"

lemma submit_vote_frame:
  assumes "submit_vote unique_key v e a w tw vt = Inr (res, vt')"
  shows "genesis_epoch vt' = genesis_epoch vt" and "submission_period vt' = submission_period vt"
    and "last_voting_executed_epoch vt' = last_voting_executed_epoch vt"
    and "threshold_ratio vt' = threshold_ratio vt"
  using assms by (auto elim!: submit_vote_Inr split: vote_execution_status.splits if_splits)

interpretation voter: sequential_executor "voting_step unique_key" last_voting_executed_epoch
  submission_period executed_epoch
  by unfold_locales
    (auto elim!: voting_step.cases simp: submit_vote_frame mark_epoch_executed_Inr)

text \<open>
  The ballots a history leaves in each epoch are found along the run; only their existence matters
  for what the voting then does.
\<close>

definition steady :: "token_amount \<Rightarrow> ('a, 'v) voting_event \<Rightarrow> bool" where
  "steady tw ev = (case ev of VoteCast _ _ w _ t \<Rightarrow> 0 \<le> w \<and> t = tw | _ \<Rightarrow> True)"

lemma submit_vote_inv:
  assumes inv: "voting_inv unique_key tw rounds vt" and "0 \<le> w"
    and sub: "submit_vote unique_key v e a w tw vt = Inr (res, vt')"
  shows "\<exists>rounds'. voting_inv unique_key tw rounds' vt'"
  by (rule submit_vote_outcome [OF assms]) (use inv in blast)

lemma voting_step_inv:
  assumes "voting_step unique_key vt ev vt'" and "steady tw ev"
    and "voting_inv unique_key tw rounds vt"
  shows "\<exists>rounds'. voting_inv unique_key tw rounds' vt'"
  using assms
  by (cases rule: voting_step.cases)
    (auto simp: steady_def intro: submit_vote_inv mark_epoch_executed_inv abort_epoch_inv)

lemma voting_run_inv:
  assumes "run (voting_step unique_key) vt evs vt'" and "list_all (steady tw) evs"
    and "voting_inv unique_key tw rounds vt"
  shows "\<exists>rounds'. voting_inv unique_key tw rounds' vt'"
  using assms
proof (induction arbitrary: rounds rule: run.induct)
  case (run_cons s e t es u)
  then show ?case using voting_step_inv by fastforce
qed auto

section \<open>Properties\<close>

text \<open>
  C13: A vote is accepted only for an epoch on the voting grid that is not executed, and at most once
  per submitter and round. The voting answers a vote exactly when the epoch is the next one to be
  executed and a key got more than the threshold of the total weight, and then the answer is a vote
  with such a key; with the same quorum for a later epoch the epoch joins the queue, and without a
  quorum neither the queue grows nor anything is answered.
\<close>

theorem vote_answer_needs_quorum:
  assumes "voting_inv unique_key tw rounds vt" and "0 \<le> w"
    and "submit_vote unique_key v e a w tw vt = Inr (res, vt')"
  shows "on_grid vt e \<and> last_voting_executed_epoch vt < e \<and> a \<notin> set (voters (rounds e)) \<and>
     (\<exists>k. unique_key v = Inr k \<and>
       (let bs = rounds e @ [(a, w, k)];
            quorum = has_quorum tw (threshold_ratio vt) bs;
            is_next = (last_voting_executed_epoch vt + submission_period vt = e)
        in (res \<noteq> None \<longleftrightarrow> quorum \<and> is_next) \<and>
           (\<forall>v' \<in> set_option res. \<exists>mk. unique_key v' = Inr mk \<and>
              threshold tw (threshold_ratio vt) < key_weight bs mk) \<and>
           queued vt' = (if quorum \<and> \<not> is_next then insert e (queued vt) else queued vt)))"
proof -
  from assms obtain k bs where *:
    "unique_key v = Inr k" "bs = rounds e @ [(a, w, k)]" "distinct (voters bs)"
    "on_grid vt e" "last_voting_executed_epoch vt < e"
    "(\<not> has_quorum tw (threshold_ratio vt) bs \<and> res = None \<and> queued vt' = queued vt) \<or>
     (has_quorum tw (threshold_ratio vt) bs \<and> res = None \<and> queued vt' = insert e (queued vt) \<and>
        last_voting_executed_epoch vt + submission_period vt \<noteq> e) \<or>
     (has_quorum tw (threshold_ratio vt) bs \<and> vt' = vt \<and>
        last_voting_executed_epoch vt + submission_period vt = e \<and>
        (\<exists>v' mk. res = Some v' \<and> unique_key v' = Inr mk \<and>
                 threshold tw (threshold_ratio vt) < key_weight bs mk))"
    by (rule submit_vote_outcome) blast
  have "a \<notin> set (voters (rounds e))" using *(3) by (auto simp: *(2) voters_def)
  moreover have "(res \<noteq> None \<longleftrightarrow> has_quorum tw (threshold_ratio vt) bs \<and>
         last_voting_executed_epoch vt + submission_period vt = e) \<and>
      (\<forall>v' \<in> set_option res. \<exists>mk. unique_key v' = Inr mk \<and>
         threshold tw (threshold_ratio vt) < key_weight bs mk) \<and>
      queued vt' = (if has_quorum tw (threshold_ratio vt) bs \<and>
           last_voting_executed_epoch vt + submission_period vt \<noteq> e
         then insert e (queued vt) else queued vt)"
    using *(6) by (elim disjE conjE exE) simp_all
  ultimately show ?thesis
    using *(1,4,5) unfolding Let_def *(2) by (intro conjI exI [of _ k]) simp_all
qed

lemmas voting_eval = new_voting_def new_voting_with_ratio_def DEFAULT_THRESHOLD_RATIO_def
  submit_vote_def epoch_can_vote_def is_epoch_executed_def i64_check_def i64_sub_def i64_add_def
  i64_rem_def i64_range_def submit_def new_submissions_def update_submitters_def insert_vote_def
  update_submission_weight_def derive_execution_status_def load_most_voted_submission_def
  get_submission_def Let_def div_floor_def

theorem vote_answer_needs_quorum_witness:
  "\<exists>vt'. submit_vote (\<lambda>v. Inr [of_nat v]) 7 10 1 3 4 (new_voting 0 10 :: (nat, nat) voting) = Inr (Some 7, vt') \<and>
     queued vt' = queued (new_voting 0 10 :: (nat, nat) voting)"
proof -
  let ?uk = "\<lambda>v::nat. Inr [of_nat v] :: unique_bytes_key res"
  let ?vt = "new_voting 0 10 :: (nat, nat) voting"
  have sub: "\<exists>vt'. submit_vote ?uk 7 10 1 3 4 ?vt = Inr (Some 7, vt')"
    by (simp add: voting_eval)
  have inv: "voting_inv ?uk 4 (\<lambda>_. []) ?vt"
    unfolding new_voting_def by (rule voting_inv_new) (simp_all add: DEFAULT_THRESHOLD_RATIO_def)
  from sub obtain vt' where "submit_vote ?uk 7 10 1 3 4 ?vt = Inr (Some 7, vt')" by blast
  with vote_answer_needs_quorum [OF inv _ this] show ?thesis
    by (metis option.distinct(1) zero_le_numeral)
qed

text \<open>
  C20: Whatever votes are cast and aborted in between, and whatever the weights of the voters become,
  the epochs a voting marks executed are the consecutive multiples of its period after the last
  executed one, each exactly once and in order.
\<close>

theorem epochs_executed_in_order:
  assumes "run (voting_step unique_key) vt evs vt'"
  shows "List.map_filter executed_epoch evs =
      map (\<lambda>i. last_voting_executed_epoch vt + int (Suc i) * submission_period vt)
        [0..<length (List.map_filter executed_epoch evs)]"
  using voter.run_executes [OF assms] by blast

theorem epochs_executed_in_order_witness:
  "\<exists>vt'. run (voting_step Inr) (new_voting 0 10 :: (nat, raw_bytes) voting)
       [EpochExecuted 10, EpochAborted 30, EpochExecuted 20] vt' \<and>
     [10, 20] = map (\<lambda>i. 0 + int (Suc i) * 10) [0..<2]"
proof -
  let ?evs = "[EpochExecuted 10, EpochAborted 30, EpochExecuted 20] :: (nat, raw_bytes) voting_event list"
  obtain vt' where "run (voting_step Inr) (new_voting 0 10) ?evs vt'"
    unfolding fold_apply_event
    by (simp add: voting_eval mark_epoch_executed_def is_next_executable_epoch_def
        remove_epoch_from_queue_def abort_epoch_def)
  with epochs_executed_in_order [OF this] show ?thesis
    by (auto simp: List.map_filter_def new_voting_def new_voting_with_ratio_def numeral_2_eq_2)
qed

text \<open>
  C19: While the total weight of the voters stays what it is (and no weight is negative), a voting
  is never stuck and never panics: after any history the next queued vote can be asked for, what is
  answered has a key above the threshold in the ballots of its epoch, and the next epoch of the grid
  can be marked executed.
\<close>

theorem steady_voting_never_stuck:
  assumes "run (voting_step unique_key) (new_voting_with_ratio genesis period num den) evs vt"
    and "list_all (steady tw) evs" and "0 < period" and "den \<noteq> 0"
    and "i64_range (last_voting_executed_epoch vt + period)"
  shows "(\<exists>res. get_next_executable_vote vt = Inr res \<and>
            (res \<noteq> None \<longleftrightarrow> last_voting_executed_epoch vt + period \<in> queued vt)) \<and>
    (\<exists>vt'. mark_epoch_executed (last_voting_executed_epoch vt + period) vt = Inr vt')"
proof -
  have p: "submission_period vt = period"
    using voter.run_period [OF assms(1)] by (simp add: new_voting_with_ratio_def)
  obtain rounds where inv: "voting_inv unique_key tw rounds vt"
    using voting_run_inv [OF assms(1,2) voting_inv_new [OF assms(3,4)]] by blast
  show ?thesis
    using get_next_executable_vote_inv [OF inv] mark_next_epoch [OF inv] assms(5)
    by (fastforce simp: p)
qed

theorem steady_voting_never_stuck_witness:
  "\<exists>vt res vt'. fold_res (apply_event Inr)
      [VoteCast 20 1 2 [65] 2, VoteCast 10 1 1 [66] 2, EpochExecuted 10] (new_voting_with_ratio 0 10 2 3) = Inr vt \<and>
    get_next_executable_vote (vt :: (nat, raw_bytes) voting) = Inr res \<and>
    mark_epoch_executed 20 vt = Inr vt'"
proof -
  let ?evs = "[VoteCast 20 1 2 [65] 2, VoteCast 10 1 1 [66] 2, EpochExecuted 10] :: (nat, raw_bytes) voting_event list"
  let ?r = "fold_res (apply_event Inr) ?evs (new_voting_with_ratio 0 10 2 3)"
  have "case ?r of Inl _ \<Rightarrow> False | Inr vt \<Rightarrow> last_voting_executed_epoch vt = 10"
    by (simp add: voting_eval set_round_def insert_executable_epoch_def mark_epoch_executed_def
        is_next_executable_epoch_def remove_epoch_from_queue_def)
  then obtain vt where vt: "?r = Inr vt" "last_voting_executed_epoch vt = 10"
    by (auto split: sum.splits)
  then have "run (voting_step Inr) (new_voting_with_ratio 0 10 2 3) ?evs vt"
    by (simp add: fold_apply_event)
  from steady_voting_never_stuck [OF this, of 2] vt show ?thesis
    by (auto simp: steady_def i64_range_def)
qed


text \<open>
  Storing and loading a voting gives it back, with its queue absent exactly when it is empty; the
  operations keep the queue in that form.
\<close>

theorem voting_storage_roundtrip:
  "deserialize_voting (serialize_voting vt) = vt \<longleftrightarrow>
     executable_epoch_queue vt \<noteq> Some {} \<and> finite (queued vt)"
proof (cases "executable_epoch_queue vt")
  case None
  then show ?thesis
    by (cases vt) (simp add: deserialize_voting_def serialize_voting_def queued_def)
next
  case (Some q)
  have "sorted_list_of_set q \<noteq> [] \<and> set (sorted_list_of_set q) = q \<longleftrightarrow> q \<noteq> {} \<and> finite q"
    by (cases "finite q") auto
  with Some show ?thesis
    by (cases vt) (auto simp: deserialize_voting_def serialize_voting_def queued_def)
qed

end
