(* ===== verification/Gateway_State.thy ===== *)
theory Gateway_State
  imports Checkpoint Voting
begin

text \<open>
  The state of the gateway actor and its helpers (\<open>gateway/src/{state,subnet,types}.rs\<close>). The HAMTs
  and AMTs of the state are maps; the HAMT of subnets is keyed by the CBOR form of the subnet id,
  which determines the id.
\<close>

section \<open>Code outside the repository\<close>

text \<open>
  What the gateway takes from the crates it is linked with: hashes, address functions of the runtime
  library, the FRC-42 method numbers, the singleton actors and the address parser.
\<close>

record 'a postbox_item =
  item_msg :: "'a cross_msg"
  item_owners :: "'a list option"

record ('a, 'c) externs =
  check_hash :: "('a, 'c) check_form \<Rightarrow> 'c"
  genesis_cid :: 'c
  postbox_cid :: "'a postbox_item \<Rightarrow> 'c"
  cid_bytes :: "'c \<Rightarrow> raw_bytes"
  topdown_digest :: "'a topdown_checkpoint \<Rightarrow> raw_bytes"
  new_id :: "u64 \<Rightarrow> 'a"
  protocol_of :: "'a \<Rightarrow> protocol"
  resolve_secp_bls :: "'a \<Rightarrow> 'a res"
  equal_account_id :: "'a \<Rightarrow> 'a \<Rightarrow> bool"
  parse_address :: "string \<Rightarrow> 'a option"
  method_hash :: "string \<Rightarrow> u64"
  INIT_ACTOR_ADDR :: 'a
  SYSTEM_ACTOR_ADDR :: 'a
  BURNT_FUNDS_ACTOR_ADDR :: 'a

section \<open>Subnets\<close>

datatype status = Active | Inactive | Killed

record ('a, 'c) subnet =
  sub_id :: "'a subnet_id"
  stake :: token_amount
  topdown_msgs :: "u64 \<rightharpoonup> 'a cross_msg"
  topdown_nonce :: u64
  circ_supply :: token_amount
  sub_status :: status
  prev_checkpoint :: "('a, 'c) bottom_up_checkpoint option"
  applied_bottomup_nonce :: u64
  sub_genesis_epoch :: chain_epoch

definition store_topdown_msg :: "'a cross_msg \<Rightarrow> ('a, 'c) subnet \<Rightarrow> ('a, 'c) subnet" where
  "store_topdown_msg cm sub =
     sub\<lparr>topdown_msgs := (topdown_msgs sub)(msg_nonce (msg cm) \<mapsto> cm)\<rparr>"

definition release_supply :: "token_amount \<Rightarrow> ('a, 'c) subnet \<Rightarrow> ('a, 'c) subnet res" where
  "release_supply v sub =
     (if circ_supply sub < v then Inl Anyhow
      else Inr (sub\<lparr>circ_supply := circ_supply sub - v\<rparr>))"

section \<open>The state\<close>

record ('a, 'c) gateway =
  network_name :: "'a subnet_id"
  total_subnets :: u64
  min_stake :: token_amount
  subnets :: "'a subnet_id \<rightharpoonup> ('a, 'c) subnet"
  bottomup_check_period :: chain_epoch
  topdown_check_period :: chain_epoch
  bottomup_checkpoints :: "chain_epoch \<rightharpoonup> ('a, 'c) bottom_up_checkpoint"
  postbox :: "'c \<rightharpoonup> 'a postbox_item"
  bottomup_nonce :: u64
  applied_topdown_nonce :: u64
  topdown_checkpoint_voting :: "('a, 'a topdown_checkpoint) voting"
  members :: "'a membership"
  initialized :: bool

definition DEFAULT_CHECKPOINT_PERIOD :: chain_epoch where
  "DEFAULT_CHECKPOINT_PERIOD = 10"

definition MIN_COLLATERAL_AMOUNT :: int where
  "MIN_COLLATERAL_AMOUNT = 10 ^ 18"

record constructor_params =
  cp_network_name :: string
  cp_bottomup_check_period :: chain_epoch
  cp_topdown_check_period :: chain_epoch

text \<open>
  The first voting gets the period as it was passed, not the one raised to the default; the voting is
  replaced when the gateway is initialized.
\<close>

definition new_gateway :: "('a, 'c) externs \<Rightarrow> constructor_params \<Rightarrow> ('a, 'c) gateway res" where
  "new_gateway ext params =
     (case subnet_from_str (parse_address ext) (cp_network_name params) of
        Inl SdkPanic \<Rightarrow> Inl Panic
      | Inl _ \<Rightarrow> Inl Anyhow
      | Inr net \<Rightarrow> Inr
          \<lparr>network_name = net,
           total_subnets = 0,
           min_stake = MIN_COLLATERAL_AMOUNT,
           subnets = Map.empty,
           bottomup_check_period =
             (if cp_bottomup_check_period params > DEFAULT_CHECKPOINT_PERIOD
              then cp_bottomup_check_period params else DEFAULT_CHECKPOINT_PERIOD),
           topdown_check_period =
             (if cp_topdown_check_period params > DEFAULT_CHECKPOINT_PERIOD
              then cp_topdown_check_period params else DEFAULT_CHECKPOINT_PERIOD),
           bottomup_checkpoints = Map.empty,
           postbox = Map.empty,
           bottomup_nonce = 0,
           applied_topdown_nonce = 0,
           topdown_checkpoint_voting = new_voting 0 (cp_topdown_check_period params),
           members = new_membership empty_validator_set,
           initialized = False\<rparr>)"

definition init_gateway :: "chain_epoch \<Rightarrow> ('a, 'c) gateway \<Rightarrow> ('a, 'c) gateway" where
  "init_gateway genesis st =
     st\<lparr>topdown_checkpoint_voting := new_voting genesis (topdown_check_period st),
        initialized := True\<rparr>"

definition require_initialized :: "('a, 'c) gateway \<Rightarrow> unit res" where
  "require_initialized st = (if initialized st then Inr () else Inl (ActorError USR_ILLEGAL_STATE))"

section \<open>The table of subnets\<close>

definition get_subnet ::
    "('a \<Rightarrow> 'a option) \<Rightarrow> 'a subnet_id \<Rightarrow> ('a, 'c) gateway \<Rightarrow> ('a, 'c) subnet option" where
  "get_subnet resolve net st = subnets st (f0_id resolve net)"

definition set_subnet ::
    "'a subnet_id \<Rightarrow> ('a, 'c) subnet \<Rightarrow> ('a, 'c) gateway \<Rightarrow> ('a, 'c) gateway" where
  "set_subnet net sub st = st\<lparr>subnets := (subnets st)(net \<mapsto> sub)\<rparr>"

definition flush_subnet :: "('a, 'c) subnet \<Rightarrow> ('a, 'c) gateway \<Rightarrow> ('a, 'c) gateway" where
  "flush_subnet sub st = set_subnet (sub_id sub) sub st"

definition fresh_subnet :: "('a, 'm) msg_env_scheme \<Rightarrow> 'a subnet_id \<Rightarrow> ('a, 'c) subnet" where
  "fresh_subnet env net =
     \<lparr>sub_id = net, stake = value_received env, topdown_msgs = Map.empty, topdown_nonce = 0,
      circ_supply = 0, sub_status = Active, prev_checkpoint = None, applied_bottomup_nonce = 0,
      sub_genesis_epoch = curr_epoch env\<rparr>"

definition register_subnet ::
    "('a, 'm) msg_env_scheme \<Rightarrow> 'a subnet_id \<Rightarrow> ('a, 'c) gateway \<Rightarrow> ('a, 'c) gateway res" where
  "register_subnet env net st =
     (if value_received env < min_stake st then Inl Anyhow
      else if subnets st net \<noteq> None then Inr st
      else and_then (u64_incr (total_subnets st)) (\<lambda>n.
             Inr ((set_subnet net (fresh_subnet env net) st)\<lparr>total_subnets := n\<rparr>)))"

definition delete_subnet :: "'a subnet_id \<Rightarrow> ('a, 'c) gateway \<Rightarrow> ('a, 'c) gateway" where
  "delete_subnet net st = st\<lparr>subnets := (subnets st)(net := None)\<rparr>"

definition rm_subnet :: "'a subnet_id \<Rightarrow> ('a, 'c) gateway \<Rightarrow> ('a, 'c) gateway res" where
  "rm_subnet net st =
     (if subnets st net = None then Inr st
      else and_then (u64_decr (total_subnets st)) (\<lambda>n.
             Inr ((delete_subnet net st)\<lparr>total_subnets := n\<rparr>)))"

definition add_stake_to ::
    "token_amount \<Rightarrow> ('a, 'c) subnet \<Rightarrow> ('a, 'c) gateway \<Rightarrow> ('a, 'c) gateway" where
  "add_stake_to v sub st =
     (let sub1 = sub\<lparr>stake := stake sub + v\<rparr>;
          sub2 = sub1\<lparr>sub_status := (if stake sub1 < min_stake st then Inactive else Active)\<rparr>
      in flush_subnet sub2 st)"

definition increase_applied_bottomup ::
    "('a, 'c) subnet \<Rightarrow> ('a, 'c) gateway \<Rightarrow> ('a, 'c) gateway res" where
  "increase_applied_bottomup sub st =
     and_then (u64_incr (applied_bottomup_nonce sub)) (\<lambda>n.
       Inr (flush_subnet (sub\<lparr>applied_bottomup_nonce := n\<rparr>) st))"

section \<open>Checkpoints of the current window\<close>

definition flush_checkpoint ::
    "('a, 'c) bottom_up_checkpoint \<Rightarrow> ('a, 'c) gateway \<Rightarrow> ('a, 'c) gateway" where
  "flush_checkpoint ch st =
     st\<lparr>bottomup_checkpoints := (bottomup_checkpoints st)(check_epoch (check_content ch) \<mapsto> ch)\<rparr>"

definition get_window_checkpoint ::
    "('a, 'c) externs \<Rightarrow> chain_epoch \<Rightarrow> ('a, 'c) gateway \<Rightarrow> ('a, 'c) bottom_up_checkpoint res" where
  "get_window_checkpoint ext e st =
     (if e < 0 then Inl Anyhow
      else and_then (window_epoch e (bottomup_check_period st)) (\<lambda>ch_epoch.
        Inr (case bottomup_checkpoints st ch_epoch of
               Some ch \<Rightarrow> ch
             | None \<Rightarrow> new_checkpoint (genesis_cid ext) (network_name st) ch_epoch)))"

definition set_nonce :: "u64 \<Rightarrow> 'a cross_msg \<Rightarrow> 'a cross_msg" where
  "set_nonce n cm = cm\<lparr>msg := (msg cm)\<lparr>msg_nonce := n\<rparr>\<rparr>"

definition store_msg_in_checkpoint ::
    "('a, 'c) externs \<Rightarrow> 'a cross_msg \<Rightarrow> chain_epoch \<Rightarrow> token_amount \<Rightarrow> ('a, 'c) gateway \<Rightarrow>
     ('a, 'c) gateway res" where
  "store_msg_in_checkpoint ext cm e fee st =
     and_then (get_window_checkpoint ext e st) (\<lambda>ch.
       let ch' = push_cross_msgs (set_nonce (bottomup_nonce st) cm) fee ch
       in and_then (u64_incr (bottomup_nonce st)) (\<lambda>n.
            Inr (flush_checkpoint ch' (st\<lparr>bottomup_nonce := n\<rparr>))))"

definition commit_bottomup_msg ::
    "('a, 'c) externs \<Rightarrow> 'a cross_msg \<Rightarrow> chain_epoch \<Rightarrow> token_amount \<Rightarrow> ('a, 'c) gateway \<Rightarrow>
     ('a, 'c) gateway res" where
  "commit_bottomup_msg ext cm e fee st = store_msg_in_checkpoint ext cm e fee st"

section \<open>Top-down messages\<close>

text \<open>The message is returned as well, since the code gives it its nonce in place.\<close>

definition commit_topdown_msg ::
    "('a \<Rightarrow> 'a option) \<Rightarrow> 'a cross_msg \<Rightarrow> ('a, 'c) gateway \<Rightarrow>
     ('a cross_msg \<times> ('a, 'c) gateway) res" where
  "commit_topdown_msg resolve cm st =
     (case down (subnet_of (msg_to (msg cm))) (network_name st) of
        None \<Rightarrow> Inl Anyhow
      | Some next \<Rightarrow>
          (case get_subnet resolve next st of
             None \<Rightarrow> Inl Anyhow
           | Some sub \<Rightarrow>
               let cm' = set_nonce (topdown_nonce sub) cm;
                   sub1 = store_topdown_msg cm' sub
               in and_then (u64_incr (topdown_nonce sub1)) (\<lambda>n.
                    let sub2 = sub1\<lparr>topdown_nonce := n,
                                    circ_supply := circ_supply sub1 + msg_value (msg cm')\<rparr>
                    in Inr (cm', flush_subnet sub2 st))))"

definition get_topdown_msg :: "(u64 \<rightharpoonup> 'a cross_msg) \<Rightarrow> u64 \<Rightarrow> 'a storable_msg option" where
  "get_topdown_msg msgs n = map_option msg (msgs n)"

section \<open>The postbox\<close>

definition put_postbox :: "('a, 'c) externs \<Rightarrow> 'a postbox_item \<Rightarrow> ('a, 'c) gateway \<Rightarrow> ('a, 'c) gateway" where
  "put_postbox ext item st = st\<lparr>postbox := (postbox st)(postbox_cid ext item \<mapsto> item)\<rparr>"

definition remove_from_postbox :: "'c \<Rightarrow> ('a, 'c) gateway \<Rightarrow> ('a, 'c) gateway" where
  "remove_from_postbox cid st = st\<lparr>postbox := (postbox st)(cid := None)\<rparr>"

definition insert_postbox ::
    "('a, 'c) externs \<Rightarrow> 'a list option \<Rightarrow> 'a cross_msg \<Rightarrow> ('a, 'c) gateway \<Rightarrow> 'c \<times> ('a, 'c) gateway" where
  "insert_postbox ext owners cm st =
     (let item = \<lparr>item_msg = cm, item_owners = owners\<rparr>
      in (postbox_cid ext item, put_postbox ext item st))"

definition load_from_postbox :: "'c \<Rightarrow> ('a, 'c) gateway \<Rightarrow> 'a postbox_item res" where
  "load_from_postbox cid st = ok_or Anyhow (postbox st cid)"

definition swap_postbox_item ::
    "('a, 'c) externs \<Rightarrow> 'c \<Rightarrow> 'a postbox_item \<Rightarrow> ('a, 'c) gateway \<Rightarrow> ('a, 'c) gateway res" where
  "swap_postbox_item ext cid item st =
     (if postbox st cid = None then Inl Anyhow
      else Inr (put_postbox ext item (remove_from_postbox cid st)))"

section \<open>Fees, membership, addresses\<close>

definition collect_cross_fee :: "token_amount \<Rightarrow> token_amount \<Rightarrow> token_amount res" where
  "collect_cross_fee balance fee =
     (if balance < fee then Inl (ActorError USR_ILLEGAL_STATE) else Inr (balance - fee))"

definition set_members :: "'a validator_set \<Rightarrow> ('a, 'c) gateway \<Rightarrow> ('a, 'c) gateway" where
  "set_members vs st = st\<lparr>members := new_membership vs\<rparr>"

definition resolved_from_to :: "('a, 'c) externs \<Rightarrow> 'a \<Rightarrow> 'a \<Rightarrow> ('a \<times> 'a) res" where
  "resolved_from_to ext a b =
     (if protocol_of ext b \<noteq> Delegated
      then and_then (resolve_secp_bls ext b) (\<lambda>to_sig.
             if \<not> equal_account_id ext a b
             then and_then (resolve_secp_bls ext a) (\<lambda>from_sig. Inr (from_sig, to_sig))
             else Inr (to_sig, to_sig))
      else if protocol_of ext a \<noteq> Delegated
      then and_then (resolve_secp_bls ext a) (\<lambda>from_sig. Inr (from_sig, b))
      else Inr (a, b))"

section \<open>The tables of the state as stores\<close>

lemma set_subnet_simps [simp]:
  "subnets (set_subnet net sub st) = (subnets st)(net \<mapsto> sub)"
  "network_name (set_subnet net sub st) = network_name st"
  "total_subnets (set_subnet net sub st) = total_subnets st"
  "min_stake (set_subnet net sub st) = min_stake st"
  "bottomup_check_period (set_subnet net sub st) = bottomup_check_period st"
  "topdown_check_period (set_subnet net sub st) = topdown_check_period st"
  "bottomup_checkpoints (set_subnet net sub st) = bottomup_checkpoints st"
  "postbox (set_subnet net sub st) = postbox st"
  "bottomup_nonce (set_subnet net sub st) = bottomup_nonce st"
  "applied_topdown_nonce (set_subnet net sub st) = applied_topdown_nonce st"
  "topdown_checkpoint_voting (set_subnet net sub st) = topdown_checkpoint_voting st"
  "members (set_subnet net sub st) = members st"
  "initialized (set_subnet net sub st) = initialized st"
  by (simp_all add: set_subnet_def)

lemma delete_subnet_simps [simp]:
  "subnets (delete_subnet net st) = (subnets st)(net := None)"
  "network_name (delete_subnet net st) = network_name st"
  "min_stake (delete_subnet net st) = min_stake st"
  by (simp_all add: delete_subnet_def)

interpretation subnet_table: deletable_store subnets flush_subnet sub_id delete_subnet
  by unfold_locales (simp_all add: flush_subnet_def)

interpretation check_table: keyed_store bottomup_checkpoints flush_checkpoint
  "\<lambda>ch. check_epoch (check_content ch)"
  by unfold_locales (simp add: flush_checkpoint_def)

interpretation postbox_table: deletable_store postbox "put_postbox ext" "postbox_cid ext"
  remove_from_postbox
  by unfold_locales (simp_all add: put_postbox_def remove_from_postbox_def)

end
