(* ===== verification/Gateway.thy ===== *)
theory Gateway
  imports Gateway_State
begin

text \<open>
  The handlers of the gateway actor (\<open>gateway/src/lib.rs\<close>) and the side effects of a cross-net message
  (\<open>gateway/src/cross.rs\<close>). A handler takes the functions of the linked crates, the sender of the
  runtime, the message environment, its parameters and the world, and returns its result and the new
  world or an error, on which the message is rolled back.
\<close>

section \<open>Messages the gateway sends\<close>

text \<open>\<open>RawParams\<close> stands for the conversion \<open>RawBytes.into()\<close>, \<open>ApplyMsg\<close> for the CBOR of a wrapped message.\<close>

datatype 'a payload =
    NoParams
  | RawParams raw_bytes
  | ApplyMsg "'a cross_msg"

type_synonym ('a, 'c, 'x) gw_world = "(('a, 'c) gateway, 'x) world"

type_synonym ('a, 'c, 'x) gw_sender = "('a, 'a payload, ('a, 'c) gateway, 'x) sender"

definition CROSS_MSG_FEE :: token_amount where
  "CROSS_MSG_FEE = from_nano 100"

definition INITIAL_VALIDATOR_FUNDS :: token_amount where
  "INITIAL_VALIDATOR_FUNDS = from_whole 1"

definition SUBNET_ACTOR_REWARD_METHOD :: "('a, 'c) externs \<Rightarrow> u64" where
  "SUBNET_ACTOR_REWARD_METHOD ext = method_hash ext ''Reward''"

text \<open>\<open>rt.send(..)?\<close> of a plain value, with the answer dropped.\<close>

definition send_value ::
    "('a, 'c, 'x) gw_sender \<Rightarrow> 'a \<Rightarrow> u64 \<Rightarrow> token_amount \<Rightarrow> ('a, 'c, 'x) gw_world \<Rightarrow> ('a, 'c, 'x) gw_world res" where
  "send_value sender to_addr m v w =
     and_then (sender \<lparr>sr_to = to_addr, sr_method = m, sr_params = NoParams, sr_value = v\<rparr> w)
       (\<lambda>(_, w'). Inr w')"

definition cross_msg_send ::
    "('a, 'c, 'x) gw_sender \<Rightarrow> 'a cross_msg \<Rightarrow> 'a \<Rightarrow> ('a, 'c, 'x) gw_world \<Rightarrow>
     (raw_bytes \<times> ('a, 'c, 'x) gw_world) res" where
  "cross_msg_send sender cm rto w =
     and_then
       (if \<not> wrapped cm
        then sender \<lparr>sr_to = rto, sr_method = msg_method (msg cm),
                     sr_params = RawParams (msg_params (msg cm)), sr_value = msg_value (msg cm)\<rparr> w
        else sender \<lparr>sr_to = rto, sr_method = msg_method (msg cm),
                     sr_params = ApplyMsg cm, sr_value = msg_value (msg cm)\<rparr> w)
       (\<lambda>(blk, w'). Inr (case blk of Some b \<Rightarrow> b | None \<Rightarrow> [], w'))"

definition burn_bu_funds ::
    "('a, 'c) externs \<Rightarrow> ('a, 'c, 'x) gw_sender \<Rightarrow> token_amount \<Rightarrow> ('a, 'c, 'x) gw_world \<Rightarrow>
     ('a, 'c, 'x) gw_world res" where
  "burn_bu_funds ext sender v w = send_value sender (BURNT_FUNDS_ACTOR_ADDR ext) METHOD_SEND v w"

definition distribute_crossmsg_fee ::
    "('a, 'c) externs \<Rightarrow> ('a, 'c, 'x) gw_sender \<Rightarrow> 'a \<Rightarrow> token_amount \<Rightarrow> ('a, 'c, 'x) gw_world \<Rightarrow>
     ('a, 'c, 'x) gw_world res" where
  "distribute_crossmsg_fee ext sender actor fee w =
     (if fee \<noteq> 0 then send_value sender actor (SUBNET_ACTOR_REWARD_METHOD ext) fee w else Inr w)"

definition cross_msg_side_effects ::
    "('a, 'c) externs \<Rightarrow> ('a, 'c, 'x) gw_sender \<Rightarrow> 'a cross_msg \<Rightarrow> bool \<Rightarrow> token_amount \<Rightarrow>
     ('a, 'c, 'x) gw_world \<Rightarrow> ('a, 'c, 'x) gw_world res" where
  "cross_msg_side_effects ext sender cm do_burn top_down_fee w =
     and_then (if do_burn then burn_bu_funds ext sender (msg_value (msg cm)) w else Inr w) (\<lambda>w1.
       if top_down_fee \<noteq> 0
       then and_then (ok_or Panic (down (subnet_of (msg_to (msg cm))) (network_name (wstate w1))))
              (\<lambda>next. distribute_crossmsg_fee ext sender (subnet_actor (new_id ext) next) top_down_fee w1)
       else Inr w1)"

section \<open>Registration and collateral\<close>

definition constructor ::
    "('a, 'c) externs \<Rightarrow> ('a, 'm) msg_env_scheme \<Rightarrow> constructor_params \<Rightarrow> ('a, 'c) gateway res" where
  "constructor ext env params =
     and_then (validate_caller_is (INIT_ACTOR_ADDR ext) env) (\<lambda>_.
     and_then (map_err (downcast_default USR_ILLEGAL_STATE) (new_gateway ext params)) (\<lambda>st.
     Inr (if is_root (network_name st) then init_gateway 0 st else st)))"

definition register ::
    "('a, 'm) msg_env_scheme \<Rightarrow> ('a, 'c, 'x) gw_world \<Rightarrow> ('a subnet_id \<times> ('a, 'c, 'x) gw_world) res" where
  "register env w =
     transaction (\<lambda>st.
       let shid = new_from_parent (network_name st) (caller env)
       in case get_subnet (resolve_address env) shid st of
            Some _ \<Rightarrow> Inl (ActorError USR_ILLEGAL_ARGUMENT)
          | None \<Rightarrow>
              and_then (map_err (downcast_default USR_ILLEGAL_ARGUMENT) (register_subnet env shid st))
                (\<lambda>st'. Inr (shid, st'))) w"

definition add_stake ::
    "('a, 'm) msg_env_scheme \<Rightarrow> ('a, 'c, 'x) gw_world \<Rightarrow> (unit \<times> ('a, 'c, 'x) gw_world) res" where
  "add_stake env w =
     (let val = value_received env
      in if val \<le> 0 then Inl (ActorError USR_ILLEGAL_ARGUMENT)
         else transaction (\<lambda>st.
           let shid = new_from_parent (network_name st) (caller env)
           in case get_subnet (resolve_address env) shid st of
                Some sub \<Rightarrow> Inr ((), add_stake_to val sub st)
              | None \<Rightarrow> Inl (ActorError USR_ILLEGAL_ARGUMENT)) w)"

definition release_stake ::
    "('a, 'c, 'x) gw_sender \<Rightarrow> ('a, 'm) msg_env_scheme \<Rightarrow> token_amount \<Rightarrow> ('a, 'c, 'x) gw_world \<Rightarrow>
     (unit \<times> ('a, 'c, 'x) gw_world) res" where
  "release_stake sender env send_val w =
     (if send_val \<le> 0 then Inl (ActorError USR_ILLEGAL_ARGUMENT)
      else and_then (transaction (\<lambda>st.
        let shid = new_from_parent (network_name st) (caller env)
        in case get_subnet (resolve_address env) shid st of
             Some sub \<Rightarrow>
               if stake sub < send_val then Inl (ActorError USR_ILLEGAL_STATE)
               else if wbalance w < send_val then Inl (ActorError USR_ILLEGAL_STATE)
               else Inr ((), add_stake_to (- send_val) sub st)
           | None \<Rightarrow> Inl (ActorError USR_ILLEGAL_ARGUMENT)) w)
        (\<lambda>(_, w1). and_then (send_value sender (caller env) METHOD_SEND send_val w1) (\<lambda>w2. Inr ((), w2))))"

definition kill ::
    "('a, 'c, 'x) gw_sender \<Rightarrow> ('a, 'm) msg_env_scheme \<Rightarrow> ('a, 'c, 'x) gw_world \<Rightarrow>
     (unit \<times> ('a, 'c, 'x) gw_world) res" where
  "kill sender env w =
     and_then (transaction (\<lambda>st.
        let shid = new_from_parent (network_name st) (caller env)
        in case get_subnet (resolve_address env) shid st of
             Some sub \<Rightarrow>
               if wbalance w < stake sub then Inl (ActorError USR_ILLEGAL_STATE)
               else if 0 < circ_supply sub then Inl (ActorError USR_ILLEGAL_STATE)
               else and_then (map_err (downcast_default USR_ILLEGAL_STATE) (rm_subnet shid st))
                      (\<lambda>st'. Inr (stake sub, st'))
           | None \<Rightarrow> Inl (ActorError USR_ILLEGAL_ARGUMENT)) w)
        (\<lambda>(send_val, w1). and_then (send_value sender (caller env) METHOD_SEND send_val w1)
           (\<lambda>w2. Inr ((), w2)))"

section \<open>Committing a cross-net message\<close>

text \<open>
  The answer holds the burn flag, the top-down fee, the message as the code leaves it, and the state.
\<close>

definition commit_cross_message ::
    "('a, 'c) externs \<Rightarrow> ('a, 'm) msg_env_scheme \<Rightarrow> 'a cross_msg \<Rightarrow> token_amount \<Rightarrow> ('a, 'c) gateway \<Rightarrow>
     ((bool \<times> token_amount \<times> 'a cross_msg) \<times> ('a, 'c) gateway) res" where
  "commit_cross_message ext env cm fee st =
     (let sto = subnet_of (msg_to (msg cm))
      in if sto = network_name st then Inl (ActorError USR_ILLEGAL_STATE)
         else case apply_type (msg cm) (network_name st) of
           BottomUp \<Rightarrow>
             let sfrom = subnet_of (msg_from (msg cm))
             in and_then (ok_or Panic (common_parent sto sfrom)) (\<lambda>(_, nearest_common_parent).
                if nearest_common_parent = network_name st
                then and_then (map_err (downcast_default USR_ILLEGAL_STATE)
                        (commit_topdown_msg (resolve_address env) cm st))
                      (\<lambda>(cm', st'). Inr ((False, fee, cm'), st'))
                else and_then (map_err (downcast_default USR_ILLEGAL_STATE)
                        (commit_bottomup_msg ext cm (curr_epoch env) fee st))
                      (\<lambda>st'. Inr ((0 < msg_value (msg cm), 0, cm), st')))
         | TopDown \<Rightarrow>
             and_then (u64_incr (applied_topdown_nonce st)) (\<lambda>n.
             and_then (map_err (downcast_default USR_ILLEGAL_STATE)
                 (commit_topdown_msg (resolve_address env) cm (st\<lparr>applied_topdown_nonce := n\<rparr>)))
               (\<lambda>(cm', st'). Inr ((False, fee, cm'), st'))))"

section \<open>Applying a cross-net message\<close>

definition apply_bottomup ::
    "('a, 'm) msg_env_scheme \<Rightarrow> 'a subnet_id \<Rightarrow> 'a cross_msg \<Rightarrow> ('a, 'c) gateway \<Rightarrow>
     (unit \<times> ('a, 'c) gateway) res" where
  "apply_bottomup env forwarder cm st =
     (case get_subnet (resolve_address env) forwarder st of
        Some sub \<Rightarrow>
          if applied_bottomup_nonce sub \<noteq> msg_nonce (msg cm) then Inl (ActorError USR_ILLEGAL_STATE)
          else and_then (map_err (replace_error USR_ILLEGAL_ARGUMENT) (increase_applied_bottomup sub st))
                 (\<lambda>st'. Inr ((), st'))
      | None \<Rightarrow> Inl (ActorError USR_ILLEGAL_STATE))"

definition apply_topdown :: "'a cross_msg \<Rightarrow> ('a, 'c) gateway \<Rightarrow> (unit \<times> ('a, 'c) gateway) res" where
  "apply_topdown cm st =
     (if applied_topdown_nonce st \<noteq> msg_nonce (msg cm) then Inl (ActorError USR_ILLEGAL_STATE)
      else and_then (u64_incr (applied_topdown_nonce st)) (\<lambda>n.
             Inr ((), st\<lparr>applied_topdown_nonce := n\<rparr>)))"

definition apply_msg_inner ::
    "('a, 'c) externs \<Rightarrow> ('a, 'c, 'x) gw_sender \<Rightarrow> ('a, 'm) msg_env_scheme \<Rightarrow> 'a subnet_id \<Rightarrow>
     'a cross_msg \<Rightarrow> ('a, 'c, 'x) gw_world \<Rightarrow> (raw_bytes \<times> ('a, 'c, 'x) gw_world) res" where
  "apply_msg_inner ext sender env forwarder cm w =
     (let rto = raw_address (msg_to (msg cm));
          sto = subnet_of (msg_to (msg cm));
          save = and_then
             (transaction (\<lambda>st. Inr (insert_postbox ext (Some [raw_address (msg_from (msg cm))]) cm st)) w)
             (\<lambda>(cid, w'). Inr (cid_bytes ext cid, w'))
      in case apply_type (msg cm) (network_name (wstate w)) of
           BottomUp \<Rightarrow>
             if sto = network_name (wstate w)
             then and_then (transaction (apply_bottomup env forwarder cm) w)
                    (\<lambda>(_, w1). cross_msg_send sender cm rto w1)
             else save
         | TopDown \<Rightarrow>
             if wbalance w < msg_value (msg cm) then Inl (ActorError USR_ILLEGAL_STATE)
             else if sto = network_name (wstate w)
             then and_then (transaction (apply_topdown cm) w)
                    (\<lambda>(_, w1). cross_msg_send sender cm rto w1)
             else save)"

text \<open>The loops that apply the messages of a checkpoint in order, stopping at the first error.\<close>

definition apply_msgs ::
    "('a, 'c) externs \<Rightarrow> ('a, 'c, 'x) gw_sender \<Rightarrow> ('a, 'm) msg_env_scheme \<Rightarrow> 'a subnet_id \<Rightarrow>
     'a cross_msg list \<Rightarrow> ('a, 'c, 'x) gw_world \<Rightarrow> ('a, 'c, 'x) gw_world res" where
  "apply_msgs ext sender env forwarder ms w =
     fold_res (\<lambda>m w. and_then (apply_msg_inner ext sender env forwarder m w) (\<lambda>(_, w'). Inr w')) ms w"

section \<open>Child checkpoints\<close>

definition commit_child_state ::
    "('a, 'c) externs \<Rightarrow> ('a, 'm) msg_env_scheme \<Rightarrow> ('a, 'c) bottom_up_checkpoint \<Rightarrow> ('a, 'c) gateway \<Rightarrow>
     ((token_amount \<times> 'a cross_msg list option) \<times> ('a, 'c) gateway) res" where
  "commit_child_state ext env commit st =
     and_then (require_initialized st) (\<lambda>_.
     let shid = new_from_parent (network_name st) (caller env)
     in case get_subnet (resolve_address env) shid st of
          None \<Rightarrow> Inl (ActorError USR_ILLEGAL_ARGUMENT)
        | Some sub \<Rightarrow>
            if sub_status sub \<noteq> Active then Inl (ActorError USR_ILLEGAL_STATE)
            else
              and_then (map_err (downcast_default USR_ILLEGAL_STATE)
                (get_window_checkpoint ext (curr_epoch env) st)) (\<lambda>ch.
              and_then
                (case prev_checkpoint sub of
                   Some prev \<Rightarrow>
                     if check_epoch (check_content commit) \<le> check_epoch (check_content prev)
                     then Inl (ActorError USR_ILLEGAL_ARGUMENT)
                     else if prev_check (check_content commit) \<noteq> check_cid (check_hash ext) prev
                     then Inl (ActorError USR_ILLEGAL_ARGUMENT)
                     else Inr ()
                 | None \<Rightarrow> Inr ()) (\<lambda>_.
              let fee = total_fee commit; v = total_value commit + fee
              in and_then (map_err (downcast_default USR_ILLEGAL_STATE) (release_supply v sub)) (\<lambda>sub1.
                 and_then (map_err (downcast_default USR_ILLEGAL_ARGUMENT)
                   (add_child_check (check_hash ext) commit ch)) (\<lambda>ch'.
                 let st1 = flush_checkpoint ch' st;
                     sub2 = sub1\<lparr>prev_checkpoint := Some commit\<rparr>
                 in Inr ((fee, checkpoint_msgs commit), flush_subnet sub2 st1))))))"

definition commit_child_check ::
    "('a, 'c) externs \<Rightarrow> ('a, 'c, 'x) gw_sender \<Rightarrow> ('a, 'm) msg_env_scheme \<Rightarrow>
     ('a, 'c) bottom_up_checkpoint \<Rightarrow> ('a, 'c, 'x) gw_world \<Rightarrow> (unit \<times> ('a, 'c, 'x) gw_world) res" where
  "commit_child_check ext sender env commit w =
     and_then (map_err (replace_error USR_ILLEGAL_ARGUMENT) (ensure_cross_msgs_sorted commit)) (\<lambda>_.
     let actor = subnet_actor (new_id ext) (check_source (check_content commit))
     in if caller env \<noteq> actor then Inl (ActorError USR_ILLEGAL_ARGUMENT)
        else and_then (transaction (commit_child_state ext env commit) w) (\<lambda>((fee, cross_msgs), w1).
             and_then
               (case cross_msgs of
                  Some msgs \<Rightarrow> apply_msgs ext sender env (check_source (check_content commit)) msgs w1
                | None \<Rightarrow> Inr w1) (\<lambda>w2.
             and_then (distribute_crossmsg_fee ext sender actor fee w2) (\<lambda>w3. Inr ((), w3)))))"

section \<open>Cross-net messages of users and actors\<close>

record 'a fund_params =
  fund_subnet :: "'a subnet_id"
  fund_to :: 'a

definition fund ::
    "('a, 'c) externs \<Rightarrow> ('a, 'c, 'x) gw_sender \<Rightarrow> ('a, 'm) msg_env_scheme \<Rightarrow> 'a fund_params \<Rightarrow>
     ('a, 'c, 'x) gw_world \<Rightarrow> (unit \<times> ('a, 'c, 'x) gw_world) res" where
  "fund ext sender env params w =
     and_then (validate_caller_signable env) (\<lambda>_.
     let v = value_received env
     in if v \<le> 0 then Inl (ActorError USR_ILLEGAL_ARGUMENT)
        else if \<not> is_valid_account_address (protocol_of ext) (fund_to params)
        then Inl (ActorError USR_ILLEGAL_ARGUMENT)
        else
          and_then (resolved_from_to ext (caller env) (fund_to params)) (\<lambda>(from_sig, to_sig).
          let fee = CROSS_MSG_FEE
          in and_then (transaction (\<lambda>st.
               and_then (collect_cross_fee v fee) (\<lambda>v'.
               and_then (map_err (downcast_default USR_ILLEGAL_STATE)
                 (new_fund_msg (fund_subnet params) from_sig to_sig v')) (\<lambda>m.
               and_then (map_err (downcast_default USR_ILLEGAL_STATE)
                 (commit_topdown_msg (resolve_address env) \<lparr>msg = m, wrapped = False\<rparr> st)) (\<lambda>(cm', st').
               Inr ((), st'))))) w) (\<lambda>(_, w1).
             and_then (distribute_crossmsg_fee ext sender
                 (subnet_actor (new_id ext) (fund_subnet params)) fee w1) (\<lambda>w2. Inr ((), w2)))))"

definition release ::
    "('a, 'c) externs \<Rightarrow> ('a, 'c, 'x) gw_sender \<Rightarrow> ('a, 'm) msg_env_scheme \<Rightarrow> 'a \<Rightarrow>
     ('a, 'c, 'x) gw_world \<Rightarrow> (unit \<times> ('a, 'c, 'x) gw_world) res" where
  "release ext sender env release_to w =
     and_then (validate_caller_signable env) (\<lambda>_.
     let v = value_received env
     in if v \<le> 0 then Inl (ActorError USR_ILLEGAL_ARGUMENT)
        else if \<not> is_valid_account_address (protocol_of ext) release_to
        then Inl (ActorError USR_ILLEGAL_ARGUMENT)
        else
          and_then (resolved_from_to ext (caller env) release_to) (\<lambda>(from_sig, to_sig).
          and_then (transaction (\<lambda>st.
             let fee = CROSS_MSG_FEE
             in and_then (collect_cross_fee v fee) (\<lambda>v'.
                and_then (map_err (downcast_default USR_ILLEGAL_STATE)
                  (new_release_msg (network_name st) from_sig to_sig v')) (\<lambda>m.
                and_then (map_err (downcast_default USR_ILLEGAL_STATE)
                  (commit_bottomup_msg ext \<lparr>msg = m, wrapped = False\<rparr> (curr_epoch env) fee st)) (\<lambda>st'.
                Inr (v', st'))))) w) (\<lambda>(v', w1).
          and_then (burn_bu_funds ext sender v' w1) (\<lambda>w2. Inr ((), w2)))))"

record 'a cross_msg_params =
  params_msg :: "'a cross_msg"
  params_destination :: "'a subnet_id"

definition send_cross ::
    "('a, 'c) externs \<Rightarrow> ('a, 'c, 'x) gw_sender \<Rightarrow> ('a, 'm) msg_env_scheme \<Rightarrow> 'a cross_msg_params \<Rightarrow>
     ('a, 'c, 'x) gw_world \<Rightarrow> (unit \<times> ('a, 'c, 'x) gw_world) res" where
  "send_cross ext sender env params w =
     and_then (validate_caller_not_signable env) (\<lambda>_.
     let destination = params_destination params; cm = params_msg params
     in if destination = UNDEF then Inl (ActorError USR_ILLEGAL_ARGUMENT)
        else
          and_then (transaction (\<lambda>st.
            if destination = network_name st then Inl (ActorError USR_ILLEGAL_ARGUMENT)
            else
              let m = (msg cm)\<lparr>msg_to := new_ipc_address destination (raw_address (msg_to (msg cm))),
                               msg_from := new_ipc_address (network_name st) (caller env)\<rparr>
              in if value_received env \<noteq> msg_value m then Inl (ActorError USR_ILLEGAL_ARGUMENT)
                 else and_then (collect_cross_fee (msg_value m) CROSS_MSG_FEE) (\<lambda>v'.
                        commit_cross_message ext env (cm\<lparr>msg := m\<lparr>msg_value := v'\<rparr>\<rparr>) CROSS_MSG_FEE st)) w)
            (\<lambda>((do_burn, top_down_fee, cm'), w1).
             and_then (cross_msg_side_effects ext sender cm' do_burn top_down_fee w1) (\<lambda>w2.
             Inr ((), w2))))"

section \<open>The postbox\<close>

record ('a, 'c) whitelist_params =
  whitelist_cid :: 'c
  whitelist_to_add :: "'a list"

definition whitelist_propagator ::
    "('a, 'c) externs \<Rightarrow> ('a, 'm) msg_env_scheme \<Rightarrow> ('a, 'c) whitelist_params \<Rightarrow> ('a, 'c, 'x) gw_world \<Rightarrow>
     (unit \<times> ('a, 'c, 'x) gw_world) res" where
  "whitelist_propagator ext env params w =
     transaction (\<lambda>st.
       and_then (map_err (replace_error USR_UNHANDLED_MESSAGE)
         (load_from_postbox (whitelist_cid params) st)) (\<lambda>item.
       case item_owners item of
         None \<Rightarrow> Inl (ActorError USR_ILLEGAL_STATE)
       | Some owners \<Rightarrow>
           if caller env \<notin> set owners then Inl (ActorError USR_ILLEGAL_STATE)
           else and_then (map_err (replace_error USR_UNHANDLED_MESSAGE)
                  (swap_postbox_item ext (whitelist_cid params)
                     (item\<lparr>item_owners := Some (owners @ whitelist_to_add params)\<rparr>) st))
                  (\<lambda>st'. Inr ((), st')))) w"

definition propagate ::
    "('a, 'c) externs \<Rightarrow> ('a, 'c, 'x) gw_sender \<Rightarrow> ('a, 'm) msg_env_scheme \<Rightarrow> 'c \<Rightarrow>
     ('a, 'c, 'x) gw_world \<Rightarrow> (unit \<times> ('a, 'c, 'x) gw_world) res" where
  "propagate ext sender env cid w =
     and_then (transaction (\<lambda>st.
        and_then (map_err (replace_error USR_UNHANDLED_MESSAGE) (load_from_postbox cid st)) (\<lambda>item.
        if (case item_owners item of Some owners \<Rightarrow> caller env \<notin> set owners | None \<Rightarrow> False)
        then Inl (ActorError USR_ILLEGAL_STATE)
        else
          and_then (collect_cross_fee (value_received env) CROSS_MSG_FEE) (\<lambda>v'.
          and_then (commit_cross_message ext env (item_msg item) CROSS_MSG_FEE st)
            (\<lambda>((do_burn, top_down_fee, cm'), st1).
            Inr ((v', do_burn, top_down_fee, cm'), remove_from_postbox cid st1))))) w)
       (\<lambda>((v', do_burn, top_down_fee, cm'), w1).
        and_then (cross_msg_side_effects ext sender cm' do_burn top_down_fee w1) (\<lambda>w2.
        if v' \<noteq> 0
        then and_then (send_value sender (caller env) METHOD_SEND v' w2) (\<lambda>w3. Inr ((), w3))
        else Inr ((), w2)))"

section \<open>Membership and genesis\<close>

definition set_membership ::
    "('a, 'c) externs \<Rightarrow> ('a, 'c, 'x) gw_sender \<Rightarrow> ('a, 'm) msg_env_scheme \<Rightarrow> 'a validator_set \<Rightarrow>
     ('a, 'c, 'x) gw_world \<Rightarrow> (raw_bytes \<times> ('a, 'c, 'x) gw_world) res" where
  "set_membership ext sender env vs w =
     and_then (validate_caller_is (SYSTEM_ACTOR_ADDR ext) env) (\<lambda>_.
     and_then (transaction (\<lambda>st. let st' = set_members vs st in Inr (network_name st', st')) w)
       (\<lambda>(net, w1).
        and_then
          (if curr_epoch env = 1 \<and> \<not> is_root net
           then fold_res (\<lambda>v w. send_value sender (val_addr v) METHOD_SEND INITIAL_VALIDATOR_FUNDS w)
                  (validators vs) w1
           else Inr w1) (\<lambda>w2. Inr ([], w2))))"

definition init_genesis_epoch ::
    "('a, 'c) externs \<Rightarrow> ('a, 'm) msg_env_scheme \<Rightarrow> chain_epoch \<Rightarrow> ('a, 'c, 'x) gw_world \<Rightarrow>
     (raw_bytes \<times> ('a, 'c, 'x) gw_world) res" where
  "init_genesis_epoch ext env genesis w =
     and_then (validate_caller_is (SYSTEM_ACTOR_ADDR ext) env) (\<lambda>_.
     transaction (\<lambda>st.
       if initialized st then Inl (ActorError USR_ILLEGAL_STATE)
       else Inr ([], init_gateway genesis st)) w)"

section \<open>Top-down checkpoints\<close>

definition validate_submitter ::
    "('a, 'm) msg_env_scheme \<Rightarrow> 'a \<Rightarrow> ('a, 'c) gateway \<Rightarrow> token_amount res" where
  "validate_submitter env a st =
     ok_or (ActorError USR_ILLEGAL_ARGUMENT) (get_validator_weight (resolve_address env) a (members st))"

definition execute_next_state :: "('a, 'c) gateway \<Rightarrow> ('a topdown_checkpoint option \<times> ('a, 'c) gateway) res" where
  "execute_next_state st =
     and_then (map_err (replace_error USR_UNHANDLED_MESSAGE)
       (get_next_executable_vote (topdown_checkpoint_voting st))) (\<lambda>cp.
     case cp of
       None \<Rightarrow> Inr (None, st)
     | Some c \<Rightarrow>
         and_then (map_err (replace_error USR_UNHANDLED_MESSAGE)
           (mark_epoch_executed (topdown_epoch c) (topdown_checkpoint_voting st))) (\<lambda>vt.
         Inr (Some c, st\<lparr>topdown_checkpoint_voting := vt\<rparr>)))"

definition execute_next_topdown_epoch ::
    "('a, 'c) externs \<Rightarrow> ('a, 'c, 'x) gw_sender \<Rightarrow> ('a, 'm) msg_env_scheme \<Rightarrow> ('a, 'c, 'x) gw_world \<Rightarrow>
     ('a, 'c, 'x) gw_world res" where
  "execute_next_topdown_epoch ext sender env w =
     and_then (transaction execute_next_state w) (\<lambda>(cp, w1).
       case cp of
         Some c \<Rightarrow> apply_msgs ext sender env UNDEF (top_down_msgs c) w1
       | None \<Rightarrow> Inr w1)"

definition submit_topdown_state ::
    "('a, 'c) externs \<Rightarrow> ('a, 'm) msg_env_scheme \<Rightarrow> 'a topdown_checkpoint \<Rightarrow> ('a, 'c) gateway \<Rightarrow>
     ('a topdown_checkpoint option \<times> ('a, 'c) gateway) res" where
  "submit_topdown_state ext env cp st =
     and_then (require_initialized st) (\<lambda>_.
     and_then (validate_submitter env (caller env) st) (\<lambda>weight.
     and_then (map_err (replace_error USR_UNHANDLED_MESSAGE)
       (submit_vote (topdown_key (topdown_digest ext)) cp (topdown_epoch cp) (caller env) weight
          (total_weight (members st)) (topdown_checkpoint_voting st))) (\<lambda>(ch, vt).
     if ch \<noteq> None
     then and_then (map_err (replace_error USR_UNHANDLED_MESSAGE)
            (mark_epoch_executed (topdown_epoch cp) vt)) (\<lambda>vt'.
          Inr (ch, st\<lparr>topdown_checkpoint_voting := vt'\<rparr>))
     else Inr (ch, st\<lparr>topdown_checkpoint_voting := vt\<rparr>))))"

definition submit_topdown_check ::
    "('a, 'c) externs \<Rightarrow> ('a, 'c, 'x) gw_sender \<Rightarrow> ('a, 'm) msg_env_scheme \<Rightarrow> 'a topdown_checkpoint \<Rightarrow>
     ('a, 'c, 'x) gw_world \<Rightarrow> (raw_bytes \<times> ('a, 'c, 'x) gw_world) res" where
  "submit_topdown_check ext sender env cp w =
     and_then (validate_caller_signable env) (\<lambda>_.
     and_then (transaction (submit_topdown_state ext env cp) w) (\<lambda>(to_execute, w1).
     and_then
       (case to_execute of
          Some c \<Rightarrow>
            and_then (if top_down_msgs c = [] then execute_next_topdown_epoch ext sender env w1 else Inr w1)
              (\<lambda>w2. apply_msgs ext sender env UNDEF (top_down_msgs c) w2)
        | None \<Rightarrow> execute_next_topdown_epoch ext sender env w1) (\<lambda>w3. Inr ([], w3))))"

section \<open>Dispatch\<close>

datatype ('a, 'c) gateway_call =
    Register
  | AddStake
  | ReleaseStake token_amount
  | Kill
  | CommitChildCheckpoint "('a, 'c) bottom_up_checkpoint"
  | Fund "'a fund_params"
  | Release 'a
  | SendCross "'a cross_msg_params"
  | Propagate 'c
  | WhiteListPropagator "('a, 'c) whitelist_params"
  | SubmitTopDownCheckpoint "'a topdown_checkpoint"
  | SetMembership "'a validator_set"
  | InitGenesisEpoch chain_epoch

text \<open>\<open>actor_dispatch!\<close>, with the answers of the methods dropped.\<close>

fun gateway_invoke ::
    "('a, 'c) externs \<Rightarrow> ('a, 'c, 'x) gw_sender \<Rightarrow> ('a, 'm) msg_env_scheme \<Rightarrow> ('a, 'c) gateway_call \<Rightarrow>
     ('a, 'c, 'x) gw_world \<Rightarrow> ('a, 'c, 'x) gw_world res" where
  "gateway_invoke ext sender env Register w = and_then (register env w) (\<lambda>(_, w'). Inr w')"
| "gateway_invoke ext sender env AddStake w = and_then (add_stake env w) (\<lambda>(_, w'). Inr w')"
| "gateway_invoke ext sender env (ReleaseStake v) w = and_then (release_stake sender env v w) (\<lambda>(_, w'). Inr w')"
| "gateway_invoke ext sender env Kill w = and_then (kill sender env w) (\<lambda>(_, w'). Inr w')"
| "gateway_invoke ext sender env (CommitChildCheckpoint c) w =
     and_then (commit_child_check ext sender env c w) (\<lambda>(_, w'). Inr w')"
| "gateway_invoke ext sender env (Fund p) w = and_then (fund ext sender env p w) (\<lambda>(_, w'). Inr w')"
| "gateway_invoke ext sender env (Release a) w = and_then (release ext sender env a w) (\<lambda>(_, w'). Inr w')"
| "gateway_invoke ext sender env (SendCross p) w = and_then (send_cross ext sender env p w) (\<lambda>(_, w'). Inr w')"
| "gateway_invoke ext sender env (Propagate cid) w =
     and_then (propagate ext sender env cid w) (\<lambda>(_, w'). Inr w')"
| "gateway_invoke ext sender env (WhiteListPropagator p) w =
     and_then (whitelist_propagator ext env p w) (\<lambda>(_, w'). Inr w')"
| "gateway_invoke ext sender env (SubmitTopDownCheckpoint cp) w =
     and_then (submit_topdown_check ext sender env cp w) (\<lambda>(_, w'). Inr w')"
| "gateway_invoke ext sender env (SetMembership vs) w =
     and_then (set_membership ext sender env vs w) (\<lambda>(_, w'). Inr w')"
| "gateway_invoke ext sender env (InitGenesisEpoch g) w =
     and_then (init_genesis_epoch ext env g w) (\<lambda>(_, w'). Inr w')"

end
