(* ===== verification/Gateway_Inv.thy ===== *)
theory Gateway_Inv
  imports Gateway
begin

text \<open>
  The invariant of the gateway state and its preservation by every helper of the state and every
  handler of the actor.
\<close>

section \<open>The invariant\<close>

text \<open>
  A registered subnet has no debt in its collateral, its status says whether the collateral is enough,
  and its top-down messages are numbered without gaps from 0 to its next nonce.
\<close>

definition subnet_ok :: "token_amount \<Rightarrow> ('a, 'c) subnet \<Rightarrow> bool" where
  "subnet_ok lim sub \<longleftrightarrow>
     0 \<le> stake sub \<and> sub_status sub = (if stake sub < lim then Inactive else Active) \<and>
     (\<forall>n. topdown_msgs sub n \<noteq> None \<longleftrightarrow> n < topdown_nonce sub) \<and>
     (\<forall>n cm. topdown_msgs sub n = Some cm \<longrightarrow> cross_nonce cm = n)"

text \<open>The table of subnets: children of this network only, counted by \<open>total_subnets\<close>.\<close>

definition subnets_ok :: "('a, 'c) gateway \<Rightarrow> bool" where
  "subnets_ok st \<longleftrightarrow>
     0 \<le> min_stake st \<and> well_keyed subnets sub_id st \<and> finite (dom (subnets st)) \<and>
     unat (total_subnets st) = card (dom (subnets st)) \<and>
     (\<forall>k sub. subnets st k = Some sub \<longrightarrow>
        subnet_ok (min_stake st) sub \<and> parent k = Some (network_name st))"

text \<open>
  A window checkpoint belongs to this network and to its window, its messages are strictly ordered by
  nonces that were given out, and every child has one entry.
\<close>

definition check_ok :: "('a, 'c) gateway \<Rightarrow> ('a, 'c) bottom_up_checkpoint \<Rightarrow> bool" where
  "check_ok st ch \<longleftrightarrow>
     check_source (check_content ch) = network_name st \<and>
     bottomup_check_period st dvd check_epoch (check_content ch) \<and>
     sorted_wrt (<) (map cross_nonce (msgs_of ch)) \<and>
     (\<forall>cm \<in> set (msgs_of ch). cross_nonce cm < bottomup_nonce st) \<and>
     distinct (map child_source (check_children (check_content ch))) \<and> 0 \<le> total_fee ch"

definition checks_ok :: "('a, 'c) gateway \<Rightarrow> bool" where
  "checks_ok st \<longleftrightarrow>
     well_keyed bottomup_checkpoints (\<lambda>ch. check_epoch (check_content ch)) st \<and>
     (\<forall>e ch. bottomup_checkpoints st e = Some ch \<longrightarrow> check_ok st ch)"

definition postbox_ok :: "('a, 'c) externs \<Rightarrow> ('a, 'c) gateway \<Rightarrow> bool" where
  "postbox_ok ext st \<longleftrightarrow>
     well_keyed postbox (postbox_cid ext) st \<and> finite (dom (postbox st)) \<and>
     (\<forall>cid item. postbox st cid = Some item \<longrightarrow> item_owners item \<noteq> None)"

definition gateway_inv :: "('a, 'c) externs \<Rightarrow> ('a, 'c) gateway \<Rightarrow> bool" where
  "gateway_inv ext st \<longleftrightarrow> subnets_ok st \<and> checks_ok st \<and> postbox_ok ext st"

text \<open>The parts only depend on their own fields.\<close>

lemma subnets_ok_cong:
  "subnets st' = subnets st \<Longrightarrow> total_subnets st' = total_subnets st \<Longrightarrow>
   min_stake st' = min_stake st \<Longrightarrow> network_name st' = network_name st \<Longrightarrow>
     subnets_ok st' \<longleftrightarrow> subnets_ok st"
  by (simp add: subnets_ok_def well_keyed_def)

lemma checks_ok_cong:
  "bottomup_checkpoints st' = bottomup_checkpoints st \<Longrightarrow> bottomup_nonce st' = bottomup_nonce st \<Longrightarrow>
   bottomup_check_period st' = bottomup_check_period st \<Longrightarrow> network_name st' = network_name st \<Longrightarrow>
     checks_ok st' \<longleftrightarrow> checks_ok st"
  by (simp add: checks_ok_def check_ok_def well_keyed_def)

lemma postbox_ok_cong: "postbox st' = postbox st \<Longrightarrow> postbox_ok ext st' \<longleftrightarrow> postbox_ok ext st"
  by (simp add: postbox_ok_def well_keyed_def)

lemma gateway_inv_cong:
  assumes "subnets st' = subnets st" "total_subnets st' = total_subnets st"
    "min_stake st' = min_stake st" "network_name st' = network_name st"
    "bottomup_checkpoints st' = bottomup_checkpoints st" "bottomup_nonce st' = bottomup_nonce st"
    "bottomup_check_period st' = bottomup_check_period st" "postbox st' = postbox st"
  shows "gateway_inv ext st' \<longleftrightarrow> gateway_inv ext st"
  using assms subnets_ok_cong [of st' st] checks_ok_cong [of st' st] postbox_ok_cong [of st' st]
  by (simp add: gateway_inv_def)

lemma gateway_inv_simps [simp]:
  "gateway_inv ext (st\<lparr>applied_topdown_nonce := n\<rparr>) \<longleftrightarrow> gateway_inv ext st"
  "gateway_inv ext (st\<lparr>topdown_checkpoint_voting := vt\<rparr>) \<longleftrightarrow> gateway_inv ext st"
  "gateway_inv ext (init_gateway g st) \<longleftrightarrow> gateway_inv ext st"
  "gateway_inv ext (set_members vs st) \<longleftrightarrow> gateway_inv ext st"
  by (rule gateway_inv_cong; simp add: init_gateway_def set_members_def)+

section \<open>The table of subnets\<close>

lemma get_subnet_ok:
  assumes "subnets_ok st" and "get_subnet resolve net st = Some sub"
  shows "subnets st (sub_id sub) = Some sub" and "subnet_ok (min_stake st) sub"
    and "sub_id sub = f0_id resolve net" and "parent (sub_id sub) = Some (network_name st)"
  using assms by (auto simp: get_subnet_def subnets_ok_def well_keyed_def)

lemma flush_subnet_fields [simp]:
  "network_name (flush_subnet sub st) = network_name st"
  "total_subnets (flush_subnet sub st) = total_subnets st"
  "min_stake (flush_subnet sub st) = min_stake st"
  "bottomup_check_period (flush_subnet sub st) = bottomup_check_period st"
  "bottomup_checkpoints (flush_subnet sub st) = bottomup_checkpoints st"
  "postbox (flush_subnet sub st) = postbox st"
  "bottomup_nonce (flush_subnet sub st) = bottomup_nonce st"
  "applied_topdown_nonce (flush_subnet sub st) = applied_topdown_nonce st"
  "topdown_checkpoint_voting (flush_subnet sub st) = topdown_checkpoint_voting st"
  "members (flush_subnet sub st) = members st"
  "initialized (flush_subnet sub st) = initialized st"
  "subnets (flush_subnet sub st) = (subnets st)(sub_id sub \<mapsto> sub)"
  by (simp_all add: flush_subnet_def)

lemma flush_subnet_ok:
  assumes ok: "subnets_ok st" and "subnets st (sub_id sub) = Some old" and "subnet_ok (min_stake st) sub"
  shows "subnets_ok (flush_subnet sub st)"
proof -
  have "card (dom (subnets (flush_subnet sub st))) = card (dom (subnets st))"
    using subnet_table.card_dom_flush [of st sub] ok assms(2) by (simp add: subnets_ok_def)
  then show ?thesis
    using assms subnet_table.well_keyed_flush [of st sub] by (auto simp: subnets_ok_def)
qed

lemma flush_subnet_inv:
  assumes "gateway_inv ext st" and "subnets st (sub_id sub) = Some old" and "subnet_ok (min_stake st) sub"
  shows "gateway_inv ext (flush_subnet sub st)"
  using assms flush_subnet_ok [of st sub old] checks_ok_cong [of "flush_subnet sub st" st]
    postbox_ok_cong [of "flush_subnet sub st" st ext]
  by (simp add: gateway_inv_def)

lemma subnet_ok_changes [simp]:
  "subnet_ok lim (sub\<lparr>applied_bottomup_nonce := n\<rparr>) \<longleftrightarrow> subnet_ok lim sub"
  "subnet_ok lim (sub\<lparr>prev_checkpoint := p\<rparr>) \<longleftrightarrow> subnet_ok lim sub"
  "subnet_ok lim (sub\<lparr>circ_supply := c\<rparr>) \<longleftrightarrow> subnet_ok lim sub"
  by (simp_all add: subnet_ok_def)

lemma register_subnet_Inr:
  assumes "register_subnet env net st = Inr st'" and "subnets st net = None"
  shows "min_stake st \<le> value_received env"
    and "unat (total_subnets st') = Suc (unat (total_subnets st))"
    and "\<exists>n. st' = (flush_subnet (fresh_subnet env net) st)\<lparr>total_subnets := n\<rparr>"
  using assms
  by (auto simp: register_subnet_def flush_subnet_def fresh_subnet_def u64_incr_unat split: if_splits)

lemma fresh_subnet_ok:
  "sub_id (fresh_subnet env net) = net" "stake (fresh_subnet env net) = value_received env"
  "0 \<le> lim \<Longrightarrow> lim \<le> value_received env \<Longrightarrow> subnet_ok lim (fresh_subnet env net)"
  by (simp_all add: fresh_subnet_def subnet_ok_def)

lemma register_subnet_inv:
  fixes st :: "('a, 'c) gateway"
  assumes inv: "gateway_inv ext st" and "subnets st net = None" and "parent net = Some (network_name st)"
    and reg: "register_subnet env net st = Inr st'"
  shows "gateway_inv ext st'"
proof -
  note r = register_subnet_Inr [OF reg assms(2)]
  let ?sub = "fresh_subnet env net :: ('a, 'c) subnet"
  have sub: "sub_id ?sub = net" "subnet_ok (min_stake st) ?sub"
    using r(1) inv by (simp_all add: fresh_subnet_ok gateway_inv_def subnets_ok_def)
  from r(3) obtain n where st': "st' = (flush_subnet ?sub st)\<lparr>total_subnets := n\<rparr>" by blast
  have "unat (total_subnets st') = card (dom (subnets st'))"
    using subnet_table.card_dom_flush [of st ?sub] inv assms(2) sub(1) r(2)
    by (simp add: st' gateway_inv_def subnets_ok_def)
  moreover have "well_keyed subnets sub_id st'"
    using inv sub(1) by (simp add: st' gateway_inv_def subnets_ok_def well_keyed_def)
  ultimately have "subnets_ok st'"
    using inv sub assms(3) by (auto simp: st' gateway_inv_def subnets_ok_def)
  moreover have "checks_ok st'" "postbox_ok ext st'"
    using inv checks_ok_cong [of st' st] postbox_ok_cong [of st' st ext] by (simp_all add: st' gateway_inv_def)
  ultimately show ?thesis by (simp add: gateway_inv_def)
qed

lemma rm_subnet_Inr:
  assumes "rm_subnet net st = Inr st'" and "subnets st net = Some sub"
  shows "Suc (unat (total_subnets st')) = unat (total_subnets st)"
    and "\<exists>n. st' = (delete_subnet net st)\<lparr>total_subnets := n\<rparr>"
  using assms by (auto simp: rm_subnet_def u64_decr_unat)

lemma rm_subnet_inv:
  assumes inv: "gateway_inv ext st" and "subnets st net = Some sub" and rm: "rm_subnet net st = Inr st'"
  shows "gateway_inv ext st'"
proof -
  note r = rm_subnet_Inr [OF rm assms(2)]
  from r(2) obtain n where st': "st' = (delete_subnet net st)\<lparr>total_subnets := n\<rparr>" by blast
  have "card (dom (subnets st)) = Suc (card (dom (subnets (delete_subnet net st))))"
    using inv assms(2) by (intro subnet_table.card_dom_del) (simp_all add: gateway_inv_def subnets_ok_def)
  then have "subnets_ok st'"
    using inv r(1) subnet_table.well_keyed_del [of st net]
    by (auto simp: st' gateway_inv_def subnets_ok_def well_keyed_def split: if_splits)
  moreover have "checks_ok st'" "postbox_ok ext st'"
    using inv checks_ok_cong [of st' st] postbox_ok_cong [of st' st ext]
    by (simp_all add: st' gateway_inv_def delete_subnet_def)
  ultimately show ?thesis by (simp add: gateway_inv_def)
qed

text \<open>A registered subnet can always be removed: the counter is at least 1.\<close>

lemma rm_subnet_ok:
  assumes "subnets_ok st" and "subnets st net = Some sub"
  shows "\<exists>st'. rm_subnet net st = Inr st'"
proof -
  have "card (dom (subnets st)) \<noteq> 0"
    using assms by (auto simp: subnets_ok_def)
  then have "total_subnets st \<noteq> 0"
    using assms(1) by (auto simp: subnets_ok_def)
  then show ?thesis by (simp add: rm_subnet_def u64_decr_def assms(2))
qed

lemma add_stake_to_inv:
  assumes inv: "gateway_inv ext st" and "get_subnet resolve net st = Some sub" and "0 \<le> stake sub + v"
  shows "gateway_inv ext (add_stake_to v sub st)"
proof -
  have s: "subnets_ok st" using inv by (simp add: gateway_inv_def)
  show ?thesis
    unfolding add_stake_to_def Let_def
    by (rule flush_subnet_inv [OF inv])
      (use get_subnet_ok [OF s assms(2)] assms(3) in \<open>simp_all add: subnet_ok_def\<close>)
qed

lemma increase_applied_inv:
  assumes inv: "gateway_inv ext st" and "get_subnet resolve net st = Some sub"
    and "increase_applied_bottomup sub st = Inr st'"
  shows "gateway_inv ext st'"
proof -
  have s: "subnets_ok st" using inv by (simp add: gateway_inv_def)
  obtain n where "st' = flush_subnet (sub\<lparr>applied_bottomup_nonce := n\<rparr>) st"
    using assms(3) by (auto simp: increase_applied_bottomup_def)
  with get_subnet_ok [OF s assms(2)] show ?thesis
    by (auto intro!: flush_subnet_inv [OF inv])
qed

section \<open>Top-down messages\<close>

lemma commit_topdown_msg_Inr:
  assumes "commit_topdown_msg resolve cm st = Inr (cm', st')"
  obtains hop sub n where
    "down (subnet_of (msg_to (msg cm))) (network_name st) = Some hop"
    "get_subnet resolve hop st = Some sub" "u64_incr (topdown_nonce sub) = Inr n"
    "cm' = set_nonce (topdown_nonce sub) cm"
    "st' = flush_subnet (sub\<lparr>topdown_msgs := (topdown_msgs sub)(topdown_nonce sub \<mapsto> cm'),
       topdown_nonce := n, circ_supply := circ_supply sub + msg_value (msg cm)\<rparr>) st"
  using assms
  by (auto simp: commit_topdown_msg_def store_topdown_msg_def set_nonce_def Let_def split: option.splits)

lemma u64_incr_less_iff: "u64_incr n = Inr m \<Longrightarrow> k < m \<longleftrightarrow> k < n \<or> k = n"
  using u64_incr_unat [of n m] by (auto simp: word_less_nat_alt less_Suc_eq word_unat_eq_iff)

lemma cross_nonce_set_nonce [simp]: "cross_nonce (set_nonce n cm) = n"
  by (simp add: cross_nonce_def set_nonce_def)

lemma msg_set_nonce [simp]:
  "msg_value (msg (set_nonce n cm)) = msg_value (msg cm)"
  "msg_to (msg (set_nonce n cm)) = msg_to (msg cm)"
  "msg_from (msg (set_nonce n cm)) = msg_from (msg cm)"
  "wrapped (set_nonce n cm) = wrapped cm"
  by (simp_all add: set_nonce_def)

lemma commit_topdown_msg_inv:
  assumes inv: "gateway_inv ext st" and "commit_topdown_msg resolve cm st = Inr (cm', st')"
  shows "gateway_inv ext st'"
proof -
  have s: "subnets_ok st" using inv by (simp add: gateway_inv_def)
  from assms(2) obtain hop sub n where sub: "get_subnet resolve hop st = Some sub"
    and n: "u64_incr (topdown_nonce sub) = Inr n" and cm': "cm' = set_nonce (topdown_nonce sub) cm"
    and st': "st' = flush_subnet (sub\<lparr>topdown_msgs := (topdown_msgs sub)(topdown_nonce sub \<mapsto> cm'),
       topdown_nonce := n, circ_supply := circ_supply sub + msg_value (msg cm)\<rparr>) st"
    by (rule commit_topdown_msg_Inr)
  show ?thesis
    unfolding st' using get_subnet_ok [OF s sub]
    by (intro flush_subnet_inv [OF inv])
      (auto simp: subnet_ok_def cm' u64_incr_less_iff [OF n])
qed

section \<open>Window checkpoints\<close>

lemma get_window_checkpoint_ok:
  assumes "checks_ok st" and "get_window_checkpoint ext e st = Inr ch"
  shows "check_ok st ch"
proof -
  obtain w where w: "window_epoch e (bottomup_check_period st) = Inr w"
    and ch: "ch = (case bottomup_checkpoints st w of Some ch \<Rightarrow> ch
               | None \<Rightarrow> new_checkpoint (genesis_cid ext) (network_name st) w)"
    using assms(2) by (auto simp: get_window_checkpoint_def split: if_splits)
  have "bottomup_check_period st dvd w"
    using w by (auto simp: window_epoch_def)
  then show ?thesis
    using assms(1) by (auto simp: ch checks_ok_def check_ok_def split: option.split)
qed

lemma flush_checkpoint_fields [simp]:
  "network_name (flush_checkpoint ch st) = network_name st"
  "total_subnets (flush_checkpoint ch st) = total_subnets st"
  "min_stake (flush_checkpoint ch st) = min_stake st"
  "bottomup_check_period (flush_checkpoint ch st) = bottomup_check_period st"
  "subnets (flush_checkpoint ch st) = subnets st"
  "postbox (flush_checkpoint ch st) = postbox st"
  "bottomup_nonce (flush_checkpoint ch st) = bottomup_nonce st"
  "applied_topdown_nonce (flush_checkpoint ch st) = applied_topdown_nonce st"
  "topdown_checkpoint_voting (flush_checkpoint ch st) = topdown_checkpoint_voting st"
  "initialized (flush_checkpoint ch st) = initialized st"
  by (simp_all add: flush_checkpoint_def)

lemma flush_checkpoint_inv:
  assumes inv: "gateway_inv ext st" and "check_ok st ch"
  shows "gateway_inv ext (flush_checkpoint ch st)"
proof -
  have "checks_ok (flush_checkpoint ch st)"
    using assms check_table.well_keyed_flush [of st ch]
    by (auto simp: gateway_inv_def checks_ok_def check_ok_def check_table.look_flush split: if_splits)
  then show ?thesis
    using inv subnets_ok_cong [of "flush_checkpoint ch st" st] postbox_ok_cong [of "flush_checkpoint ch st" st ext]
    by (simp add: gateway_inv_def)
qed

lemma store_msg_in_checkpoint_inv:
  assumes inv: "gateway_inv ext st" and "store_msg_in_checkpoint ext cm e fee st = Inr st'" and "0 \<le> fee"
  shows "gateway_inv ext st'"
proof -
  obtain ch n where ch: "get_window_checkpoint ext e st = Inr ch" and n: "u64_incr (bottomup_nonce st) = Inr n"
    and st': "st' = flush_checkpoint (push_cross_msgs (set_nonce (bottomup_nonce st) cm) fee ch)
                      (st\<lparr>bottomup_nonce := n\<rparr>)"
    using assms(2) by (auto simp: store_msg_in_checkpoint_def Let_def)
  let ?st = "st\<lparr>bottomup_nonce := n\<rparr>"
  have ok: "check_ok st ch"
    using get_window_checkpoint_ok [OF _ ch] inv by (simp add: gateway_inv_def)
  have less: "bottomup_nonce st < n" by (rule u64_incr_less [OF n])
  have "checks_ok ?st"
    using inv less by (fastforce simp: gateway_inv_def checks_ok_def check_ok_def well_keyed_def
        dest: order.strict_trans)
  then have "gateway_inv ext ?st"
    using inv subnets_ok_cong [of ?st st] postbox_ok_cong [of ?st st ext] by (simp add: gateway_inv_def)
  moreover have "check_ok ?st (push_cross_msgs (set_nonce (bottomup_nonce st) cm) fee ch)"
    using ok less assms(3) by (auto simp: check_ok_def sorted_wrt_append dest: order.strict_trans)
  ultimately show ?thesis
    unfolding st' by (rule flush_checkpoint_inv)
qed

section \<open>The postbox\<close>

lemma put_postbox_inv:
  assumes inv: "gateway_inv ext st" and "item_owners item \<noteq> None"
  shows "gateway_inv ext (put_postbox ext item st)"
proof -
  have "postbox_ok ext (put_postbox ext item st)"
    using assms postbox_table.well_keyed_flush [of ext st item]
    by (auto simp: gateway_inv_def postbox_ok_def put_postbox_def split: if_splits)
  then show ?thesis
    using inv subnets_ok_cong [of "put_postbox ext item st" st] checks_ok_cong [of "put_postbox ext item st" st]
    by (simp add: gateway_inv_def put_postbox_def)
qed

lemma remove_from_postbox_inv:
  assumes inv: "gateway_inv ext st"
  shows "gateway_inv ext (remove_from_postbox cid st)"
proof -
  have "postbox_ok ext (remove_from_postbox cid st)"
    using assms postbox_table.well_keyed_del [of ext st cid]
    by (auto simp: gateway_inv_def postbox_ok_def remove_from_postbox_def split: if_splits)
  then show ?thesis
    using inv subnets_ok_cong [of "remove_from_postbox cid st" st]
      checks_ok_cong [of "remove_from_postbox cid st" st]
    by (simp add: gateway_inv_def remove_from_postbox_def)
qed

section \<open>Child checkpoints\<close>

text \<open>Everything an accepted child checkpoint passed, and what it changed.\<close>

lemma commit_child_state_Inr:
  assumes "commit_child_state ext env commit st = Inr ((fee, msgs), st')"
  shows "\<exists>sub ch ch'.
    initialized st \<and>
    get_subnet (resolve_address env) (new_from_parent (network_name st) (caller env)) st = Some sub \<and>
    sub_status sub = Active \<and>
    get_window_checkpoint ext (curr_epoch env) st = Inr ch \<and>
    (\<forall>prev. prev_checkpoint sub = Some prev \<longrightarrow>
       check_epoch (check_content prev) < check_epoch (check_content commit) \<and>
       prev_check (check_content commit) = check_cid (check_hash ext) prev) \<and>
    fee = total_fee commit \<and> msgs = checkpoint_msgs commit \<and>
    total_value commit + total_fee commit \<le> circ_supply sub \<and>
    add_child_check (check_hash ext) commit ch = Inr ch' \<and>
    st' = flush_subnet (sub\<lparr>circ_supply := circ_supply sub - (total_value commit + total_fee commit),
        prev_checkpoint := Some commit\<rparr>) (flush_checkpoint ch' st)"
  using assms
  by (auto simp: commit_child_state_def require_initialized_def release_supply_def Let_def not_less
      split: if_splits option.splits)

lemma add_child_check_ok:
  assumes "check_ok st ch" and "add_child_check hash commit ch = Inr ch'"
  shows "check_ok st ch'"
proof -
  have "distinct (map child_source (check_children (check_content ch')))"
    using assms add_child_cid_Inr by (fastforce simp: add_child_check_def check_ok_def)
  then show ?thesis
    using assms(1) add_child_check_facts [OF assms(2)] by (simp add: check_ok_def)
qed

lemma commit_child_state_inv:
  assumes inv: "gateway_inv ext st" and "commit_child_state ext env commit st = Inr ((fee, msgs), st')"
  shows "gateway_inv ext st'"
proof -
  from commit_child_state_Inr [OF assms(2)] obtain sub ch ch'
    where sub: "get_subnet (resolve_address env) (new_from_parent (network_name st) (caller env)) st = Some sub"
    and ch: "get_window_checkpoint ext (curr_epoch env) st = Inr ch"
    and ch': "add_child_check (check_hash ext) commit ch = Inr ch'"
    and st': "st' = flush_subnet (sub\<lparr>circ_supply := circ_supply sub - (total_value commit + total_fee commit),
        prev_checkpoint := Some commit\<rparr>) (flush_checkpoint ch' st)"
    by blast
  have "check_ok st ch'"
    using get_window_checkpoint_ok [OF _ ch] add_child_check_ok [OF _ ch'] inv by (simp add: gateway_inv_def)
  with inv have inv': "gateway_inv ext (flush_checkpoint ch' st)"
    by (rule flush_checkpoint_inv)
  have s: "subnets_ok st" using inv by (simp add: gateway_inv_def)
  show "gateway_inv ext st'"
    unfolding st' using get_subnet_ok [OF s sub] by (intro flush_subnet_inv [OF inv']) simp_all
qed

section \<open>Cross-net messages\<close>

lemma commit_cross_message_Inr:
  assumes "commit_cross_message ext env cm fee st = Inr ((do_burn, tfee, cm'), st')"
  shows "subnet_of (msg_to (msg cm)) \<noteq> network_name st"
    and "(\<exists>n st1. (st1 = st \<or> st1 = st\<lparr>applied_topdown_nonce := n\<rparr>) \<and> do_burn = False \<and> tfee = fee \<and>
            commit_topdown_msg (resolve_address env) cm st1 = Inr (cm', st')) \<or>
         (do_burn = (0 < msg_value (msg cm)) \<and> tfee = 0 \<and> cm' = cm \<and>
            commit_bottomup_msg ext cm (curr_epoch env) fee st = Inr st')"
  using assms
  by (auto simp: commit_cross_message_def Let_def split: if_splits ipc_msg_type.splits prod.splits)

lemma commit_cross_message_inv:
  assumes "gateway_inv ext st" and "0 \<le> fee"
    and "commit_cross_message ext env cm fee st = Inr ((do_burn, tfee, cm'), st')"
  shows "gateway_inv ext st'"
  using commit_cross_message_Inr(2) [OF assms(3)] assms(1,2)
  by (auto simp: commit_bottomup_msg_def intro: commit_topdown_msg_inv store_msg_in_checkpoint_inv
      dest!: commit_topdown_msg_inv [rotated])

lemma apply_bottomup_inv:
  "apply_bottomup env forwarder cm st = Inr (u, st') \<Longrightarrow> gateway_inv ext st \<Longrightarrow> gateway_inv ext st'"
  by (auto simp: apply_bottomup_def split: option.splits if_splits intro: increase_applied_inv)

lemma apply_topdown_inv:
  "apply_topdown cm st = Inr (u, st') \<Longrightarrow> gateway_inv ext st \<Longrightarrow> gateway_inv ext st'"
  by (auto simp: apply_topdown_def split: if_splits)

section \<open>Sends\<close>

lemma CROSS_MSG_FEE_pos [simp]: "0 < CROSS_MSG_FEE" "0 \<le> CROSS_MSG_FEE" "CROSS_MSG_FEE \<noteq> 0"
  by (simp_all add: CROSS_MSG_FEE_def from_nano_def)

lemma send_value_keeps:
  "send_value sender a m v w = Inr w' \<Longrightarrow> sender_keeps P sender \<Longrightarrow> P (wstate w) \<Longrightarrow> P (wstate w')"
  by (auto simp: send_value_def dest: sender_keepsD)

lemma cross_msg_send_keeps:
  "cross_msg_send sender cm a w = Inr (b, w') \<Longrightarrow> sender_keeps P sender \<Longrightarrow> P (wstate w) \<Longrightarrow> P (wstate w')"
  by (auto simp: cross_msg_send_def dest: sender_keepsD split: if_splits)

lemma distribute_crossmsg_fee_keeps:
  "distribute_crossmsg_fee ext sender a v w = Inr w' \<Longrightarrow> sender_keeps P sender \<Longrightarrow> P (wstate w) \<Longrightarrow>
     P (wstate w')"
  by (auto simp: distribute_crossmsg_fee_def dest: send_value_keeps split: if_splits)

lemma burn_bu_funds_keeps:
  "burn_bu_funds ext sender v w = Inr w' \<Longrightarrow> sender_keeps P sender \<Longrightarrow> P (wstate w) \<Longrightarrow> P (wstate w')"
  by (auto simp: burn_bu_funds_def dest: send_value_keeps)

lemma cross_msg_side_effects_keeps:
  "cross_msg_side_effects ext sender cm b v w = Inr w' \<Longrightarrow> sender_keeps P sender \<Longrightarrow> P (wstate w) \<Longrightarrow>
     P (wstate w')"
  by (auto simp: cross_msg_side_effects_def
      dest!: distribute_crossmsg_fee_keeps [where P = P] burn_bu_funds_keeps [where P = P] split: if_splits)

lemmas sends_keep = send_value_keeps cross_msg_send_keeps distribute_crossmsg_fee_keeps
  burn_bu_funds_keeps cross_msg_side_effects_keeps

section \<open>The handlers keep the invariant\<close>

text \<open>
  The sends may call back into the actor: all that is asked of the sender is that it keeps the
  invariant itself.
\<close>

lemma apply_msg_inner_inv:
  assumes "apply_msg_inner ext sender env forwarder cm w = Inr (b, w')"
    and "sender_keeps (gateway_inv ext) sender" and "gateway_inv ext (wstate w)"
  shows "gateway_inv ext (wstate w')"
proof -
  have save: "gateway_inv ext s"
    if "insert_postbox ext (Some [raw_address (msg_from (msg cm))]) cm (wstate w) = (cid, s)" for cid s
    using that assms(3) by (auto simp: insert_postbox_def Let_def intro!: put_postbox_inv)
  from assms show ?thesis
    unfolding apply_msg_inner_def Let_def
    by (auto split: ipc_msg_type.splits if_splits intro: save
        dest!: cross_msg_send_keeps [where P = "gateway_inv ext"] apply_bottomup_inv apply_topdown_inv)
qed

lemma apply_msgs_inv:
  assumes "apply_msgs ext sender env forwarder ms w = Inr w'"
    and "sender_keeps (gateway_inv ext) sender" and "gateway_inv ext (wstate w)"
  shows "gateway_inv ext (wstate w')"
  by (rule fold_res_invariant [OF _ assms(1) [unfolded apply_msgs_def],
        where P = "\<lambda>w. gateway_inv ext (wstate w)"])
    (use assms(2,3) in \<open>auto dest: apply_msg_inner_inv\<close>)

lemma constructor_inv:
  assumes "constructor ext env params = Inr st"
  shows "gateway_inv ext st"
proof -
  obtain st0 where st0: "new_gateway ext params = Inr st0" and st: "st = st0 \<or> st = init_gateway 0 st0"
    using assms by (auto simp: constructor_def split: if_splits)
  from st0 have "gateway_inv ext st0"
    by (auto simp: new_gateway_def gateway_inv_def subnets_ok_def checks_ok_def postbox_ok_def
        well_keyed_def MIN_COLLATERAL_AMOUNT_def split: sum.splits sdk_error.splits)
  with st show ?thesis by auto
qed

text \<open>The caller of a message is an ID address, which resolves to itself.\<close>

definition caller_is_id :: "('a, 'm) msg_env_scheme \<Rightarrow> bool" where
  "caller_is_id env \<longleftrightarrow> resolve_address env (caller env) = Some (caller env)"

lemma get_own_subnet:
  "caller_is_id env \<Longrightarrow>
     get_subnet (resolve_address env) (new_from_parent net (caller env)) st = subnets st (new_from_parent net (caller env))"
  by (simp add: get_subnet_def caller_is_id_def)

lemma register_inv:
  assumes "register env w = Inr (shid, w')" and "caller_is_id env" and "gateway_inv ext (wstate w)"
  shows "gateway_inv ext (wstate w')"
  using assms by (auto simp: register_def Let_def get_own_subnet split: option.splits intro: register_subnet_inv)

lemma add_stake_inv:
  assumes "add_stake env w = Inr (u, w')" and "gateway_inv ext (wstate w)"
  shows "gateway_inv ext (wstate w')"
proof -
  obtain sub where sub: "get_subnet (resolve_address env) (new_from_parent (network_name (wstate w)) (caller env)) (wstate w) = Some sub"
    and w': "wstate w' = add_stake_to (value_received env) sub (wstate w)" and v: "0 < value_received env"
    using assms(1) by (auto simp: add_stake_def Let_def split: if_splits option.splits)
  have "0 \<le> stake sub"
    using get_subnet_ok(2) [OF _ sub] assms(2) by (simp add: gateway_inv_def subnet_ok_def)
  with v show ?thesis unfolding w' by (intro add_stake_to_inv [OF assms(2) sub]) simp
qed

lemma release_stake_inv:
  assumes "release_stake sender env v w = Inr (u, w')" and "sender_keeps (gateway_inv ext) sender"
    and "gateway_inv ext (wstate w)"
  shows "gateway_inv ext (wstate w')"
proof -
  obtain sub where sub: "get_subnet (resolve_address env) (new_from_parent (network_name (wstate w)) (caller env)) (wstate w) = Some sub"
    and v: "v \<le> stake sub"
    and w': "send_value sender (caller env) METHOD_SEND v (w\<lparr>wstate := add_stake_to (- v) sub (wstate w)\<rparr>) = Inr w'"
    using assms(1) by (auto simp: release_stake_def Let_def not_less split: if_splits option.splits)
  have "gateway_inv ext (add_stake_to (- v) sub (wstate w))"
    using v by (intro add_stake_to_inv [OF assms(3) sub]) simp
  then show ?thesis using send_value_keeps [OF w' assms(2)] by simp
qed

lemma kill_inv:
  assumes "kill sender env w = Inr (u, w')" and "sender_keeps (gateway_inv ext) sender"
    and "caller_is_id env" and "gateway_inv ext (wstate w)"
  shows "gateway_inv ext (wstate w')"
proof -
  obtain sub st1 where sub: "subnets (wstate w) (new_from_parent (network_name (wstate w)) (caller env)) = Some sub"
    and st1: "rm_subnet (new_from_parent (network_name (wstate w)) (caller env)) (wstate w) = Inr st1"
    and w': "send_value sender (caller env) METHOD_SEND (stake sub) (w\<lparr>wstate := st1\<rparr>) = Inr w'"
    using assms(1,3) by (auto simp: kill_def Let_def get_own_subnet split: if_splits option.splits)
  have "gateway_inv ext st1"
    by (rule rm_subnet_inv [OF assms(4) sub st1])
  then show ?thesis using send_value_keeps [OF w' assms(2)] by simp
qed

lemma commit_child_check_inv:
  assumes "commit_child_check ext sender env commit w = Inr (u, w')"
    and "sender_keeps (gateway_inv ext) sender" and "gateway_inv ext (wstate w)"
  shows "gateway_inv ext (wstate w')"
proof -
  obtain fee msgs st1 w2 where st1: "commit_child_state ext env commit (wstate w) = Inr ((fee, msgs), st1)"
    and w2: "(case msgs of Some ms \<Rightarrow> apply_msgs ext sender env (check_source (check_content commit)) ms (w\<lparr>wstate := st1\<rparr>)
               | None \<Rightarrow> Inr (w\<lparr>wstate := st1\<rparr>)) = Inr w2"
    and w': "distribute_crossmsg_fee ext sender (subnet_actor (new_id ext) (check_source (check_content commit))) fee w2 = Inr w'"
    using assms(1) by (fastforce simp: commit_child_check_def Let_def split: if_splits)
  have "gateway_inv ext st1" by (rule commit_child_state_inv [OF assms(3) st1])
  with w2 assms(2) have "gateway_inv ext (wstate w2)"
    by (cases msgs) (auto dest: apply_msgs_inv)
  with w' assms(2) show ?thesis by (blast intro: distribute_crossmsg_fee_keeps)
qed

lemma fund_inv:
  assumes "fund ext sender env params w = Inr (u, w')"
    and "sender_keeps (gateway_inv ext) sender" and "gateway_inv ext (wstate w)"
  shows "gateway_inv ext (wstate w')"
  using assms
  by (auto simp: fund_def Let_def split: if_splits
      dest!: distribute_crossmsg_fee_keeps [where P = "gateway_inv ext"] dest: commit_topdown_msg_inv)

lemma release_inv:
  assumes "release ext sender env a w = Inr (u, w')"
    and "sender_keeps (gateway_inv ext) sender" and "gateway_inv ext (wstate w)"
  shows "gateway_inv ext (wstate w')"
  using assms
  by (auto simp: release_def Let_def commit_bottomup_msg_def split: if_splits
      dest!: burn_bu_funds_keeps [where P = "gateway_inv ext"] dest: store_msg_in_checkpoint_inv)

lemma send_cross_inv:
  assumes "send_cross ext sender env params w = Inr (u, w')"
    and "sender_keeps (gateway_inv ext) sender" and "gateway_inv ext (wstate w)"
  shows "gateway_inv ext (wstate w')"
  using assms
  by (auto simp: send_cross_def Let_def split: if_splits
      dest!: cross_msg_side_effects_keeps [where P = "gateway_inv ext"] dest: commit_cross_message_inv [rotated 2])

lemma whitelist_propagator_inv:
  assumes "whitelist_propagator ext env params w = Inr (u, w')" and "gateway_inv ext (wstate w)"
  shows "gateway_inv ext (wstate w')"
  using assms
  by (auto simp: whitelist_propagator_def swap_postbox_item_def split: if_splits option.splits
      intro!: put_postbox_inv remove_from_postbox_inv)

lemma propagate_Inr:
  assumes "propagate ext sender env cid w = Inr (u, w')"
  shows "\<exists>item b fee cm st1 w2.
    postbox (wstate w) cid = Some item \<and>
    (\<forall>owners. item_owners item = Some owners \<longrightarrow> caller env \<in> set owners) \<and>
    CROSS_MSG_FEE \<le> value_received env \<and>
    commit_cross_message ext env (item_msg item) CROSS_MSG_FEE (wstate w) = Inr ((b, fee, cm), st1) \<and>
    cross_msg_side_effects ext sender cm b fee (w\<lparr>wstate := remove_from_postbox cid st1\<rparr>) = Inr w2 \<and>
    (if value_received env = CROSS_MSG_FEE then w' = w2
     else send_value sender (caller env) METHOD_SEND (value_received env - CROSS_MSG_FEE) w2 = Inr w')"
  using assms
  by (fastforce simp: propagate_def load_from_postbox_def collect_cross_fee_def not_less
      split: if_splits option.splits)

lemma propagate_inv:
  assumes "propagate ext sender env cid w = Inr (u, w')"
    and "sender_keeps (gateway_inv ext) sender" and "gateway_inv ext (wstate w)"
  shows "gateway_inv ext (wstate w')"
proof -
  from propagate_Inr [OF assms(1)] obtain item b fee cm st1 w2 where
    "postbox (wstate w) cid = Some item" and
    c: "commit_cross_message ext env (item_msg item) CROSS_MSG_FEE (wstate w) = Inr ((b, fee, cm), st1)"
    and w2: "cross_msg_side_effects ext sender cm b fee (w\<lparr>wstate := remove_from_postbox cid st1\<rparr>) = Inr w2"
    and w': "if value_received env = CROSS_MSG_FEE then w' = w2
       else send_value sender (caller env) METHOD_SEND (value_received env - CROSS_MSG_FEE) w2 = Inr w'"
    by blast
  have "gateway_inv ext (remove_from_postbox cid st1)"
    by (rule remove_from_postbox_inv [OF commit_cross_message_inv [OF assms(3) _ c]]) simp
  with w2 assms(2) have "gateway_inv ext (wstate w2)"
    by (auto dest: cross_msg_side_effects_keeps)
  with w' assms(2) show ?thesis by (auto dest: send_value_keeps split: if_splits)
qed

lemma set_membership_inv:
  assumes "set_membership ext sender env vs w = Inr (b, w')"
    and "sender_keeps (gateway_inv ext) sender" and "gateway_inv ext (wstate w)"
  shows "gateway_inv ext (wstate w')"
proof -
  let ?send = "\<lambda>v w. send_value sender (val_addr v) METHOD_SEND INITIAL_VALIDATOR_FUNDS w"
  have loop: "gateway_inv ext (wstate w2)"
    if "fold_res ?send (validators vs) (w\<lparr>wstate := set_members vs (wstate w)\<rparr>) = Inr w2" for w2
    by (rule fold_res_invariant [OF _ that, where P = "\<lambda>w. gateway_inv ext (wstate w)"])
      (use assms(2,3) in \<open>auto intro: send_value_keeps\<close>)
  from assms(1,3) show ?thesis
    by (auto simp: set_membership_def Let_def split: if_splits intro: loop)
qed

lemma init_genesis_epoch_inv:
  "init_genesis_epoch ext env g w = Inr (b, w') \<Longrightarrow> gateway_inv ext (wstate w) \<Longrightarrow> gateway_inv ext (wstate w')"
  by (auto simp: init_genesis_epoch_def split: if_splits)

text \<open>The transactions of a top-down vote only touch the voting; then messages are applied.\<close>

lemma execute_next_state_Inr:
  assumes "execute_next_state st = Inr (cp, st')"
  obtains vt where "st' = st\<lparr>topdown_checkpoint_voting := vt\<rparr>"
proof (cases cp)
  case None
  with assms have "st' = st\<lparr>topdown_checkpoint_voting := topdown_checkpoint_voting st\<rparr>"
    by (auto simp: execute_next_state_def split: option.splits)
  then show ?thesis by (rule that)
qed (use assms that in \<open>auto simp: execute_next_state_def split: option.splits\<close>)

lemma submit_topdown_state_Inr:
  assumes "submit_topdown_state ext env cp st = Inr (res, st')"
  obtains vt where "st' = st\<lparr>topdown_checkpoint_voting := vt\<rparr>"
  using assms by (auto simp: submit_topdown_state_def split: if_splits)

lemma submit_topdown_check_Inr:
  assumes "submit_topdown_check ext sender env cp w = Inr (b, w')"
  obtains res st1 where "submit_topdown_state ext env cp (wstate w) = Inr (res, st1)"
    and "(case res of
          Some c \<Rightarrow> and_then (if top_down_msgs c = [] then execute_next_topdown_epoch ext sender env (w\<lparr>wstate := st1\<rparr>)
                              else Inr (w\<lparr>wstate := st1\<rparr>))
              (\<lambda>w2. apply_msgs ext sender env UNDEF (top_down_msgs c) w2)
        | None \<Rightarrow> execute_next_topdown_epoch ext sender env (w\<lparr>wstate := st1\<rparr>)) = Inr w'"
  using assms by (auto simp: submit_topdown_check_def)

lemma submit_topdown_check_keeps:
  assumes "submit_topdown_check ext sender env cp w = Inr (b, w')" and "P w"
    and vote: "\<And>v vt. P v \<Longrightarrow> P (v\<lparr>wstate := (wstate v)\<lparr>topdown_checkpoint_voting := vt\<rparr>\<rparr>)"
    and apply_msgs: "\<And>ms v v'. apply_msgs ext sender env UNDEF ms v = Inr v' \<Longrightarrow> P v \<Longrightarrow> P v'"
  shows "P w'"
proof -
  have next_epoch: "P v'" if x: "execute_next_topdown_epoch ext sender env v = Inr v'" and v: "P v" for v v'
  proof -
    from x obtain c st1 where st1: "execute_next_state (wstate v) = Inr (c, st1)"
      and v': "(case c of Some c \<Rightarrow> apply_msgs ext sender env UNDEF (top_down_msgs c) (v\<lparr>wstate := st1\<rparr>)
                | None \<Rightarrow> Inr (v\<lparr>wstate := st1\<rparr>)) = Inr v'"
      by (auto simp: execute_next_topdown_epoch_def)
    from st1 vote [OF v] have "P (v\<lparr>wstate := st1\<rparr>)" by (auto elim: execute_next_state_Inr)
    with v' apply_msgs show ?thesis by (auto split: option.splits)
  qed
  from assms(1) obtain res st1 where st1: "submit_topdown_state ext env cp (wstate w) = Inr (res, st1)"
    and w': "(case res of
          Some c \<Rightarrow> and_then (if top_down_msgs c = [] then execute_next_topdown_epoch ext sender env (w\<lparr>wstate := st1\<rparr>)
                              else Inr (w\<lparr>wstate := st1\<rparr>))
              (\<lambda>w2. apply_msgs ext sender env UNDEF (top_down_msgs c) w2)
        | None \<Rightarrow> execute_next_topdown_epoch ext sender env (w\<lparr>wstate := st1\<rparr>)) = Inr w'"
    by (rule submit_topdown_check_Inr)
  from st1 vote [OF assms(2)] have "P (w\<lparr>wstate := st1\<rparr>)" by (auto elim: submit_topdown_state_Inr)
  with w' next_epoch apply_msgs show ?thesis by (auto split: option.splits if_splits)
qed

lemma submit_topdown_check_inv:
  assumes "submit_topdown_check ext sender env cp w = Inr (b, w')"
    and keeps: "sender_keeps (gateway_inv ext) sender" and "gateway_inv ext (wstate w)"
  shows "gateway_inv ext (wstate w')"
  by (rule submit_topdown_check_keeps [OF assms(1), where P = "\<lambda>v. gateway_inv ext (wstate v)"])
    (use assms(3) in \<open>auto dest: apply_msgs_inv [OF _ keeps]\<close>)

text \<open>The invariant of the actor, over all its methods.\<close>

lemma gateway_invoke_inv:
  assumes "gateway_invoke ext sender env call w = Inr w'" and "caller_is_id env"
    and "sender_keeps (gateway_inv ext) sender" and "gateway_inv ext (wstate w)"
  shows "gateway_inv ext (wstate w')"
  using assms
  by (cases call)
    (auto intro: register_inv add_stake_inv release_stake_inv kill_inv commit_child_check_inv fund_inv
      release_inv send_cross_inv propagate_inv whitelist_propagator_inv submit_topdown_check_inv
      set_membership_inv init_genesis_epoch_inv)

end
