(* ===== verification/Gateway_Collateral.thy ===== *)
theory Gateway_Collateral
  imports Gateway_Inv
begin

text \<open>
  Runs of the gateway actor, and the properties of registration and collateral.
\<close>

section \<open>Runs\<close>

inductive gateway_step ::
    "('a, 'c) externs \<Rightarrow> ('a, 'c, 'x) gw_sender \<Rightarrow> ('a, 'c, 'x) gw_world \<Rightarrow>
     'a msg_env \<times> ('a, 'c) gateway_call \<Rightarrow> ('a, 'c, 'x) gw_world \<Rightarrow> bool"
  for ext :: "('a, 'c) externs" and sender :: "('a, 'c, 'x) gw_sender" where
  message: "caller_is_id env \<Longrightarrow> 0 \<le> value_received env \<Longrightarrow>
     gateway_invoke ext sender env call (credited env w) = Inr w' \<Longrightarrow>
     gateway_step ext sender w (env, call) w'"

inductive_cases gateway_stepE: "gateway_step ext sender w (env, call) w'"

inductive_simps gateway_step_simps: "gateway_step ext sender w (env, call) w'"

section \<open>A concrete environment\<close>

text \<open>
  Addresses are numbers that all are ID addresses, the hash of a checkpoint is its epoch, the cid of a
  postbox item is the value of its message. The witnesses use this instance of the parameters.
\<close>

definition sample_ext :: "(nat, nat) externs" where
  "sample_ext =
     \<lparr>check_hash = (\<lambda>(src, prf, e, rest). nat e), genesis_cid = 0,
      postbox_cid = (\<lambda>item. nat (msg_value (msg (item_msg item)))), cid_bytes = (\<lambda>n. [of_nat n]),
      topdown_digest = (\<lambda>cp. [of_nat (nat (topdown_epoch cp))]), new_id = unat,
      protocol_of = (\<lambda>_. ID), resolve_secp_bls = Inr, equal_account_id = (=),
      parse_address = (\<lambda>s. Some (length s)), method_hash = (\<lambda>_. 42),
      INIT_ACTOR_ADDR = 1, SYSTEM_ACTOR_ADDR = 0, BURNT_FUNDS_ACTOR_ADDR = 99\<rparr>"

definition sample_env :: "nat \<Rightarrow> token_amount \<Rightarrow> bool \<Rightarrow> nat msg_env" where
  "sample_env from_addr v signable =
     \<lparr>caller = from_addr, receiver = 64, value_received = v, curr_epoch = 25,
      caller_signable = signable, resolve_address = Some\<rparr>"

definition sample_gateway :: "(nat, nat) gateway" where
  "sample_gateway =
     \<lparr>network_name = \<lparr>root = 1, children = []\<rparr>, total_subnets = 0, min_stake = 100,
      subnets = Map.empty, bottomup_check_period = 10, topdown_check_period = 10,
      bottomup_checkpoints = Map.empty, postbox = Map.empty, bottomup_nonce = 0,
      applied_topdown_nonce = 0, topdown_checkpoint_voting = new_voting 0 10,
      members = new_membership empty_validator_set, initialized = True\<rparr>"

type_synonym sample_world = "((nat, nat) gateway, (nat, nat payload) send_req list) world"

definition sample_world :: "(nat, nat) gateway \<Rightarrow> token_amount \<Rightarrow> sample_world" where
  "sample_world st b = \<lparr>wstate = st, wbalance = b, wrest = []\<rparr>"

lemma sample_gateway_inv: "gateway_inv sample_ext sample_gateway"
  by (simp add: sample_gateway_def gateway_inv_def subnets_ok_def checks_ok_def postbox_ok_def well_keyed_def)

lemmas sample_defs = sample_ext_def sample_env_def sample_gateway_def sample_world_def credited_def
  caller_is_id_def

text \<open>A subnet 7 registered with 120, in the sample network.\<close>

definition sample_registered :: "(nat, nat) gateway" where
  "sample_registered =
     (set_subnet \<lparr>root = 1, children = [7]\<rparr>
        (fresh_subnet (sample_env 7 120 False) \<lparr>root = 1, children = [7]\<rparr>) sample_gateway)\<lparr>total_subnets := 1\<rparr>"

lemma register_sample:
  "register (sample_env 7 120 False) (sample_world sample_gateway 120) =
     Inr (\<lparr>root = 1, children = [7]\<rparr>, sample_world sample_registered 120)"
  by (simp add: register_def transaction_def get_subnet_def register_subnet_def sample_registered_def
      sample_defs f0_id_def new_subnet_id_def new_from_parent_def u64_incr_def Let_def set_subnet_def)

lemma sample_registered_inv: "gateway_inv sample_ext sample_registered"
proof -
  have "gateway_inv sample_ext (wstate (sample_world sample_registered 120))"
    by (rule register_inv [OF register_sample])
      (simp_all add: sample_gateway_inv sample_env_def caller_is_id_def sample_world_def)
  then show ?thesis by (simp add: sample_world_def)
qed

section \<open>Properties\<close>



text \<open>
  Registration: a caller that is not registered yet and sends at least the minimum stake gets a
  subnet of its own under this network, active, with exactly the value it sent as collateral and
  nothing else; the counter grows by one and no other entry and no balance changes. Otherwise the
  message fails with an illegal-argument error (or, at the largest counter, by an overflow).
\<close>

theorem register_behaviour:
  assumes "caller_is_id env"
  shows "case register env w of
      Inr (shid, w') \<Rightarrow>
        shid = new_from_parent (network_name (wstate w)) (caller env) \<and>
        subnets (wstate w) shid = None \<and> min_stake (wstate w) \<le> value_received env \<and>
        (\<exists>sub. subnets (wstate w') = (subnets (wstate w))(shid \<mapsto> sub) \<and>
           stake sub = value_received env \<and> sub_status sub = Active \<and> circ_supply sub = 0 \<and>
           prev_checkpoint sub = None \<and> topdown_nonce sub = 0 \<and> applied_bottomup_nonce sub = 0) \<and>
        unat (total_subnets (wstate w')) = Suc (unat (total_subnets (wstate w))) \<and>
        wbalance w' = wbalance w \<and> wrest w' = wrest w
    | Inl e \<Rightarrow>
        (e = ActorError USR_ILLEGAL_ARGUMENT \<and>
           (subnets (wstate w) (new_from_parent (network_name (wstate w)) (caller env)) = None \<longrightarrow>
            value_received env < min_stake (wstate w))) \<or>
        (e = Panic \<and> total_subnets (wstate w) = - 1)"
proof (cases "subnets (wstate w) (new_from_parent (network_name (wstate w)) (caller env))")
  case (Some sub)
  then show ?thesis
    by (simp add: register_def transaction_def Let_def get_own_subnet [OF assms])
next
  case None
  show ?thesis
  proof (cases "value_received env < min_stake (wstate w)")
    case True
    with None show ?thesis
      by (simp add: register_def transaction_def Let_def get_own_subnet [OF assms] register_subnet_def)
  next
    case False
    with None show ?thesis
      by (cases "u64_incr (total_subnets (wstate w))")
        (auto simp: register_def transaction_def Let_def get_own_subnet [OF assms] register_subnet_def
          fresh_subnet_def u64_incr_unat u64_incr_def split: if_splits)
  qed
qed

theorem register_behaviour_witness:
  "case register (sample_env 7 120 False) (sample_world sample_gateway 120) of
     Inr (shid, w') \<Rightarrow> shid = \<lparr>root = 1, children = [7]\<rparr> \<and> wbalance w' = 120
   | Inl e \<Rightarrow> False"
  using register_behaviour [of "sample_env 7 120 False" "sample_world sample_gateway 120"]
  by (simp add: register_sample) (simp add: sample_defs new_from_parent_def)

text \<open>The entry of the caller, when it may touch its collateral.\<close>

lemma release_stake_Inr:
  assumes "release_stake sender env v w = Inr (u, w')"
  obtains sub where
    "get_subnet (resolve_address env) (new_from_parent (network_name (wstate w)) (caller env)) (wstate w) = Some sub"
    "0 < v" "v \<le> stake sub" "v \<le> wbalance w"
    "send_value sender (caller env) METHOD_SEND v (w\<lparr>wstate := add_stake_to (- v) sub (wstate w)\<rparr>) = Inr w'"
  using assms by (auto simp: release_stake_def Let_def not_less not_le split: if_splits option.splits)

lemma kill_Inr:
  assumes "kill sender env w = Inr (u, w')" and "caller_is_id env"
  obtains sub st1 where
    "subnets (wstate w) (new_from_parent (network_name (wstate w)) (caller env)) = Some sub"
    "stake sub \<le> wbalance w" "circ_supply sub \<le> 0"
    "rm_subnet (new_from_parent (network_name (wstate w)) (caller env)) (wstate w) = Inr st1"
    "send_value sender (caller env) METHOD_SEND (stake sub) (w\<lparr>wstate := st1\<rparr>) = Inr w'"
  using assms by (auto simp: kill_def Let_def get_own_subnet not_less split: if_splits option.splits)

lemma send_value_pays:
  assumes "send_value sender a m v w = Inr w'" and "sender_pays sender"
  shows "wstate w' = wstate w" and "wbalance w' = wbalance w - v" and "0 \<le> v" and "v \<le> wbalance w"
  using assms by (auto simp: send_value_def dest: sender_paysD)

text \<open>
  Releasing collateral: a message that succeeds takes a positive amount, at most the collateral of
  the caller's own subnet, out of that collateral and pays exactly this amount to the caller; the
  subnet falls back to inactive when less than the minimum remains, and every other subnet keeps its
  entry.
\<close>

theorem release_stake_pays_own_collateral:
  assumes "gateway_inv ext (wstate w)" and "caller_is_id env" and "sender_pays sender"
    and "release_stake sender env v w = Inr (u, w')"
  shows "\<exists>shid sub. shid = new_from_parent (network_name (wstate w)) (caller env) \<and>
     subnets (wstate w) shid = Some sub \<and> 0 < v \<and> v \<le> stake sub \<and>
     subnets (wstate w') = (subnets (wstate w))(shid \<mapsto> sub\<lparr>stake := stake sub - v,
       sub_status := (if stake sub - v < min_stake (wstate w) then Inactive else Active)\<rparr>) \<and>
     wbalance w' = wbalance w - v"
  using assms(4)
proof (rule release_stake_Inr)
  fix sub
  assume sub: "get_subnet (resolve_address env) (new_from_parent (network_name (wstate w)) (caller env)) (wstate w) = Some sub"
    and v: "0 < v" "v \<le> stake sub"
    and send: "send_value sender (caller env) METHOD_SEND v (w\<lparr>wstate := add_stake_to (- v) sub (wstate w)\<rparr>) = Inr w'"
  have "sub_id sub = new_from_parent (network_name (wstate w)) (caller env)"
    using get_subnet_ok(3) [OF _ sub] assms(1,2) by (simp add: gateway_inv_def caller_is_id_def)
  moreover have "subnets (wstate w) (new_from_parent (network_name (wstate w)) (caller env)) = Some sub"
    using sub by (simp add: get_own_subnet [OF assms(2)])
  ultimately show ?thesis
    using v send_value_pays [OF send assms(3)]
    by (intro exI [of _ "new_from_parent (network_name (wstate w)) (caller env)"] exI [of _ sub])
      (simp add: add_stake_to_def Let_def)
qed

theorem release_stake_pays_own_collateral_witness:
  "\<exists>w'. release_stake recording_send (sample_env 7 0 False) 50 (sample_world sample_registered 120) = Inr ((), w') \<and>
     wbalance w' = 120 - 50 \<and>
     (\<exists>sub. subnets (wstate w') \<lparr>root = 1, children = [7]\<rparr> = Some sub \<and> stake sub = 70 \<and> sub_status sub = Inactive)"
proof -
  let ?w = "sample_world sample_registered 120"
  have "\<exists>w'. release_stake recording_send (sample_env 7 0 False) 50 ?w = Inr ((), w')"
    by (simp add: release_stake_def transaction_def get_subnet_def sample_registered_def sample_defs f0_id_def
        new_subnet_id_def new_from_parent_def Let_def set_subnet_def fresh_subnet_def send_value_def
        recording_send_def add_stake_to_def flush_subnet_def)
  then obtain w' where w': "release_stake recording_send (sample_env 7 0 False) 50 ?w = Inr ((), w')" by blast
  have "wstate ?w = sample_registered" "wbalance ?w = 120" by (simp_all add: sample_world_def)
  with release_stake_pays_own_collateral [OF _ _ sender_pays_recording w', of sample_ext]
    sample_registered_inv w'
  show ?thesis
    by (auto simp: sample_registered_def fresh_subnet_def new_from_parent_def)
      (auto simp: sample_defs)
qed

text \<open>
  Killing: a subnet that still has circulating supply cannot be killed, and one that is killed is
  the caller's own; it leaves the table, the counter goes down by one, and the caller is paid exactly
  its whole collateral.
\<close>

theorem kill_returns_collateral:
  assumes "gateway_inv ext (wstate w)" and "caller_is_id env" and "sender_pays sender"
    and "kill sender env w = Inr (u, w')"
  shows "\<exists>shid sub. shid = new_from_parent (network_name (wstate w)) (caller env) \<and>
     subnets (wstate w) shid = Some sub \<and> circ_supply sub \<le> 0 \<and>
     subnets (wstate w') = (subnets (wstate w))(shid := None) \<and>
     Suc (unat (total_subnets (wstate w'))) = unat (total_subnets (wstate w)) \<and>
     wbalance w' = wbalance w - stake sub"
  using assms(4,2)
proof (rule kill_Inr)
  fix sub st1
  assume sub: "subnets (wstate w) (new_from_parent (network_name (wstate w)) (caller env)) = Some sub"
    and circ: "circ_supply sub \<le> 0"
    and st1: "rm_subnet (new_from_parent (network_name (wstate w)) (caller env)) (wstate w) = Inr st1"
    and send: "send_value sender (caller env) METHOD_SEND (stake sub) (w\<lparr>wstate := st1\<rparr>) = Inr w'"
  show ?thesis
    using sub circ send_value_pays [OF send assms(3)] rm_subnet_Inr [OF st1 sub]
    by (auto simp: delete_subnet_def)
qed

theorem kill_returns_collateral_witness:
  "\<exists>w'. kill recording_send (sample_env 7 0 False) (sample_world sample_registered 120) = Inr ((), w') \<and>
     wbalance w' = 120 - 120 \<and> subnets (wstate w') \<lparr>root = 1, children = [7]\<rparr> = None"
proof -
  let ?w = "sample_world sample_registered 120"
  have "\<exists>w'. kill recording_send (sample_env 7 0 False) ?w = Inr ((), w')"
    by (simp add: kill_def transaction_def get_subnet_def sample_registered_def sample_defs f0_id_def
        new_subnet_id_def new_from_parent_def Let_def set_subnet_def fresh_subnet_def send_value_def
        recording_send_def rm_subnet_def delete_subnet_def u64_decr_def)
  then obtain w' where w': "kill recording_send (sample_env 7 0 False) ?w = Inr ((), w')" by blast
  have "wstate ?w = sample_registered" "wbalance ?w = 120" by (simp_all add: sample_world_def)
  with kill_returns_collateral [OF _ _ sender_pays_recording w', of sample_ext]
    sample_registered_inv w'
  show ?thesis
    by (auto simp: sample_registered_def fresh_subnet_def new_from_parent_def)
      (auto simp: sample_defs)
qed

end
