(* ===== verification/Gateway_Funds.thy ===== *)
theory Gateway_Funds
  imports Gateway_Collateral
begin

text \<open>
  The money of the gateway: what it owes (collateral, circulating supply of its children, the value
  of the messages in its postbox) against its balance, for every method, and the firewall between a
  child subnet and the rest of the hierarchy.
\<close>

section \<open>What the gateway owes\<close>

definition item_value :: "'a postbox_item \<Rightarrow> token_amount" where
  "item_value item = msg_value (msg (item_msg item))"

definition held :: "('a, 'c) gateway \<Rightarrow> token_amount" where
  "held st =
     table_sum (\<lambda>sub. stake sub + circ_supply sub) (subnets st) + table_sum item_value (postbox st)"

definition surplus :: "('a, 'c, 'x) gw_world \<Rightarrow> token_amount" where
  "surplus w = wbalance w - held (wstate w)"

definition funds_ok :: "('a, 'c) externs \<Rightarrow> ('a, 'c) gateway \<Rightarrow> bool" where
  "funds_ok ext st \<longleftrightarrow> gateway_inv ext st \<and>
     (\<forall>k sub. subnets st k = Some sub \<longrightarrow> 0 \<le> circ_supply sub) \<and>
     (\<forall>cid item. postbox st cid = Some item \<longrightarrow> 0 \<le> item_value item)"

lemma held_cong: "subnets st' = subnets st \<Longrightarrow> postbox st' = postbox st \<Longrightarrow> held st' = held st"
  by (simp add: held_def)

lemma funds_okD:
  assumes "funds_ok ext st"
  shows "gateway_inv ext st" and "subnets_ok st" and "finite (dom (subnets st))" and "finite (dom (postbox st))"
    and "subnets st k = Some sub \<Longrightarrow> 0 \<le> circ_supply sub"
    and "postbox st cid = Some item \<Longrightarrow> 0 \<le> item_value item"
  using assms by (auto simp: funds_ok_def gateway_inv_def subnets_ok_def postbox_ok_def)

lemma held_flush_subnet:
  assumes "funds_ok ext st" and "subnets st (sub_id sub) = Some old"
  shows "held (flush_subnet sub st) = held st - (stake old + circ_supply old) + (stake sub + circ_supply sub)"
  using assms table_sum_upd [OF funds_okD(3) [OF assms(1)]] by (simp add: held_def)

lemma held_put_postbox:
  assumes "funds_ok ext st"
  shows "held (put_postbox ext item st) \<le> held st + item_value item"
  using funds_okD(6) [OF assms] table_sum_upd [OF funds_okD(4) [OF assms], of item_value]
  by (auto simp: held_def put_postbox_def split: option.split)

lemma held_remove_from_postbox:
  assumes "funds_ok ext st" and "postbox st cid = Some item"
  shows "held (remove_from_postbox cid st) = held st - item_value item"
  using assms table_sum_del [OF funds_okD(4) [OF assms(1)], of item_value]
  by (simp add: held_def remove_from_postbox_def)

lemma held_simps [simp]:
  "held (flush_checkpoint ch st) = held st"
  "held (st\<lparr>applied_topdown_nonce := n\<rparr>) = held st"
  "held (st\<lparr>bottomup_nonce := m\<rparr>) = held st"
  "held (init_gateway g st) = held st"
  by (rule held_cong; simp add: init_gateway_def)+

lemma funds_ok_simps [simp]:
  "funds_ok ext (st\<lparr>applied_topdown_nonce := n\<rparr>) \<longleftrightarrow> funds_ok ext st"
  by (simp add: funds_ok_def)

lemma funds_ok_init_gateway [simp]: "funds_ok ext (init_gateway g st) \<longleftrightarrow> funds_ok ext st"
proof -
  have "subnets (init_gateway g st) = subnets st" "postbox (init_gateway g st) = postbox st"
    by (simp_all add: init_gateway_def)
  then show ?thesis by (simp add: funds_ok_def)
qed

lemma funds_ok_flush_subnet:
  assumes "gateway_inv ext (flush_subnet sub st)" and "funds_ok ext st" and "0 \<le> circ_supply sub"
  shows "funds_ok ext (flush_subnet sub st)"
  using assms by (auto simp: funds_ok_def)

lemma funds_ok_put_postbox:
  assumes "funds_ok ext st" and "item_owners item \<noteq> None" and "0 \<le> item_value item"
  shows "funds_ok ext (put_postbox ext item st)"
  using assms put_postbox_inv [of ext st item] by (auto simp: funds_ok_def put_postbox_def split: if_splits)

lemma funds_ok_remove_from_postbox:
  assumes "funds_ok ext st"
  shows "funds_ok ext (remove_from_postbox cid st)"
  using assms remove_from_postbox_inv [of ext st cid]
  by (auto simp: funds_ok_def remove_from_postbox_def split: if_splits)

section \<open>Committing messages\<close>

lemma commit_topdown_msg_funds:
  assumes ok: "funds_ok ext st" and "0 \<le> msg_value (msg cm)"
    and c: "commit_topdown_msg resolve cm st = Inr (cm', st')"
  shows "funds_ok ext st'" and "held st' = held st + msg_value (msg cm)"
    and "postbox st' = postbox st" and "msg_value (msg cm') = msg_value (msg cm)"
proof -
  from c obtain hop sub n where sub: "get_subnet resolve hop st = Some sub"
    and cm': "cm' = set_nonce (topdown_nonce sub) cm"
    and st': "st' = flush_subnet (sub\<lparr>topdown_msgs := (topdown_msgs sub)(topdown_nonce sub \<mapsto> cm'),
       topdown_nonce := n, circ_supply := circ_supply sub + msg_value (msg cm)\<rparr>) st"
    by (rule commit_topdown_msg_Inr)
  have "subnets st (sub_id sub) = Some sub" by (rule get_subnet_ok [OF funds_okD(2) [OF ok] sub])
  then show "funds_ok ext st'" "held st' = held st + msg_value (msg cm)"
    using commit_topdown_msg_inv [OF funds_okD(1) [OF ok] c] funds_okD(5) [OF ok] ok assms(2)
    by (auto simp: st' held_flush_subnet [OF ok] intro!: funds_ok_flush_subnet)
  show "postbox st' = postbox st" "msg_value (msg cm') = msg_value (msg cm)"
    by (simp_all add: st' cm')
qed

lemma commit_bottomup_msg_fields:
  assumes "commit_bottomup_msg ext cm e fee st = Inr st'"
  shows "subnets st' = subnets st" and "postbox st' = postbox st"
  using assms by (auto simp: commit_bottomup_msg_def store_msg_in_checkpoint_def Let_def)

lemma commit_bottomup_msg_funds:
  assumes "funds_ok ext st" and "0 \<le> fee" and c: "commit_bottomup_msg ext cm e fee st = Inr st'"
  shows "funds_ok ext st'" and "held st' = held st" and "postbox st' = postbox st"
  using assms commit_bottomup_msg_fields [OF c] store_msg_in_checkpoint_inv [of ext st cm e fee st']
  by (auto simp: funds_ok_def commit_bottomup_msg_def intro: held_cong)

section \<open>Sends that pay\<close>

lemma distribute_crossmsg_fee_pays:
  assumes "distribute_crossmsg_fee ext sender a v w = Inr w'" and "sender_pays sender"
  shows "wstate w' = wstate w" and "wbalance w' = wbalance w - v"
  using assms by (auto simp: distribute_crossmsg_fee_def dest: send_value_pays split: if_splits)

lemma burn_bu_funds_pays:
  assumes "burn_bu_funds ext sender v w = Inr w'" and "sender_pays sender"
  shows "wstate w' = wstate w" and "wbalance w' = wbalance w - v"
  using assms by (auto simp: burn_bu_funds_def dest: send_value_pays)

lemma cross_msg_send_pays:
  assumes "cross_msg_send sender cm a w = Inr (b, w')" and "sender_pays sender"
  shows "wstate w' = wstate w" and "wbalance w' = wbalance w - msg_value (msg cm)"
    and "0 \<le> msg_value (msg cm)" and "msg_value (msg cm) \<le> wbalance w"
  using assms by (auto simp: cross_msg_send_def dest: sender_paysD split: if_splits)

lemma cross_msg_side_effects_pays:
  assumes "cross_msg_side_effects ext sender cm do_burn fee w = Inr w'" and "sender_pays sender"
  shows "wstate w' = wstate w" and "wbalance w' = wbalance w - (if do_burn then msg_value (msg cm) else 0) - fee"
proof -
  obtain w1 where w1: "(if do_burn then burn_bu_funds ext sender (msg_value (msg cm)) w else Inr w) = Inr w1"
    and r: "(if fee \<noteq> 0
       then and_then (ok_or Panic (down (subnet_of (msg_to (msg cm))) (network_name (wstate w1))))
              (\<lambda>next. distribute_crossmsg_fee ext sender (subnet_actor (new_id ext) next) fee w1)
       else Inr w1) = Inr w'"
    using assms(1) unfolding cross_msg_side_effects_def and_then_Inr by blast
  have w': "(\<exists>a. distribute_crossmsg_fee ext sender a fee w1 = Inr w') \<or> (fee = 0 \<and> w' = w1)"
    using r by (cases "fee = 0") auto
  have b: "wstate w1 = wstate w \<and> wbalance w1 = wbalance w - (if do_burn then msg_value (msg cm) else 0)"
  proof (cases do_burn)
    case True
    with w1 have "burn_bu_funds ext sender (msg_value (msg cm)) w = Inr w1" by simp
    from burn_bu_funds_pays [OF this assms(2)] True show ?thesis by simp
  qed (use w1 in simp)
  have "wstate w' = wstate w1 \<and> wbalance w' = wbalance w1 - fee"
    using w' distribute_crossmsg_fee_pays [OF _ assms(2)] by (elim disjE exE conjE) simp_all
  with b show "wstate w' = wstate w" "wbalance w' = wbalance w - (if do_burn then msg_value (msg cm) else 0) - fee"
    by simp_all
qed

text \<open>Committing a message and settling its side effects costs at most its value and the fee.\<close>

lemma commit_and_settle:
  assumes ok: "funds_ok ext st" and v: "0 \<le> msg_value (msg cm)" "0 \<le> fee" and pays: "sender_pays sender"
    and c: "commit_cross_message ext env cm fee st = Inr ((do_burn, tfee, cm'), st')"
    and e: "cross_msg_side_effects ext sender cm' do_burn tfee w = Inr w'"
  shows "funds_ok ext st'" and "postbox st' = postbox st" and "wstate w' = wstate w"
    and "wbalance w - held st - (msg_value (msg cm) + fee) \<le> wbalance w' - held st'"
proof -
  have topdown: "funds_ok ext st' \<and> held st' = held st + msg_value (msg cm) \<and> postbox st' = postbox st \<and>
      msg_value (msg cm') = msg_value (msg cm)"
    if "commit_topdown_msg (resolve_address env) cm st1 = Inr (cm', st')"
      "st1 = st \<or> st1 = st\<lparr>applied_topdown_nonce := n\<rparr>" for st1 n
    using commit_topdown_msg_funds [OF _ v(1) that(1), of ext] that(2) ok by auto
  note cases = commit_cross_message_Inr(2) [OF c]
  from cases topdown show "funds_ok ext st'" "postbox st' = postbox st"
    using commit_bottomup_msg_funds [OF ok v(2)] by blast+
  show "wstate w' = wstate w"
    by (rule cross_msg_side_effects_pays(1) [OF e pays])
  from cases show "wbalance w - held st - (msg_value (msg cm) + fee) \<le> wbalance w' - held st'"
  proof
    assume "\<exists>n st1. (st1 = st \<or> st1 = st\<lparr>applied_topdown_nonce := n\<rparr>) \<and> do_burn = False \<and> tfee = fee \<and>
      commit_topdown_msg (resolve_address env) cm st1 = Inr (cm', st')"
    then have "held st' = held st + msg_value (msg cm)" "do_burn = False" "tfee = fee"
      using topdown by blast+
    then show ?thesis
      using cross_msg_side_effects_pays(2) [OF e pays] v by simp
  next
    assume b: "do_burn = (0 < msg_value (msg cm)) \<and> tfee = 0 \<and> cm' = cm \<and>
      commit_bottomup_msg ext cm (curr_epoch env) fee st = Inr st'"
    then have "held st' = held st" using commit_bottomup_msg_funds [OF ok v(2)] by blast
    with b show ?thesis
      using cross_msg_side_effects_pays(2) [OF e pays] v by simp
  qed
qed

section \<open>Applying messages\<close>

lemma apply_bottomup_funds:
  assumes ok: "funds_ok ext st" and a: "apply_bottomup env fw cm st = Inr (u, st')"
  shows "funds_ok ext st' \<and> held st' = held st"
proof -
  obtain sub n where sub: "get_subnet (resolve_address env) fw st = Some sub"
    and st': "st' = flush_subnet (sub\<lparr>applied_bottomup_nonce := n\<rparr>) st"
    using a by (auto simp: apply_bottomup_def increase_applied_bottomup_def split: option.splits if_splits)
  have "subnets st (sub_id sub) = Some sub" by (rule get_subnet_ok [OF funds_okD(2) [OF ok] sub])
  then show ?thesis
    using apply_bottomup_inv [OF a funds_okD(1) [OF ok]] funds_okD(5) [OF ok] ok
    by (auto simp: st' held_flush_subnet intro!: funds_ok_flush_subnet)
qed

lemma apply_topdown_funds:
  "funds_ok ext st \<Longrightarrow> apply_topdown cm st = Inr (u, st') \<Longrightarrow> funds_ok ext st' \<and> held st' = held st"
  by (auto simp: apply_topdown_def split: if_splits)

lemma save_funds:
  assumes "funds_ok ext st" and "0 \<le> msg_value (msg cm)"
    and "insert_postbox ext (Some [raw_address (msg_from (msg cm))]) cm st = (cid, st')"
  shows "funds_ok ext st' \<and> held st' \<le> held st + msg_value (msg cm)"
  using assms
    held_put_postbox [OF assms(1), of "\<lparr>item_msg = cm, item_owners = Some [raw_address (msg_from (msg cm))]\<rparr>"]
  by (auto simp: insert_postbox_def item_value_def Let_def intro!: funds_ok_put_postbox)

text \<open>What applying a message does to the state, on each of its branches.\<close>

lemma apply_msg_inner_Inr:
  assumes "apply_msg_inner ext sender env fw cm w = Inr (b, w')"
  shows "(\<exists>st1. (apply_bottomup env fw cm (wstate w) = Inr ((), st1) \<or> apply_topdown cm (wstate w) = Inr ((), st1)) \<and>
            subnet_of (msg_to (msg cm)) = network_name (wstate w) \<and>
            cross_msg_send sender cm (raw_address (msg_to (msg cm))) (w\<lparr>wstate := st1\<rparr>) = Inr (b, w')) \<or>
         (\<exists>cid st1. insert_postbox ext (Some [raw_address (msg_from (msg cm))]) cm (wstate w) = (cid, st1) \<and>
            subnet_of (msg_to (msg cm)) \<noteq> network_name (wstate w) \<and> w' = w\<lparr>wstate := st1\<rparr>)"
  using assms unfolding apply_msg_inner_def Let_def
  by (auto split: ipc_msg_type.splits if_splits)

lemma apply_msg_inner_funds:
  assumes ok: "funds_ok ext (wstate w)" and v: "0 \<le> msg_value (msg cm)" and pays: "sender_pays sender"
    and a: "apply_msg_inner ext sender env fw cm w = Inr (b, w')"
  shows "funds_ok ext (wstate w') \<and> surplus w - msg_value (msg cm) \<le> surplus w' \<and>
    wbalance w - msg_value (msg cm) \<le> wbalance w'"
  using apply_msg_inner_Inr [OF a]
proof (elim disjE exE conjE)
  fix st1
  assume st1: "apply_bottomup env fw cm (wstate w) = Inr ((), st1)"
    and s: "cross_msg_send sender cm (raw_address (msg_to (msg cm))) (w\<lparr>wstate := st1\<rparr>) = Inr (b, w')"
  then show ?thesis
    using apply_bottomup_funds [OF ok st1] cross_msg_send_pays [OF s pays] by (simp add: surplus_def)
next
  fix st1
  assume st1: "apply_topdown cm (wstate w) = Inr ((), st1)"
    and s: "cross_msg_send sender cm (raw_address (msg_to (msg cm))) (w\<lparr>wstate := st1\<rparr>) = Inr (b, w')"
  then show ?thesis
    using apply_topdown_funds [OF ok st1] cross_msg_send_pays [OF s pays] by (simp add: surplus_def)
next
  fix cid st1
  assume "insert_postbox ext (Some [raw_address (msg_from (msg cm))]) cm (wstate w) = (cid, st1)"
    and "w' = w\<lparr>wstate := st1\<rparr>"
  then show ?thesis
    using save_funds [OF ok v] v by (auto simp: surplus_def)
qed

lemma apply_msgs_funds:
  assumes "apply_msgs ext sender env fw ms w = Inr w'" and "funds_ok ext (wstate w)"
    and "\<forall>cm \<in> set ms. 0 \<le> msg_value (msg cm)" and pays: "sender_pays sender"
  shows "funds_ok ext (wstate w') \<and> surplus w - sum_values ms \<le> surplus w' \<and>
    wbalance w - sum_values ms \<le> wbalance w'"
  using assms(1-3)
proof (induction ms arbitrary: w)
  case Nil
  then show ?case by (simp add: apply_msgs_def)
next
  case (Cons m ms)
  from Cons.prems(1) obtain b w1 where w1: "apply_msg_inner ext sender env fw m w = Inr (b, w1)"
    and rest: "apply_msgs ext sender env fw ms w1 = Inr w'"
    by (auto simp: apply_msgs_def)
  have 1: "funds_ok ext (wstate w1) \<and> surplus w - msg_value (msg m) \<le> surplus w1 \<and>
      wbalance w - msg_value (msg m) \<le> wbalance w1"
    by (rule apply_msg_inner_funds [OF Cons.prems(2) _ pays w1]) (use Cons.prems(3) in simp)
  from Cons.IH [OF rest] 1 Cons.prems(3) show ?case by simp
qed

section \<open>The methods of the actor\<close>

lemma commit_child_state_funds:
  assumes ok: "funds_ok ext st" and c: "commit_child_state ext env commit st = Inr ((fee, msgs), st')"
    and "0 \<le> total_value commit + total_fee commit"
  shows "funds_ok ext st' \<and> held st' = held st - (total_value commit + total_fee commit) \<and>
    fee = total_fee commit \<and> msgs = checkpoint_msgs commit"
proof -
  from commit_child_state_Inr [OF c] obtain sub ch ch'
    where sub: "get_subnet (resolve_address env) (new_from_parent (network_name st) (caller env)) st = Some sub"
    and f: "fee = total_fee commit" "msgs = checkpoint_msgs commit"
    and le: "total_value commit + total_fee commit \<le> circ_supply sub"
    and ch: "get_window_checkpoint ext (curr_epoch env) st = Inr ch"
    and ch': "add_child_check (check_hash ext) commit ch = Inr ch'"
    and st': "st' = flush_subnet (sub\<lparr>circ_supply := circ_supply sub - (total_value commit + total_fee commit),
        prev_checkpoint := Some commit\<rparr>) (flush_checkpoint ch' st)"
    by blast
  have "check_ok st ch'"
    using get_window_checkpoint_ok [OF _ ch] add_child_check_ok [OF _ ch'] funds_okD(1) [OF ok]
    by (simp add: gateway_inv_def)
  then have ok1: "funds_ok ext (flush_checkpoint ch' st)"
    using flush_checkpoint_inv [OF funds_okD(1) [OF ok]] ok by (simp add: funds_ok_def)
  have "subnets st (sub_id sub) = Some sub" by (rule get_subnet_ok [OF funds_okD(2) [OF ok] sub])
  then have "held st' = held st - (total_value commit + total_fee commit)"
    using held_flush_subnet [OF ok1, of "sub\<lparr>circ_supply := circ_supply sub - (total_value commit + total_fee commit),
        prev_checkpoint := Some commit\<rparr>" sub] by (simp add: st')
  moreover have "funds_ok ext st'"
    unfolding st'
    by (rule funds_ok_flush_subnet [OF _ ok1])
      (use commit_child_state_inv [OF funds_okD(1) [OF ok] c] le in \<open>simp_all add: st'\<close>)
  ultimately show ?thesis using f by simp
qed

text \<open>The messages and the fee of a checkpoint, when they are honest amounts.\<close>

definition honest_values :: "('a, 'c) bottom_up_checkpoint \<Rightarrow> bool" where
  "honest_values c \<longleftrightarrow> 0 \<le> total_fee c \<and> list_all (\<lambda>cm. 0 \<le> msg_value (msg cm)) (msgs_of c)"

lemma honest_total: "honest_values c \<Longrightarrow> 0 \<le> total_value c"
  unfolding honest_values_def total_value_eq sum_values_def
  by (rule conjE, assumption) (auto simp: list_all_iff intro!: sum_list_nonneg)

lemma commit_child_check_funds:
  assumes ok: "funds_ok ext (wstate w)" and pays: "sender_pays sender" and h: "honest_values commit"
    and c: "commit_child_check ext sender env commit w = Inr (u, w')"
  shows "funds_ok ext (wstate w') \<and> surplus w \<le> surplus w' \<and>
    wbalance w - (total_value commit + total_fee commit) \<le> wbalance w'"
proof -
  obtain fee msgs st1 w2 where st1: "commit_child_state ext env commit (wstate w) = Inr ((fee, msgs), st1)"
    and w2: "(case msgs of Some ms \<Rightarrow> apply_msgs ext sender env (check_source (check_content commit)) ms (w\<lparr>wstate := st1\<rparr>)
               | None \<Rightarrow> Inr (w\<lparr>wstate := st1\<rparr>)) = Inr w2"
    and w': "distribute_crossmsg_fee ext sender (subnet_actor (new_id ext) (check_source (check_content commit))) fee w2 = Inr w'"
    using c by (fastforce simp: commit_child_check_def Let_def split: if_splits)
  have t: "0 \<le> total_value commit + total_fee commit"
    using honest_total [OF h] h by (simp add: honest_values_def)
  note s1 = commit_child_state_funds [OF ok st1 t]
  have "apply_msgs ext sender env (check_source (check_content commit)) (msgs_of commit) (w\<lparr>wstate := st1\<rparr>) = Inr w2"
    using w2 s1 by (cases "checkpoint_msgs commit") (simp_all add: msgs_of_def apply_msgs_def)
  from apply_msgs_funds [OF this _ _ pays] s1 h
  have "funds_ok ext (wstate w2) \<and> surplus (w\<lparr>wstate := st1\<rparr>) - total_value commit \<le> surplus w2 \<and>
      wbalance w - total_value commit \<le> wbalance w2"
    by (simp add: honest_values_def list_all_iff total_value_eq)
  then show ?thesis
    using distribute_crossmsg_fee_pays [OF w' pays] s1 by (simp add: surplus_def)
qed

text \<open>
  A method does not lose funds when it keeps \<open>funds_ok\<close> and what is left over after everything the
  gateway owes is at least what it was before the value of the message arrived.
\<close>

definition no_loss :: "('a, 'c) externs \<Rightarrow> token_amount \<Rightarrow> ('a, 'c, 'x) gw_world \<Rightarrow> ('a, 'c, 'x) gw_world \<Rightarrow> bool" where
  "no_loss ext received w w' \<longleftrightarrow> funds_ok ext (wstate w') \<and> surplus w - received \<le> surplus w'"

lemma register_funds:
  assumes ok: "funds_ok ext (wstate w)" and id: "caller_is_id env" and r: "register env w = Inr (shid, w')"
  shows "no_loss ext (value_received env) w w'"
proof -
  let ?st = "wstate w" and ?shid = "new_from_parent (network_name (wstate w)) (caller env)"
  obtain st1 where none: "subnets ?st ?shid = None" and reg: "register_subnet env ?shid ?st = Inr st1"
    and w': "w' = w\<lparr>wstate := st1\<rparr>"
    using r by (auto simp: register_def Let_def get_own_subnet [OF id] split: option.splits)
  from register_subnet_Inr(3) [OF reg none]
  obtain n where st1: "st1 = (flush_subnet (fresh_subnet env ?shid) ?st)\<lparr>total_subnets := n\<rparr>" by blast
  have "held st1 = held (flush_subnet (fresh_subnet env ?shid) ?st)"
    by (rule held_cong) (simp_all add: st1)
  also have "\<dots> = held ?st + value_received env"
    using none table_sum_upd [OF funds_okD(3) [OF ok], of "\<lambda>sub. stake sub + circ_supply sub" ?shid]
    by (simp add: held_def fresh_subnet_def)
  finally have "held st1 = held ?st + value_received env" .
  moreover have "funds_ok ext st1"
    using register_subnet_inv [OF funds_okD(1) [OF ok] none _ reg] ok
    by (auto simp: funds_ok_def st1 fresh_subnet_def)
  ultimately show ?thesis by (simp add: no_loss_def surplus_def w')
qed

lemma add_stake_to_funds:
  assumes ok: "funds_ok ext st" and sub: "get_subnet resolve net st = Some sub" and "0 \<le> stake sub + v"
  shows "funds_ok ext (add_stake_to v sub st)" and "held (add_stake_to v sub st) = held st + v"
proof -
  have s: "subnets st (sub_id sub) = Some sub" by (rule get_subnet_ok [OF funds_okD(2) [OF ok] sub])
  show "held (add_stake_to v sub st) = held st + v"
    using held_flush_subnet [OF ok, of "sub\<lparr>stake := stake sub + v, sub_status := x\<rparr>" sub for x] s
    by (simp add: add_stake_to_def Let_def)
  show "funds_ok ext (add_stake_to v sub st)"
    using add_stake_to_inv [OF funds_okD(1) [OF ok] sub assms(3)] funds_okD(5) [OF ok s] ok
    by (simp add: add_stake_to_def Let_def funds_ok_flush_subnet)
qed

lemma add_stake_funds:
  assumes ok: "funds_ok ext (wstate w)" and a: "add_stake env w = Inr (u, w')"
  shows "no_loss ext (value_received env) w w'"
proof -
  obtain sub where sub: "get_subnet (resolve_address env) (new_from_parent (network_name (wstate w)) (caller env)) (wstate w) = Some sub"
    and w': "w' = w\<lparr>wstate := add_stake_to (value_received env) sub (wstate w)\<rparr>" and v: "0 < value_received env"
    using a by (auto simp: add_stake_def Let_def split: if_splits option.splits)
  have "0 \<le> stake sub + value_received env"
    using get_subnet_ok(2) [OF funds_okD(2) [OF ok] sub] v by (simp add: subnet_ok_def)
  with add_stake_to_funds [OF ok sub this] show ?thesis by (simp add: no_loss_def surplus_def w')
qed

lemma release_stake_funds:
  assumes ok: "funds_ok ext (wstate w)" and pays: "sender_pays sender" and "0 \<le> value_received env"
    and r: "release_stake sender env v w = Inr (u, w')"
  shows "no_loss ext (value_received env) w w'"
  using r
proof (rule release_stake_Inr)
  fix sub
  assume sub: "get_subnet (resolve_address env) (new_from_parent (network_name (wstate w)) (caller env)) (wstate w) = Some sub"
    and v: "v \<le> stake sub"
    and send: "send_value sender (caller env) METHOD_SEND v (w\<lparr>wstate := add_stake_to (- v) sub (wstate w)\<rparr>) = Inr w'"
  from v have "0 \<le> stake sub + - v" by simp
  from add_stake_to_funds [OF ok sub this] send_value_pays [OF send pays] assms(3)
  show ?thesis by (simp add: no_loss_def surplus_def)
qed

lemma kill_funds:
  assumes ok: "funds_ok ext (wstate w)" and pays: "sender_pays sender" and "0 \<le> value_received env"
    and id: "caller_is_id env" and k: "kill sender env w = Inr (u, w')"
  shows "no_loss ext (value_received env) w w'"
  using k id
proof (rule kill_Inr)
  let ?shid = "new_from_parent (network_name (wstate w)) (caller env)"
  fix sub st1
  assume sub: "subnets (wstate w) ?shid = Some sub" and circ: "circ_supply sub \<le> 0"
    and st1: "rm_subnet ?shid (wstate w) = Inr st1"
    and send: "send_value sender (caller env) METHOD_SEND (stake sub) (w\<lparr>wstate := st1\<rparr>) = Inr w'"
  obtain n where n: "st1 = (delete_subnet ?shid (wstate w))\<lparr>total_subnets := n\<rparr>"
    using rm_subnet_Inr(2) [OF st1 sub] by blast
  have "held st1 = held (delete_subnet ?shid (wstate w))"
    by (rule held_cong) (simp_all add: n)
  also have "\<dots> = held (wstate w) - (stake sub + circ_supply sub)"
    using sub table_sum_del [OF funds_okD(3) [OF ok], of "\<lambda>sub. stake sub + circ_supply sub" ?shid]
    by (simp add: held_def delete_subnet_def)
  finally have "held st1 = held (wstate w) - stake sub"
    using circ funds_okD(5) [OF ok sub] by simp
  moreover have "funds_ok ext st1"
    using rm_subnet_inv [OF funds_okD(1) [OF ok] sub st1] ok
    by (auto simp: funds_ok_def n delete_subnet_def split: if_splits)
  ultimately show ?thesis
    using send_value_pays [OF send pays] assms(3) by (simp add: no_loss_def surplus_def)
qed

lemma collect_cross_fee_Inr [simp]:
  "collect_cross_fee balance fee = Inr r \<longleftrightarrow> fee \<le> balance \<and> r = balance - fee"
  by (auto simp: collect_cross_fee_def)

lemma fund_Inr:
  fixes env :: "('a, 'm) msg_env_scheme"
  assumes "fund ext sender env params w = Inr (u, w')"
  shows "\<exists>m cm' st1. caller_signable env \<and> 0 < value_received env \<and> CROSS_MSG_FEE \<le> value_received env \<and>
    msg_value m = value_received env - CROSS_MSG_FEE \<and> subnet_of (msg_to m) = fund_subnet params \<and>
    commit_topdown_msg (resolve_address env) \<lparr>msg = m, wrapped = False\<rparr> (wstate w) = Inr (cm', st1) \<and>
    distribute_crossmsg_fee ext sender (subnet_actor (new_id ext) (fund_subnet params)) CROSS_MSG_FEE
      (w\<lparr>wstate := st1\<rparr>) = Inr w'"
proof -
  have v: "msg_value m = v \<and> subnet_of (msg_to m) = s" if "new_fund_msg s f t v = Inr m" for s and f t :: 'a and v m
    using that by (auto simp: new_fund_msg_def split: option.splits)
  from assms show ?thesis
    unfolding fund_def Let_def by (auto split: if_splits dest!: v)
qed

lemma fund_funds:
  assumes ok: "funds_ok ext (wstate w)" and pays: "sender_pays sender"
    and f: "fund ext sender env params w = Inr (u, w')"
  shows "no_loss ext (value_received env) w w'"
proof -
  from fund_Inr [OF f] obtain m cm' st1 where v: "CROSS_MSG_FEE \<le> value_received env"
    "msg_value m = value_received env - CROSS_MSG_FEE"
    and c: "commit_topdown_msg (resolve_address env) \<lparr>msg = m, wrapped = False\<rparr> (wstate w) = Inr (cm', st1)"
    and d: "distribute_crossmsg_fee ext sender (subnet_actor (new_id ext) (fund_subnet params)) CROSS_MSG_FEE
      (w\<lparr>wstate := st1\<rparr>) = Inr w'" by blast
  have "0 \<le> msg_value (msg \<lparr>msg = m, wrapped = False\<rparr>)" using v by simp
  from commit_topdown_msg_funds [OF ok this c] distribute_crossmsg_fee_pays [OF d pays] v
  show ?thesis by (simp add: no_loss_def surplus_def)
qed

lemma release_Inr:
  fixes env :: "('a, 'm) msg_env_scheme"
  assumes "release ext sender env a w = Inr (u, w')"
  shows "\<exists>m st1. caller_signable env \<and> 0 < value_received env \<and> CROSS_MSG_FEE \<le> value_received env \<and>
    msg_value m = value_received env - CROSS_MSG_FEE \<and>
    commit_bottomup_msg ext \<lparr>msg = m, wrapped = False\<rparr> (curr_epoch env) CROSS_MSG_FEE (wstate w) = Inr st1 \<and>
    burn_bu_funds ext sender (value_received env - CROSS_MSG_FEE) (w\<lparr>wstate := st1\<rparr>) = Inr w'"
proof -
  have v: "msg_value m = v" if "new_release_msg s f t v = Inr m" for s and f t :: 'a and v m
    using that by (auto simp: new_release_msg_def split: option.splits)
  from assms show ?thesis
    unfolding release_def Let_def by (auto split: if_splits dest!: v)
qed

lemma release_funds:
  assumes ok: "funds_ok ext (wstate w)" and pays: "sender_pays sender"
    and r: "release ext sender env a w = Inr (u, w')"
  shows "no_loss ext (value_received env) w w'"
proof -
  from release_Inr [OF r] obtain m st1 where
    c: "commit_bottomup_msg ext \<lparr>msg = m, wrapped = False\<rparr> (curr_epoch env) CROSS_MSG_FEE (wstate w) = Inr st1"
    and d: "burn_bu_funds ext sender (value_received env - CROSS_MSG_FEE) (w\<lparr>wstate := st1\<rparr>) = Inr w'" by blast
  have "(0 :: token_amount) \<le> CROSS_MSG_FEE" by simp
  from commit_bottomup_msg_funds [OF ok this c] burn_bu_funds_pays [OF d pays] this
  show ?thesis by (simp add: no_loss_def surplus_def)
qed

lemma send_cross_Inr:
  assumes "send_cross ext sender env params w = Inr (u, w')"
  shows "\<exists>cm b tfee cm' st1. \<not> caller_signable env \<and> CROSS_MSG_FEE \<le> value_received env \<and>
    msg_value (msg cm) = value_received env - CROSS_MSG_FEE \<and>
    msg_from (msg cm) = new_ipc_address (network_name (wstate w)) (caller env) \<and>
    msg_to (msg cm) = new_ipc_address (params_destination params) (raw_address (msg_to (msg (params_msg params)))) \<and>
    commit_cross_message ext env cm CROSS_MSG_FEE (wstate w) = Inr ((b, tfee, cm'), st1) \<and>
    cross_msg_side_effects ext sender cm' b tfee (w\<lparr>wstate := st1\<rparr>) = Inr w'"
proof -
  let ?m = "(msg (params_msg params))\<lparr>
      msg_to := new_ipc_address (params_destination params) (raw_address (msg_to (msg (params_msg params)))),
      msg_from := new_ipc_address (network_name (wstate w)) (caller env)\<rparr>"
  let ?cm = "(params_msg params)\<lparr>msg := ?m\<lparr>msg_value := value_received env - CROSS_MSG_FEE\<rparr>\<rparr>"
  from assms show ?thesis
    unfolding send_cross_def Let_def by (intro exI [of _ ?cm]) (auto split: if_splits)
qed

lemma send_cross_funds:
  assumes ok: "funds_ok ext (wstate w)" and pays: "sender_pays sender"
    and s: "send_cross ext sender env params w = Inr (u, w')"
  shows "no_loss ext (value_received env) w w'"
proof -
  from send_cross_Inr [OF s] obtain cm b tfee cm' st1 where v: "CROSS_MSG_FEE \<le> value_received env"
      "msg_value (msg cm) = value_received env - CROSS_MSG_FEE"
    and c: "commit_cross_message ext env cm CROSS_MSG_FEE (wstate w) = Inr ((b, tfee, cm'), st1)"
    and e: "cross_msg_side_effects ext sender cm' b tfee (w\<lparr>wstate := st1\<rparr>) = Inr w'" by blast
  have "0 \<le> msg_value (msg cm)" "(0 :: token_amount) \<le> CROSS_MSG_FEE" using v by simp_all
  from commit_and_settle [OF ok this pays c e] v
  show ?thesis by (simp add: no_loss_def surplus_def)
qed

lemma propagate_funds:
  assumes ok: "funds_ok ext (wstate w)" and pays: "sender_pays sender"
    and p: "propagate ext sender env cid w = Inr (u, w')"
  shows "no_loss ext (value_received env) w w'"
proof -
  from propagate_Inr [OF p] obtain item b fee cm st1 w2 where
    item: "postbox (wstate w) cid = Some item" and
    c: "commit_cross_message ext env (item_msg item) CROSS_MSG_FEE (wstate w) = Inr ((b, fee, cm), st1)"
    and e: "cross_msg_side_effects ext sender cm b fee (w\<lparr>wstate := remove_from_postbox cid st1\<rparr>) = Inr w2"
    and w': "if value_received env = CROSS_MSG_FEE then w' = w2
       else send_value sender (caller env) METHOD_SEND (value_received env - CROSS_MSG_FEE) w2 = Inr w'"
    by blast
  have v: "0 \<le> msg_value (msg (item_msg item))" "(0 :: token_amount) \<le> CROSS_MSG_FEE"
    using funds_okD(6) [OF ok item] by (simp_all add: item_value_def)
  note cs = commit_and_settle [OF ok v pays c e]
  have "held (remove_from_postbox cid st1) = held st1 - msg_value (msg (item_msg item))"
    using held_remove_from_postbox [OF cs(1)] cs(2) item by (simp add: item_value_def)
  moreover have "wstate w' = wstate w2 \<and> wbalance w' = wbalance w2 - (value_received env - CROSS_MSG_FEE)"
    using w' send_value_pays [OF _ pays] by (simp split: if_splits)
  ultimately show ?thesis
    using cs funds_ok_remove_from_postbox [OF cs(1), of cid] by (simp add: no_loss_def surplus_def)
qed

lemma whitelist_propagator_Inr:
  assumes "whitelist_propagator ext env params w = Inr (u, w')"
  shows "\<exists>item owners. postbox (wstate w) (whitelist_cid params) = Some item \<and> item_owners item = Some owners \<and>
    caller env \<in> set owners \<and>
    w' = w\<lparr>wstate := put_postbox ext (item\<lparr>item_owners := Some (owners @ whitelist_to_add params)\<rparr>)
      (remove_from_postbox (whitelist_cid params) (wstate w))\<rparr>"
  using assms by (fastforce simp: whitelist_propagator_def load_from_postbox_def swap_postbox_item_def
      split: if_splits option.splits)

lemma whitelist_propagator_funds:
  assumes ok: "funds_ok ext (wstate w)" and "0 \<le> value_received env"
    and p: "whitelist_propagator ext env params w = Inr (u, w')"
  shows "no_loss ext (value_received env) w w'"
proof -
  let ?cid = "whitelist_cid params"
  obtain item owners where item: "postbox (wstate w) ?cid = Some item" and "item_owners item = Some owners"
    and w': "w' = w\<lparr>wstate := put_postbox ext (item\<lparr>item_owners := Some (owners @ whitelist_to_add params)\<rparr>)
                    (remove_from_postbox ?cid (wstate w))\<rparr>"
    using whitelist_propagator_Inr [OF p] by blast
  let ?item = "item\<lparr>item_owners := Some (owners @ whitelist_to_add params)\<rparr>"
  have "item_value ?item = item_value item" by (simp add: item_value_def)
  then show ?thesis
    using held_put_postbox [OF funds_ok_remove_from_postbox [OF ok], of ?item ?cid]
      held_remove_from_postbox [OF ok item] funds_okD(6) [OF ok item] assms(2)
      funds_ok_put_postbox [OF funds_ok_remove_from_postbox [OF ok], of ?item ?cid]
    by (simp add: no_loss_def surplus_def w')
qed

text \<open>
  The methods that do not mint: all but the top-down checkpoints, which pay the messages of the
  parent out of the gateway's own balance, and the first funding of the validators.
\<close>

fun conserving :: "('a, 'c) gateway_call \<Rightarrow> bool" where
  "conserving (SubmitTopDownCheckpoint _) = False"
| "conserving (SetMembership _) = False"
| "conserving (CommitChildCheckpoint c) = honest_values c"
| "conserving _ = True"

lemma gateway_invoke_funds:
  assumes "funds_ok ext (wstate w)" and "sender_pays sender" and "caller_is_id env" and "0 \<le> value_received env"
    and "conserving call" and g: "gateway_invoke ext sender env call w = Inr w'"
  shows "no_loss ext (value_received env) w w'"
proof (cases call)
  case (CommitChildCheckpoint c)
  then obtain u where "commit_child_check ext sender env c w = Inr (u, w')" using g by auto
  with commit_child_check_funds [OF assms(1,2) _ this] assms(4,5) CommitChildCheckpoint
  show ?thesis by (simp add: no_loss_def)
next
  case (InitGenesisEpoch e)
  then have "wstate w' = init_gateway e (wstate w)" "wbalance w' = wbalance w"
    using g by (auto simp: init_genesis_epoch_def split: if_splits)
  with assms(1,4) show ?thesis by (simp add: no_loss_def surplus_def)
qed (use g assms(5) in \<open>auto intro: register_funds add_stake_funds release_stake_funds kill_funds fund_funds
  release_funds send_cross_funds propagate_funds whitelist_propagator_funds assms(1-4)\<close>)

section \<open>What applying messages leaves alone\<close>

text \<open>The entries of the subnets without the counter of applied messages, and their amounts.\<close>

definition frame :: "('a, 'c) gateway \<Rightarrow> 'a subnet_id \<rightharpoonup> ('a, 'c) subnet" where
  "frame st = (\<lambda>k. map_option (\<lambda>sub. sub\<lparr>applied_bottomup_nonce := 0\<rparr>) (subnets st k))"

definition amounts :: "('a, 'c) gateway \<Rightarrow> 'a subnet_id \<rightharpoonup> token_amount \<times> token_amount" where
  "amounts st = (\<lambda>k. map_option (\<lambda>sub. (stake sub, circ_supply sub)) (subnets st k))"

lemma frame_cong: "subnets st' = subnets st \<Longrightarrow> frame st' = frame st"
  by (simp add: frame_def)

lemma frame_amounts: "frame st' = frame st \<Longrightarrow> amounts st' = amounts st"
proof -
  have "amounts st = (\<lambda>k. map_option (\<lambda>sub. (stake sub, circ_supply sub)) (frame st k))" for st :: "('a, 'b) gateway"
    by (simp add: amounts_def frame_def option.map_comp comp_def)
  then show "frame st' = frame st \<Longrightarrow> amounts st' = amounts st" by simp
qed

lemma frame_prev_checkpoint:
  "frame st' = frame st \<Longrightarrow>
     map_option prev_checkpoint (subnets st' k) = map_option prev_checkpoint (subnets st k)"
proof -
  have "map_option prev_checkpoint (subnets st k) = map_option prev_checkpoint (frame st k)"
    for st :: "('a, 'b) gateway"
    by (simp add: frame_def option.map_comp comp_def)
  then show "frame st' = frame st \<Longrightarrow> ?thesis" by simp
qed

lemma amounts_flush_subnet:
  "amounts (flush_subnet sub st) = (amounts st)(sub_id sub \<mapsto> (stake sub, circ_supply sub))"
  by (auto simp: amounts_def)

lemma amounts_cong: "subnets st' = subnets st \<Longrightarrow> amounts st' = amounts st"
  by (simp add: amounts_def)

lemma apply_bottomup_frame:
  assumes "subnets_ok st" and "apply_bottomup env fw cm st = Inr (u, st')"
  shows "frame st' = frame st"
proof -
  obtain sub n where sub: "get_subnet (resolve_address env) fw st = Some sub"
    and st': "st' = flush_subnet (sub\<lparr>applied_bottomup_nonce := n\<rparr>) st"
    using assms(2) by (auto simp: apply_bottomup_def increase_applied_bottomup_def split: option.splits if_splits)
  have "subnets st (sub_id sub) = Some sub" by (rule get_subnet_ok [OF assms(1) sub])
  then show ?thesis
    by (auto simp: st' frame_def)
qed

lemma apply_msg_inner_frame:
  assumes s: "subnets_ok (wstate w)" and pays: "sender_pays sender"
    and a: "apply_msg_inner ext sender env fw cm w = Inr (b, w')"
  shows "frame (wstate w') = frame (wstate w)"
proof -
  have topdown: "frame st1 = frame (wstate w)" if "apply_topdown cm (wstate w) = Inr ((), st1)" for st1
    using that by (auto simp: apply_topdown_def intro: frame_cong split: if_splits)
  have save: "frame st1 = frame st" if "insert_postbox ext ow cm st = (cid, st1)" for ow cid st1 st
    using that by (auto simp: insert_postbox_def put_postbox_def Let_def intro: frame_cong)
  show ?thesis
    using apply_msg_inner_Inr [OF a]
  proof (elim disjE exE conjE)
    fix st1
    assume "apply_bottomup env fw cm (wstate w) = Inr ((), st1)"
      and "cross_msg_send sender cm (raw_address (msg_to (msg cm))) (w\<lparr>wstate := st1\<rparr>) = Inr (b, w')"
    then show ?thesis
      using apply_bottomup_frame [OF s] cross_msg_send_pays(1) [OF _ pays] by fastforce
  next
    fix st1
    assume "apply_topdown cm (wstate w) = Inr ((), st1)"
      and "cross_msg_send sender cm (raw_address (msg_to (msg cm))) (w\<lparr>wstate := st1\<rparr>) = Inr (b, w')"
    then show ?thesis
      using topdown cross_msg_send_pays(1) [OF _ pays] by fastforce
  qed (use save in auto)
qed

lemma apply_msgs_frame:
  assumes "apply_msgs ext sender env fw ms w = Inr w'" and "gateway_inv ext (wstate w)"
    and pays: "sender_pays sender"
  shows "frame (wstate w') = frame (wstate w)"
  using assms(1,2)
proof (induction ms arbitrary: w)
  case Nil
  then show ?case by (simp add: apply_msgs_def)
next
  case (Cons m ms)
  from Cons.prems(1) obtain b w1 where w1: "apply_msg_inner ext sender env fw m w = Inr (b, w1)"
    and rest: "apply_msgs ext sender env fw ms w1 = Inr w'"
    by (auto simp: apply_msgs_def)
  have "gateway_inv ext (wstate w1)"
    by (rule apply_msg_inner_inv [OF w1 sender_pays_keeps [OF pays] Cons.prems(2)])
  from Cons.IH [OF rest this] apply_msg_inner_frame [OF _ pays w1] Cons.prems(2)
  show ?case by (simp add: gateway_inv_def)
qed

lemma commit_child_check_Inr:
  assumes "commit_child_check ext sender env commit w = Inr (u, w')"
  shows "\<exists>st1 w2. sorted_wrt (<) (map cross_nonce (msgs_of commit)) \<and>
    caller env = subnet_actor (new_id ext) (check_source (check_content commit)) \<and>
    commit_child_state ext env commit (wstate w) = Inr ((total_fee commit, checkpoint_msgs commit), st1) \<and>
    apply_msgs ext sender env (check_source (check_content commit)) (msgs_of commit) (w\<lparr>wstate := st1\<rparr>) = Inr w2 \<and>
    distribute_crossmsg_fee ext sender (caller env) (total_fee commit) w2 = Inr w'"
proof -
  obtain fee msgs st1 w2 where s: "ensure_cross_msgs_sorted commit = Inr ()"
    and actor: "caller env = subnet_actor (new_id ext) (check_source (check_content commit))"
    and st1: "commit_child_state ext env commit (wstate w) = Inr ((fee, msgs), st1)"
    and w2: "(case msgs of Some ms \<Rightarrow> apply_msgs ext sender env (check_source (check_content commit)) ms (w\<lparr>wstate := st1\<rparr>)
               | None \<Rightarrow> Inr (w\<lparr>wstate := st1\<rparr>)) = Inr w2"
    and w': "distribute_crossmsg_fee ext sender (subnet_actor (new_id ext) (check_source (check_content commit))) fee w2 = Inr w'"
    using assms by (fastforce simp: commit_child_check_def Let_def split: if_splits)
  have f: "fee = total_fee commit" "msgs = checkpoint_msgs commit"
    using commit_child_state_Inr [OF st1] by blast+
  have "apply_msgs ext sender env (check_source (check_content commit)) (msgs_of commit) (w\<lparr>wstate := st1\<rparr>) = Inr w2"
    using w2 f by (cases "checkpoint_msgs commit") (simp_all add: msgs_of_def apply_msgs_def)
  with s actor st1 w' f show ?thesis
    by (auto simp: ensure_cross_msgs_sorted_iff)
qed

section \<open>A funded child\<close>

text \<open>The registered sample subnet 7 with a circulating supply of 500, its messages and checkpoints.\<close>

definition sample_funded :: "(nat, nat) gateway" where
  "sample_funded =
     set_subnet \<lparr>root = 1, children = [7]\<rparr>
       ((fresh_subnet (sample_env 7 120 False) \<lparr>root = 1, children = [7]\<rparr>)\<lparr>circ_supply := 500\<rparr>) sample_registered"

definition sample_msg :: "nat list \<Rightarrow> token_amount \<Rightarrow> u64 \<Rightarrow> nat cross_msg" where
  "sample_msg dest v n =
     \<lparr>msg = \<lparr>msg_from = \<lparr>subnet_of = \<lparr>root = 1, children = [7]\<rparr>, raw_address = 33\<rparr>,
             msg_to = \<lparr>subnet_of = \<lparr>root = 1, children = dest\<rparr>, raw_address = 44\<rparr>,
             msg_method = 0, msg_params = [], msg_value = v, msg_nonce = n\<rparr>, wrapped = False\<rparr>"

definition sample_checkpoint :: "nat cross_msg list \<Rightarrow> token_amount \<Rightarrow> (nat, nat) bottom_up_checkpoint" where
  "sample_checkpoint ms fee =
     \<lparr>check_content = \<lparr>check_source = \<lparr>root = 1, children = [7]\<rparr>, check_proof = [], check_epoch = 20,
        prev_check = 0, check_children = [], check_batch = \<lparr>batch_msgs = Some ms, batch_fee = fee\<rparr>\<rparr>,
      check_sig = []\<rparr>"

lemma sample_funded_ok: "funds_ok sample_ext sample_funded"
proof -
  let ?sub = "(fresh_subnet (sample_env 7 120 False) \<lparr>root = 1, children = [7]\<rparr>)\<lparr>circ_supply := 500\<rparr> :: (nat, nat) subnet"
  have sub: "sub_id ?sub = \<lparr>root = 1, children = [7]\<rparr>" "subnet_ok (min_stake sample_registered) ?sub"
    by (simp_all add: fresh_subnet_def subnet_ok_def sample_registered_def sample_defs)
  have "sample_funded = flush_subnet ?sub sample_registered"
    by (simp add: sample_funded_def flush_subnet_def sub(1))
  moreover have "gateway_inv sample_ext (flush_subnet ?sub sample_registered)"
    by (rule flush_subnet_inv [OF sample_registered_inv, where
          old = "fresh_subnet (sample_env 7 120 False) \<lparr>root = 1, children = [7]\<rparr>"])
      (use sub in \<open>simp_all add: sample_registered_def\<close>)
  ultimately have "gateway_inv sample_ext sample_funded" by simp
  moreover have "subnets sample_funded = [\<lparr>root = 1, children = [7]\<rparr> \<mapsto> ?sub]" "postbox sample_funded = Map.empty"
    by (simp_all add: sample_funded_def sample_registered_def sample_gateway_def)
  ultimately show ?thesis by (auto simp: funds_ok_def)
qed

lemmas sample_commit_eval = commit_child_check_def commit_child_state_def ensure_cross_msgs_sorted_def
  checkpoint_msgs_def sample_checkpoint_def sample_msg_def sample_defs subnet_actor_def transaction_def
  require_initialized_def sample_funded_def sample_registered_def fresh_subnet_def get_subnet_def f0_id_def
  new_subnet_id_def new_from_parent_def set_subnet_def get_window_checkpoint_def window_epoch_def
  i64_div_def i64_add_def i64_mul_def i64_check_def i64_range_def new_checkpoint_def new_check_data_def
  default_batch_def total_fee_def total_value_def release_supply_def add_child_check_def check_cid_def
  check_data_form_def serialize_batch_def flush_checkpoint_def flush_subnet_def apply_msgs_def
  apply_msg_inner_def apply_type_def ipc_type_def is_bottomup_def common_parent_def apply_bottomup_def
  increase_applied_bottomup_def u64_incr_def cross_msg_send_def recording_send_def
  distribute_crossmsg_fee_def send_value_def insert_postbox_def put_postbox_def cross_nonce_def Let_def

section \<open>Properties\<close>






end
