(* ===== verification/Gateway_Messages.thy ===== *)
theory Gateway_Messages
  imports Gateway_Funds
begin

text \<open>
  Messages and checkpoints of the gateway: who may commit what, in which order messages are executed,
  and where they go next.
\<close>

section \<open>Order of execution\<close>

text \<open>
  The nonces of the messages that a network executes: one counter for what comes from the parent, one
  per child for what comes from below. Seen as an executor of numbered periods, the last executed
  number is one less than the counter and the period is 1.
\<close>

definition apply_step ::
    "('a, 'c) externs \<Rightarrow> ('a, 'c, 'x) gw_sender \<Rightarrow> ('a, 'm) msg_env_scheme \<Rightarrow> 'a subnet_id \<Rightarrow> 'a subnet_id \<Rightarrow>
     ('a, 'c, 'x) gw_world \<Rightarrow> 'a cross_msg \<Rightarrow> ('a, 'c, 'x) gw_world \<Rightarrow> bool" where
  "apply_step ext sender env fw net w cm w' \<longleftrightarrow>
     sender_pays sender \<and> gateway_inv ext (wstate w) \<and> network_name (wstate w) = net \<and>
     (\<exists>b. apply_msg_inner ext sender env fw cm w = Inr (b, w'))"

text \<open>The nonce with which a network executes a message of a kind; \<open>None\<close> when it only passes it on.\<close>

definition executed_here :: "'a subnet_id \<Rightarrow> ipc_msg_type \<Rightarrow> 'a cross_msg \<Rightarrow> int option" where
  "executed_here net kind cm =
     (if subnet_of (msg_to (msg cm)) = net \<and> apply_type (msg cm) net = kind
      then Some (uint (cross_nonce cm)) else None)"

definition bottomup_counter :: "'a subnet_id \<Rightarrow> ('a, 'c) gateway \<Rightarrow> int" where
  "bottomup_counter k st = (case subnets st k of Some sub \<Rightarrow> uint (applied_bottomup_nonce sub) | None \<Rightarrow> 0)"

lemma u64_incr_uint:
  assumes "u64_incr n = Inr m"
  shows "uint m = uint n + 1"
proof -
  have "int (unat m) = int (Suc (unat n))"
    using u64_incr_unat [OF assms] by (simp only:)
  then show ?thesis by simp
qed

lemma apply_bottomup_counter:
  assumes "subnets_ok st" and b: "apply_bottomup env fw cm st = Inr (u, st')"
  shows "uint (cross_nonce cm) = bottomup_counter (f0_id (resolve_address env) fw) st"
    and "bottomup_counter (f0_id (resolve_address env) fw) st' = uint (cross_nonce cm) + 1"
    and "applied_topdown_nonce st' = applied_topdown_nonce st" and "network_name st' = network_name st"
proof -
  from b obtain sub m where sub: "get_subnet (resolve_address env) fw st = Some sub"
    and e: "applied_bottomup_nonce sub = cross_nonce cm" and m: "u64_incr (applied_bottomup_nonce sub) = Inr m"
    and t: "st' = flush_subnet (sub\<lparr>applied_bottomup_nonce := m\<rparr>) st"
    by (auto simp: apply_bottomup_def increase_applied_bottomup_def cross_nonce_def
        split: option.splits if_splits)
  have "sub_id sub = f0_id (resolve_address env) fw" "subnets st (f0_id (resolve_address env) fw) = Some sub"
    using get_subnet_ok(3) [OF assms(1) sub] sub by (simp_all add: get_subnet_def)
  then show "uint (cross_nonce cm) = bottomup_counter (f0_id (resolve_address env) fw) st"
    "bottomup_counter (f0_id (resolve_address env) fw) st' = uint (cross_nonce cm) + 1"
    "applied_topdown_nonce st' = applied_topdown_nonce st" "network_name st' = network_name st"
    using e u64_incr_uint [OF m] by (simp_all add: bottomup_counter_def t)
qed

lemma apply_topdown_counter:
  assumes "apply_topdown cm st = Inr (u, st')"
  shows "uint (cross_nonce cm) = uint (applied_topdown_nonce st)"
    and "uint (applied_topdown_nonce st') = uint (cross_nonce cm) + 1"
    and "bottomup_counter k st' = bottomup_counter k st" and "network_name st' = network_name st"
  using assms u64_incr_uint
  by (auto simp: apply_topdown_def cross_nonce_def bottomup_counter_def split: if_splits)

text \<open>What a message that is applied does to the two counters.\<close>

lemma apply_step_counters:
  assumes "apply_step ext sender env fw net w cm w'"
  shows "network_name (wstate w') = net"
    and "case executed_here net BottomUp cm of
        Some n \<Rightarrow> n = bottomup_counter (f0_id (resolve_address env) fw) (wstate w) \<and>
                  bottomup_counter (f0_id (resolve_address env) fw) (wstate w') = n + 1
      | None \<Rightarrow> bottomup_counter k (wstate w') = bottomup_counter k (wstate w)"
    and "case executed_here net TopDown cm of
        Some n \<Rightarrow> n = uint (applied_topdown_nonce (wstate w)) \<and> uint (applied_topdown_nonce (wstate w')) = n + 1
      | None \<Rightarrow> applied_topdown_nonce (wstate w') = applied_topdown_nonce (wstate w)"
proof -
  have pays: "sender_pays sender" and net: "network_name (wstate w) = net" and s: "subnets_ok (wstate w)"
    using assms by (simp_all add: apply_step_def gateway_inv_def)
  obtain b where a: "apply_msg_inner ext sender env fw cm w = Inr (b, w')"
    using assms by (auto simp: apply_step_def)
  consider (bottomup) st1 where "executed_here net BottomUp cm = Some (uint (cross_nonce cm))"
      "executed_here net TopDown cm = None" "apply_bottomup env fw cm (wstate w) = Inr ((), st1)" "wstate w' = st1"
    | (topdown) st1 where "executed_here net TopDown cm = Some (uint (cross_nonce cm))"
      "executed_here net BottomUp cm = None" "apply_topdown cm (wstate w) = Inr ((), st1)" "wstate w' = st1"
    | (saved) "executed_here net TopDown cm = None" "executed_here net BottomUp cm = None"
      "wstate w' = put_postbox ext \<lparr>item_msg = cm, item_owners = Some [raw_address (msg_from (msg cm))]\<rparr> (wstate w)"
    using a cross_msg_send_pays(1) [OF _ pays] unfolding apply_msg_inner_def Let_def insert_postbox_def
    by (auto simp: net executed_here_def split: ipc_msg_type.splits if_splits)
  then have "network_name (wstate w') = net \<and>
    (case executed_here net BottomUp cm of
        Some n \<Rightarrow> n = bottomup_counter (f0_id (resolve_address env) fw) (wstate w) \<and>
                  bottomup_counter (f0_id (resolve_address env) fw) (wstate w') = n + 1
      | None \<Rightarrow> bottomup_counter k (wstate w') = bottomup_counter k (wstate w)) \<and>
    (case executed_here net TopDown cm of
        Some n \<Rightarrow> n = uint (applied_topdown_nonce (wstate w)) \<and> uint (applied_topdown_nonce (wstate w')) = n + 1
      | None \<Rightarrow> applied_topdown_nonce (wstate w') = applied_topdown_nonce (wstate w))"
  proof cases
    case bottomup
    with apply_bottomup_counter [OF s bottomup(3)] net show ?thesis by simp
  next
    case topdown
    with apply_topdown_counter [OF topdown(3)] net show ?thesis by simp
  next
    case saved
    then show ?thesis
      using net by (auto simp: put_postbox_def bottomup_counter_def)
  qed
  then show "network_name (wstate w') = net"
    "case executed_here net BottomUp cm of
        Some n \<Rightarrow> n = bottomup_counter (f0_id (resolve_address env) fw) (wstate w) \<and>
                  bottomup_counter (f0_id (resolve_address env) fw) (wstate w') = n + 1
      | None \<Rightarrow> bottomup_counter k (wstate w') = bottomup_counter k (wstate w)"
    "case executed_here net TopDown cm of
        Some n \<Rightarrow> n = uint (applied_topdown_nonce (wstate w)) \<and> uint (applied_topdown_nonce (wstate w')) = n + 1
      | None \<Rightarrow> applied_topdown_nonce (wstate w') = applied_topdown_nonce (wstate w)"
    by blast+
qed

interpretation bottomup_executor: sequential_executor "apply_step ext sender env fw net"
  "\<lambda>w. bottomup_counter (f0_id (resolve_address env) fw) (wstate w) - 1" "\<lambda>_. 1" "executed_here net BottomUp"
  by unfold_locales (auto dest: apply_step_counters(2))

interpretation topdown_executor: sequential_executor "apply_step ext sender env fw net"
  "\<lambda>w. uint (applied_topdown_nonce (wstate w)) - 1" "\<lambda>_. 1" "executed_here net TopDown"
  by unfold_locales (auto dest: apply_step_counters(3))

text \<open>The loop over the messages of a checkpoint is a run of that executor.\<close>

lemma apply_msgs_run:
  assumes "apply_msgs ext sender env fw ms w = Inr w'" and "gateway_inv ext (wstate w)" and pays: "sender_pays sender"
  shows "run (apply_step ext sender env fw (network_name (wstate w))) w ms w'"
  using assms(1,2)
proof (induction ms arbitrary: w)
  case Nil
  then show ?case by (auto simp: apply_msgs_def)
next
  case (Cons m ms)
  from Cons.prems(1) obtain b w1 where w1: "apply_msg_inner ext sender env fw m w = Inr (b, w1)"
    and rest: "apply_msgs ext sender env fw ms w1 = Inr w'"
    by (auto simp: apply_msgs_def)
  have step: "apply_step ext sender env fw (network_name (wstate w)) w m w1"
    using w1 pays Cons.prems(2) by (auto simp: apply_step_def)
  have "gateway_inv ext (wstate w1)"
    by (rule apply_msg_inner_inv [OF w1 sender_pays_keeps [OF pays] Cons.prems(2)])
  from Cons.IH [OF rest this] apply_step_counters(1) [OF step] step show ?case
    by (auto intro: run_cons)
qed

section \<open>A message on its way down\<close>

text \<open>A message from subnet 9 to the registered subnet 7, and its postbox item, owned by its sender.\<close>

definition sample_downward :: "nat cross_msg" where
  "sample_downward =
     \<lparr>msg = \<lparr>msg_from = \<lparr>subnet_of = \<lparr>root = 1, children = [9]\<rparr>, raw_address = 33\<rparr>,
             msg_to = \<lparr>subnet_of = \<lparr>root = 1, children = [7]\<rparr>, raw_address = 44\<rparr>,
             msg_method = 0, msg_params = [], msg_value = 60, msg_nonce = 0\<rparr>, wrapped = False\<rparr>"

definition sample_waiting :: "(nat, nat) gateway" where
  "sample_waiting =
     sample_funded\<lparr>postbox := [60 \<mapsto> \<lparr>item_msg = sample_downward, item_owners = Some [33]\<rparr>]\<rparr>"

text \<open>The sample network with one validator.\<close>

definition sample_governed :: "(nat, nat) gateway" where
  "sample_governed =
     sample_gateway\<lparr>members := new_membership
       (new_validator_set [\<lparr>val_addr = 1, val_net_addr = [], val_weight = 3\<rparr>] 0)\<rparr>"

section \<open>Properties\<close>



text \<open>The state a child checkpoint leaves for the application of its messages.\<close>

lemma commit_child_state_counters:
  assumes "gateway_inv ext st" and "caller_is_id env" and c: "commit_child_state ext env commit st = Inr (r, st1)"
  shows "bottomup_counter k st1 = bottomup_counter k st" and "network_name st1 = network_name st"
proof -
  obtain fee msgs where r: "r = (fee, msgs)" by (cases r)
  from commit_child_state_Inr [OF c [unfolded r]] obtain sub ch' where
    sub: "get_subnet (resolve_address env) (new_from_parent (network_name st) (caller env)) st = Some sub"
    and st1: "st1 = flush_subnet (sub\<lparr>circ_supply := circ_supply sub - (total_value commit + total_fee commit),
        prev_checkpoint := Some commit\<rparr>) (flush_checkpoint ch' st)"
    by blast
  have "subnets st (sub_id sub) = Some sub"
    using get_subnet_ok(1) [OF _ sub] assms(1) by (simp add: gateway_inv_def)
  then show "bottomup_counter k st1 = bottomup_counter k st" "network_name st1 = network_name st"
    by (auto simp: st1 bottomup_counter_def)
qed



text \<open>
  C11: A child checkpoint that is accepted comes from the actor of the subnet it names as its source,
  that subnet is registered under this network and active, the gateway is initialized, its messages are
  strictly ordered by nonce, and it extends the chain: when there was a checkpoint before, the new one
  is for a later epoch and names the cid of the previous one. Afterwards it is the previous checkpoint
  of that subnet.
\<close>

theorem child_checkpoints_chained:
  assumes inv: "gateway_inv ext (wstate w)" and pays: "sender_pays sender" and id: "caller_is_id env"
    and c: "commit_child_check ext sender env commit w = Inr (u, w')"
  shows "\<exists>shid sub sub'. shid = new_from_parent (network_name (wstate w)) (caller env) \<and>
     caller env = subnet_actor (new_id ext) (check_source (check_content commit)) \<and>
     initialized (wstate w) \<and> subnets (wstate w) shid = Some sub \<and> sub_status sub = Active \<and>
     ensure_cross_msgs_sorted commit = Inr () \<and>
     (case prev_checkpoint sub of None \<Rightarrow> True
      | Some prev \<Rightarrow> check_epoch (check_content prev) < check_epoch (check_content commit) \<and>
                    prev_check (check_content commit) = check_cid (check_hash ext) prev) \<and>
     subnets (wstate w') shid = Some sub' \<and> prev_checkpoint sub' = Some commit"
proof -
  let ?shid = "new_from_parent (network_name (wstate w)) (caller env)"
  from commit_child_check_Inr [OF c] obtain st1 w2 where
    sorted: "sorted_wrt (<) (map cross_nonce (msgs_of commit))"
    and actor: "caller env = subnet_actor (new_id ext) (check_source (check_content commit))"
    and st1: "commit_child_state ext env commit (wstate w) = Inr ((total_fee commit, checkpoint_msgs commit), st1)"
    and w2: "apply_msgs ext sender env (check_source (check_content commit)) (msgs_of commit) (w\<lparr>wstate := st1\<rparr>) = Inr w2"
    and w': "distribute_crossmsg_fee ext sender (caller env) (total_fee commit) w2 = Inr w'" by blast
  from commit_child_state_Inr [OF st1] obtain sub ch' where
    init: "initialized (wstate w)" and
    sub: "get_subnet (resolve_address env) ?shid (wstate w) = Some sub" and active: "sub_status sub = Active"
    and chain: "\<forall>prev. prev_checkpoint sub = Some prev \<longrightarrow>
       check_epoch (check_content prev) < check_epoch (check_content commit) \<and>
       prev_check (check_content commit) = check_cid (check_hash ext) prev"
    and st1': "st1 = flush_subnet (sub\<lparr>circ_supply := circ_supply sub - (total_value commit + total_fee commit),
        prev_checkpoint := Some commit\<rparr>) (flush_checkpoint ch' (wstate w))"
    by blast
  have own: "subnets (wstate w) ?shid = Some sub" "sub_id sub = ?shid"
    using get_subnet_ok(3) [OF _ sub] sub id inv
    by (simp_all add: gateway_inv_def caller_is_id_def get_own_subnet [OF id])
  have "gateway_inv ext st1" by (rule commit_child_state_inv [OF inv st1])
  then have "frame (wstate w') = frame st1"
    using apply_msgs_frame [OF w2 _ pays] distribute_crossmsg_fee_pays(1) [OF w' pays] by simp
  from frame_prev_checkpoint [OF this, of ?shid]
  have "map_option prev_checkpoint (subnets (wstate w') ?shid) = Some (Some commit)"
    by (simp add: st1' own)
  with init active actor own chain sorted show ?thesis
    by (auto simp: ensure_cross_msgs_sorted_iff split: option.split)
qed

theorem child_checkpoints_chained_witness:
  "\<exists>w' sub'. commit_child_check sample_ext recording_send (sample_env 7 0 False)
        (sample_checkpoint [sample_msg [] 200 0] 20) (sample_world sample_funded 2000) = Inr ((), w') \<and>
     subnets (wstate w') \<lparr>root = 1, children = [7]\<rparr> = Some sub' \<and>
     prev_checkpoint sub' = Some (sample_checkpoint [sample_msg [] 200 0] 20)"
proof -
  let ?w = "sample_world sample_funded 2000" and ?c = "sample_checkpoint [sample_msg [] 200 0] 20"
  have "\<exists>w'. commit_child_check sample_ext recording_send (sample_env 7 0 False) ?c ?w = Inr ((), w')"
    by (simp add: sample_commit_eval)
  then obtain w' where w': "commit_child_check sample_ext recording_send (sample_env 7 0 False) ?c ?w = Inr ((), w')"
    by blast
  have k: "new_from_parent (network_name (wstate ?w)) (caller (sample_env 7 0 False)) = \<lparr>root = 1, children = [7]\<rparr>"
    by (simp add: sample_world_def sample_funded_def sample_registered_def sample_gateway_def sample_env_def
        new_from_parent_def)
  have "gateway_inv sample_ext (wstate ?w)" "caller_is_id (sample_env 7 0 False)"
    using funds_okD(1) [OF sample_funded_ok] by (simp_all add: sample_world_def caller_is_id_def sample_env_def)
  from child_checkpoints_chained [OF this(1) sender_pays_recording this(2) w'] w' show ?thesis
    by (auto simp: k)
qed

text \<open>
  C26: Committing a message moves it one hop along its route and never fails in an unwrap: while it
  climbs towards the common parent of source and destination it joins the current window checkpoint
  with the next bottom-up nonce and is burnt when it carries value; from the common parent on it is
  numbered and stored for the child of this network that lies on the route to the destination, whose
  circulating supply grows by its value, and the fee is for that child.
\<close>

theorem commit_follows_route:
  assumes inv: "gateway_inv ext st"
    and cp: "common_parent (subnet_of (msg_from (msg cm))) (subnet_of (msg_to (msg cm))) = Some (n, c)"
    and on_route: "ancestor c st_net" "ancestor st_net (subnet_of (msg_from (msg cm))) \<or>
                   ancestor st_net (subnet_of (msg_to (msg cm)))" "st_net = network_name st"
    and ok: "commit_cross_message ext env cm fee st = Inr ((do_burn, tfee, cm'), st')"
  shows "if c \<noteq> st_net \<and> ancestor st_net (subnet_of (msg_from (msg cm)))
    then do_burn = (0 < msg_value (msg cm)) \<and> tfee = 0 \<and> subnets st' = subnets st \<and>
      (\<exists>ch. get_window_checkpoint ext (curr_epoch env) st = Inr ch \<and>
         bottomup_checkpoints st' (check_epoch (check_content ch)) =
           Some (push_cross_msgs (set_nonce (bottomup_nonce st) cm) fee ch)) \<and>
      unat (bottomup_nonce st') = Suc (unat (bottomup_nonce st))
    else \<not> do_burn \<and> tfee = fee \<and> bottomup_checkpoints st' = bottomup_checkpoints st \<and>
      (\<exists>hop k sub sub'. down (subnet_of (msg_to (msg cm))) st_net = Some hop \<and>
         parent hop = Some st_net \<and> ancestor hop (subnet_of (msg_to (msg cm))) \<and>
         k = f0_id (resolve_address env) hop \<and>
         subnets st k = Some sub \<and> subnets st' k = Some sub' \<and>
         topdown_msgs sub' = (topdown_msgs sub)(topdown_nonce sub \<mapsto> set_nonce (topdown_nonce sub) cm) \<and>
         unat (topdown_nonce sub') = Suc (unat (topdown_nonce sub)) \<and>
         circ_supply sub' = circ_supply sub + msg_value (msg cm))"
proof -
  let ?f = "subnet_of (msg_from (msg cm))" and ?t = "subnet_of (msg_to (msg cm))" and ?net = "network_name st"
  have tne: "?t \<noteq> ?net" by (rule commit_cross_message_Inr(1) [OF ok])
  have ncp: "common_parent ?t ?f = Some (n, c)" using cp by (simp add: common_parent_commute)
  note net = on_route(3)
  show ?thesis
  proof (cases "c \<noteq> st_net \<and> ancestor st_net ?f")
    case True
    then have "?f \<noteq> c" using on_route(1) ancestor_antisym by blast
    with True on_route(1) have "apply_type (msg cm) ?net = BottomUp"
      using apply_type_upward [OF cp] net by simp
    with ok tne ncp True have b: "do_burn = (0 < msg_value (msg cm))" "tfee = 0"
      and st': "store_msg_in_checkpoint ext cm (curr_epoch env) fee st = Inr st'"
      by (auto simp: commit_cross_message_def Let_def net commit_bottomup_msg_def)
    with True show ?thesis
      by (auto simp: store_msg_in_checkpoint_def Let_def flush_checkpoint_def u64_incr_unat
          push_cross_msgs_facts(4))
  next
    case False
    have sa: "strict_ancestor ?net ?t"
      using False on_route common_parent_glb(2) [OF cp] tne by (auto simp: strict_ancestor_iff)
    have "apply_type (msg cm) ?net = TopDown \<or> c = ?net"
      using False on_route apply_type_downward [OF cp] by (auto simp: strict_ancestor_iff)
    with ok tne ncp obtain m st1 where st1: "st1 = st \<or> st1 = st\<lparr>applied_topdown_nonce := m\<rparr>"
      and b: "\<not> do_burn" "tfee = fee" and td: "commit_topdown_msg (resolve_address env) cm st1 = Inr (cm', st')"
      by (auto simp: commit_cross_message_def Let_def split: ipc_msg_type.splits if_splits)
    have f: "network_name st1 = ?net" "subnets st1 = subnets st" "bottomup_checkpoints st1 = bottomup_checkpoints st"
      using st1 by auto
    from td obtain hop sub k where hop: "down ?t ?net = Some hop"
      and sub: "get_subnet (resolve_address env) hop st1 = Some sub" and k: "u64_incr (topdown_nonce sub) = Inr k"
      and cm': "cm' = set_nonce (topdown_nonce sub) cm"
      and st': "st' = flush_subnet (sub\<lparr>topdown_msgs := (topdown_msgs sub)(topdown_nonce sub \<mapsto> cm'),
         topdown_nonce := k, circ_supply := circ_supply sub + msg_value (msg cm)\<rparr>) st1"
      by (rule commit_topdown_msg_Inr) (simp add: f)
    have "parent hop = Some ?net" "ancestor hop ?t"
      using hop down_from_ancestor [OF sa] down_ancestor [OF hop] by auto
    moreover have "sub_id sub = f0_id (resolve_address env) hop"
      using get_subnet_ok(3) [OF _ sub] inv st1 subnets_ok_cong [of st1 st] by (auto simp: gateway_inv_def)
    ultimately show ?thesis
      using False b hop sub u64_incr_unat [OF k] by (auto simp: st' f net cm' get_subnet_def)
  qed
qed

theorem commit_follows_route_witness:
  "\<exists>cm' st' sub'. commit_cross_message sample_ext (sample_env 9 0 False) sample_downward 5 sample_funded =
       Inr ((False, 5, cm'), st') \<and>
     subnets st' \<lparr>root = 1, children = [7]\<rparr> = Some sub' \<and> circ_supply sub' = 560"
proof -
  let ?env = "sample_env 9 0 False" and ?net = "\<lparr>root = 1, children = []\<rparr> :: nat subnet_id"
  have "\<exists>cm' st'. commit_cross_message sample_ext ?env sample_downward 5 sample_funded = Inr ((False, 5, cm'), st')"
    by (simp add: commit_cross_message_def commit_topdown_msg_def down_def set_nonce_def store_topdown_msg_def
        sample_downward_def sample_commit_eval)
  then obtain cm' st' where ok:
    "commit_cross_message sample_ext ?env sample_downward 5 sample_funded = Inr ((False, 5, cm'), st')" by blast
  have net: "?net = network_name sample_funded"
    by (simp add: sample_funded_def sample_registered_def sample_gateway_def)
  have cp: "common_parent (subnet_of (msg_from (msg sample_downward))) (subnet_of (msg_to (msg sample_downward))) =
      Some (0, ?net)"
    by (simp add: sample_downward_def common_parent_def common_children_def new_subnet_id_def)
  have "ancestor ?net ?net" "ancestor ?net (subnet_of (msg_from (msg sample_downward))) \<or>
      ancestor ?net (subnet_of (msg_to (msg sample_downward)))"
    by (simp_all add: ancestor_def sample_downward_def)
  from commit_follows_route [OF funds_okD(1) [OF sample_funded_ok] cp this net ok]
  obtain hop sub sub' where hop: "down (subnet_of (msg_to (msg sample_downward))) ?net = Some hop"
    and sub: "subnets sample_funded (f0_id (resolve_address ?env) hop) = Some sub"
    and sub': "subnets st' (f0_id (resolve_address ?env) hop) = Some sub'"
      "circ_supply sub' = circ_supply sub + msg_value (msg sample_downward)"
    by auto
  from hop have "f0_id (resolve_address ?env) hop = \<lparr>root = 1, children = [7]\<rparr>"
    by (auto simp: down_def sample_downward_def common_parent_def common_children_def new_subnet_id_def f0_id_def
        sample_env_def)
  with sub sub' ok show ?thesis
    by (auto simp: sample_funded_def sample_downward_def)
qed

text \<open>
  Only an owner of a postbox item (or anyone, for an item without owners) can propagate it, after
  paying the fee; the item leaves the postbox with the message, every other item stays, and the fee
  remainder goes back to the caller: with no side effects to burn or pay, the balance falls by exactly
  the value received less the fee.
\<close>

theorem propagate_needs_owner:
  assumes "sender_pays sender" and "propagate ext sender env cid w = Inr (u, w')"
  shows "\<exists>item cm b tfee st1. postbox (wstate w) cid = Some item \<and>
     (case item_owners item of None \<Rightarrow> True | Some owners \<Rightarrow> caller env \<in> set owners) \<and>
     CROSS_MSG_FEE \<le> value_received env \<and>
     commit_cross_message ext env (item_msg item) CROSS_MSG_FEE (wstate w) = Inr ((b, tfee, cm), st1) \<and>
     postbox (wstate w') = (postbox (wstate w))(cid := None) \<and>
     wbalance w' = wbalance w - (value_received env - CROSS_MSG_FEE) -
       (if b then msg_value (msg (item_msg item)) else 0) - tfee"
proof -
  from propagate_Inr [OF assms(2)] obtain item b fee cm st1 w2 where
    item: "postbox (wstate w) cid = Some item"
    and own: "\<forall>owners. item_owners item = Some owners \<longrightarrow> caller env \<in> set owners"
    and v: "CROSS_MSG_FEE \<le> value_received env"
    and c: "commit_cross_message ext env (item_msg item) CROSS_MSG_FEE (wstate w) = Inr ((b, fee, cm), st1)"
    and e: "cross_msg_side_effects ext sender cm b fee (w\<lparr>wstate := remove_from_postbox cid st1\<rparr>) = Inr w2"
    and w': "if value_received env = CROSS_MSG_FEE then w' = w2
       else send_value sender (caller env) METHOD_SEND (value_received env - CROSS_MSG_FEE) w2 = Inr w'"
    by blast
  have rest: "wstate w' = wstate w2 \<and> wbalance w' = wbalance w2 - (value_received env - CROSS_MSG_FEE)"
    using w' send_value_pays [OF _ assms(1)] by (simp split: if_splits)
  have st1: "postbox st1 = postbox (wstate w) \<and> msg_value (msg cm) = msg_value (msg (item_msg item))"
    using commit_cross_message_Inr(2) [OF c]
  proof (elim disjE exE conjE)
    fix m st2
    assume "st2 = (wstate w)\<lparr>applied_topdown_nonce := m\<rparr>"
      "commit_topdown_msg (resolve_address env) (item_msg item) st2 = Inr (cm, st1)"
    then show ?thesis by (auto elim!: commit_topdown_msg_Inr)
  qed (auto elim!: commit_topdown_msg_Inr dest: commit_bottomup_msg_fields(2))
  from item own v c st1 rest cross_msg_side_effects_pays [OF e assms(1)] show ?thesis
    by (intro exI [of _ item] exI [of _ cm] exI [of _ b] exI [of _ fee] exI [of _ st1])
      (auto simp: remove_from_postbox_def split: option.split)
qed

theorem propagate_needs_owner_witness:
  "\<exists>w'. propagate sample_ext recording_send (sample_env 33 CROSS_MSG_FEE True) 60
        (sample_world sample_waiting (10 ^ 12)) = Inr ((), w') \<and>
     postbox (wstate w') = (postbox sample_waiting)(60 := None)"
proof -
  let ?w = "sample_world sample_waiting (10 ^ 12)" and ?env = "sample_env 33 CROSS_MSG_FEE True"
  have "\<exists>w'. propagate sample_ext recording_send ?env 60 ?w = Inr ((), w')"
    by (simp add: propagate_def load_from_postbox_def collect_cross_fee_def remove_from_postbox_def
        sample_waiting_def sample_downward_def commit_cross_message_def commit_topdown_msg_def down_def
        set_nonce_def store_topdown_msg_def cross_msg_side_effects_def CROSS_MSG_FEE_def from_nano_def
        sample_commit_eval)
  then obtain w' where w': "propagate sample_ext recording_send ?env 60 ?w = Inr ((), w')" by blast
  from propagate_needs_owner [OF sender_pays_recording w'] w' show ?thesis
    by (auto simp: sample_world_def)
qed

text \<open>
  Only an owner of a postbox item can add owners, the message of the item stays the same, and the
  owners are the old ones followed by the added ones; an item without owners cannot get any. The item
  moves to the cid of its new content.
\<close>

theorem whitelist_needs_owner:
  assumes "whitelist_propagator ext env params w = Inr (u, w')"
  shows "\<exists>item owners item'. postbox (wstate w) (whitelist_cid params) = Some item \<and>
     item_owners item = Some owners \<and> caller env \<in> set owners \<and>
     item' = item\<lparr>item_owners := Some (owners @ whitelist_to_add params)\<rparr> \<and> item_msg item' = item_msg item \<and>
     postbox (wstate w') = ((postbox (wstate w))(whitelist_cid params := None))(postbox_cid ext item' \<mapsto> item') \<and>
     wbalance w' = wbalance w"
proof -
  from assms obtain item owners where "postbox (wstate w) (whitelist_cid params) = Some item"
    "item_owners item = Some owners" "caller env \<in> set owners"
    "w' = w\<lparr>wstate := put_postbox ext (item\<lparr>item_owners := Some (owners @ whitelist_to_add params)\<rparr>)
            (remove_from_postbox (whitelist_cid params) (wstate w))\<rparr>"
    using whitelist_propagator_Inr by blast
  then show ?thesis by (simp add: put_postbox_def remove_from_postbox_def)
qed

theorem whitelist_needs_owner_witness:
  "\<exists>w' item'. whitelist_propagator sample_ext (sample_env 33 0 True) \<lparr>whitelist_cid = 60, whitelist_to_add = [5]\<rparr>
        (sample_world sample_waiting 0) = Inr ((), w') \<and>
     postbox (wstate w') 60 = Some item' \<and> item_owners item' = Some [33, 5]"
proof -
  let ?p = "\<lparr>whitelist_cid = 60, whitelist_to_add = [5]\<rparr> :: (nat, nat) whitelist_params"
  let ?w = "sample_world sample_waiting 0"
  have "\<exists>w'. whitelist_propagator sample_ext (sample_env 33 0 True) ?p ?w = Inr ((), w')"
    by (simp add: whitelist_propagator_def load_from_postbox_def swap_postbox_item_def transaction_def
        sample_waiting_def sample_world_def sample_env_def)
  then obtain w' where w': "whitelist_propagator sample_ext (sample_env 33 0 True) ?p ?w = Inr ((), w')" by blast
  from whitelist_needs_owner [OF w'] w' show ?thesis
    by (auto simp: sample_world_def sample_waiting_def sample_ext_def sample_downward_def)
qed

text \<open>The top-down messages of a subnet in the order of their nonces, as its validators read them.\<close>

definition topdown_list :: "('a, 'c) subnet \<Rightarrow> 'a cross_msg list" where
  "topdown_list sub = map (\<lambda>i. the (topdown_msgs sub (of_nat i))) [0..<unat (topdown_nonce sub)]"

lemma topdown_list_nonces:
  assumes "subnet_ok lim sub"
  shows "map cross_nonce (topdown_list sub) = map of_nat [0..<unat (topdown_nonce sub)]"
proof -
  have "cross_nonce (the (topdown_msgs sub (of_nat i))) = of_nat i" if "i < unat (topdown_nonce sub)" for i
  proof -
    have "(of_nat i :: u64) < topdown_nonce sub"
      using u64_of_nat_unat [OF that] that by (simp add: word_less_nat_alt)
    then have "topdown_msgs sub (of_nat i) \<noteq> None"
      using assms unfolding subnet_ok_def by blast
    then obtain cm where "topdown_msgs sub (of_nat i) = Some cm" by blast
    then show ?thesis using assms by (simp add: subnet_ok_def)
  qed
  then show ?thesis by (simp add: topdown_list_def)
qed

text \<open>
  What a gateway in a reachable state hands on passes the checks on the other side: the messages of
  every window checkpoint are accepted by the ordering check of the parent's gateway, and the top-down
  messages stored for a child, taken in the order of their nonces, form a top-down checkpoint that gets
  a unique key in the child.
\<close>

theorem stored_messages_pass_checks:
  assumes "gateway_inv ext st"
  shows "(\<forall>ch \<in> ran (bottomup_checkpoints st). ensure_cross_msgs_sorted ch = Inr () \<and>
            check_source (check_content ch) = network_name st) \<and>
         (\<forall>sub \<in> ran (subnets st). topdown_key digest \<lparr>topdown_epoch = e, top_down_msgs = topdown_list sub\<rparr> =
            Inr (digest \<lparr>topdown_epoch = e, top_down_msgs = topdown_list sub\<rparr>))"
proof (intro conjI ballI)
  fix ch assume "ch \<in> ran (bottomup_checkpoints st)"
  then have "check_ok st ch"
    using assms by (auto simp: gateway_inv_def checks_ok_def ran_def)
  then show "ensure_cross_msgs_sorted ch = Inr ()" "check_source (check_content ch) = network_name st"
    by (simp_all add: check_ok_def ensure_cross_msgs_sorted_iff)
next
  fix sub assume "sub \<in> ran (subnets st)"
  then have ok: "subnet_ok (min_stake st) sub"
    using assms by (auto simp: gateway_inv_def subnets_ok_def ran_def)
  have "sorted_wrt (<) (map (of_nat :: nat \<Rightarrow> u64) [0..<unat n])" for n :: u64
    unfolding sorted_wrt_map
    by (rule sorted_wrt_mono_rel [OF _ sorted_wrt_upt])
      (auto simp: word_less_nat_alt u64_of_nat_unat [of _ n])
  with topdown_list_nonces [OF ok] have "sorted_wrt (<) (map cross_nonce (topdown_list sub))" by simp
  then have "ensure_message_sorted cross_nonce (topdown_list sub) = Inr ()"
    by (simp add: ensure_message_sorted_iff)
  then show "topdown_key digest \<lparr>topdown_epoch = e, top_down_msgs = topdown_list sub\<rparr> =
      Inr (digest \<lparr>topdown_epoch = e, top_down_msgs = topdown_list sub\<rparr>)"
    by (simp add: topdown_key_def)
qed

theorem stored_messages_pass_checks_witness:
  "(\<lambda>sub. topdown_key (\<lambda>_. [1]) \<lparr>topdown_epoch = 10, top_down_msgs = topdown_list sub\<rparr>) ` ran (subnets sample_funded)
     = {Inr [1]}"
proof -
  have "ran (subnets sample_funded) \<noteq> {}"
    by (auto simp: sample_funded_def ran_def)
  then show ?thesis
    using stored_messages_pass_checks [OF funds_okD(1) [OF sample_funded_ok], of "\<lambda>_. [1]" 10] by auto
qed



text \<open>
  C37: Funding puts the value received, less the fee, into the circulating supply of the child on the
  way to the funded subnet, as a message with the next top-down nonce of that child, and pays the fee;
  the fee goes to the last actor in the name of the funded subnet, also when that actor is not the one
  of the child (and lives in another network).
\<close>

theorem fund_effect:
  assumes inv: "gateway_inv ext (wstate w)" and pays: "sender_pays sender"
    and f: "fund ext sender env params w = Inr (u, w')"
  shows "\<exists>hop k sub sub' cm. down (fund_subnet params) (network_name (wstate w)) = Some hop \<and>
     k = f0_id (resolve_address env) hop \<and>
     subnets (wstate w) k = Some sub \<and> subnets (wstate w') k = Some sub' \<and>
     msg_value (msg cm) = value_received env - CROSS_MSG_FEE \<and>
     topdown_msgs sub' (topdown_nonce sub) = Some cm \<and>
     circ_supply sub' = circ_supply sub + (value_received env - CROSS_MSG_FEE) \<and>
     wbalance w' = wbalance w - CROSS_MSG_FEE \<and>
     (\<exists>b w1. sender \<lparr>sr_to = subnet_actor (new_id ext) (fund_subnet params),
          sr_method = SUBNET_ACTOR_REWARD_METHOD ext, sr_params = NoParams, sr_value = CROSS_MSG_FEE\<rparr> w1 = Inr (b, w'))"
proof -
  from fund_Inr [OF f] obtain m cm' st1 where v: "msg_value m = value_received env - CROSS_MSG_FEE"
    and to: "subnet_of (msg_to m) = fund_subnet params"
    and c: "commit_topdown_msg (resolve_address env) \<lparr>msg = m, wrapped = False\<rparr> (wstate w) = Inr (cm', st1)"
    and d: "distribute_crossmsg_fee ext sender (subnet_actor (new_id ext) (fund_subnet params)) CROSS_MSG_FEE
      (w\<lparr>wstate := st1\<rparr>) = Inr w'" by blast
  from c obtain hop sub n where hop: "down (fund_subnet params) (network_name (wstate w)) = Some hop"
    and sub: "get_subnet (resolve_address env) hop (wstate w) = Some sub"
    and cm': "cm' = set_nonce (topdown_nonce sub) \<lparr>msg = m, wrapped = False\<rparr>"
    and st1: "st1 = flush_subnet (sub\<lparr>topdown_msgs := (topdown_msgs sub)(topdown_nonce sub \<mapsto> cm'),
       topdown_nonce := n, circ_supply := circ_supply sub + msg_value m\<rparr>) (wstate w)"
    by (rule commit_topdown_msg_Inr) (simp add: to)
  have "sub_id sub = f0_id (resolve_address env) hop" "subnets (wstate w) (f0_id (resolve_address env) hop) = Some sub"
    using get_subnet_ok(3) [OF _ sub] inv sub by (simp_all add: gateway_inv_def get_subnet_def)
  with hop v st1 cm' d distribute_crossmsg_fee_pays [OF d pays] show ?thesis
    by (intro exI [of _ hop] exI [of _ "f0_id (resolve_address env) hop"] exI [of _ sub]
        exI [of _ "sub\<lparr>topdown_msgs := (topdown_msgs sub)(topdown_nonce sub \<mapsto> cm'),
          topdown_nonce := n, circ_supply := circ_supply sub + msg_value m\<rparr>"] exI [of _ cm'])
      (auto simp: distribute_crossmsg_fee_def send_value_def)
qed

theorem fund_effect_witness:
  "\<exists>w' b w1. fund sample_ext recording_send (sample_env 33 (10 ^ 12) True)
        \<lparr>fund_subnet = \<lparr>root = 1, children = [7, 9]\<rparr>, fund_to = 44\<rparr> (sample_world sample_funded (10 ^ 12)) = Inr ((), w') \<and>
     recording_send \<lparr>sr_to = 9, sr_method = 42, sr_params = NoParams, sr_value = CROSS_MSG_FEE\<rparr> w1 =
       Inr (b, w' :: sample_world)"
proof -
  let ?p = "\<lparr>fund_subnet = \<lparr>root = 1, children = [7, 9]\<rparr>, fund_to = 44\<rparr> :: nat fund_params"
  let ?w = "sample_world sample_funded (10 ^ 12)"
  have "\<exists>w'. fund sample_ext recording_send (sample_env 33 (10 ^ 12) True) ?p ?w = Inr ((), w')"
    by (simp add: fund_def is_valid_account_address_def resolved_from_to_def collect_cross_fee_def new_fund_msg_def
        parent_def commit_topdown_msg_def down_def set_nonce_def store_topdown_msg_def CROSS_MSG_FEE_def from_nano_def
        common_children_def new_ipc_address_def sample_commit_eval)
  then obtain w' where w': "fund sample_ext recording_send (sample_env 33 (10 ^ 12) True) ?p ?w = Inr ((), w')" by blast
  have "gateway_inv sample_ext (wstate ?w)" using funds_okD(1) [OF sample_funded_ok] by (simp add: sample_world_def)
  from fund_effect [OF this sender_pays_recording w'] w' show ?thesis
    by (auto simp: subnet_actor_def sample_ext_def SUBNET_ACTOR_REWARD_METHOD_def)
qed

text \<open>
  Before the network is initialized neither child checkpoints nor top-down checkpoints are accepted.
\<close>

theorem uninitialized_refuses_checkpoints:
  assumes "\<not> initialized (wstate w)"
  shows "commit_child_check ext sender env commit w \<in>
       {Inl (ActorError USR_ILLEGAL_ARGUMENT), Inl (ActorError USR_ILLEGAL_STATE)} \<and>
     submit_topdown_check ext sender env cp w \<in>
       {Inl (ActorError USR_FORBIDDEN), Inl (ActorError USR_ILLEGAL_STATE)}"
proof -
  have sorted: "ensure_message_sorted cross_nonce ms \<in> {Inr (), Inl Anyhow}" for ms :: "'a cross_msg list"
    by (induction "cross_nonce :: 'a cross_msg \<Rightarrow> u64" ms rule: ensure_message_sorted.induct) auto
  have "ensure_cross_msgs_sorted commit \<in> {Inr (), Inl Anyhow}"
    using sorted by (auto simp: ensure_cross_msgs_sorted_def split: option.split)
  moreover have "commit_child_state ext env commit (wstate w) = Inl (ActorError USR_ILLEGAL_STATE)"
    "submit_topdown_state ext env cp (wstate w) = Inl (ActorError USR_ILLEGAL_STATE)"
    using assms by (simp_all add: commit_child_state_def submit_topdown_state_def require_initialized_def)
  ultimately show ?thesis
    by (auto simp: commit_child_check_def submit_topdown_check_def transaction_def validate_caller_signable_def Let_def)
qed

theorem uninitialized_refuses_checkpoints_witness:
  "commit_child_check sample_ext recording_send (sample_env 7 0 False) (sample_checkpoint [] 0)
       (sample_world (sample_gateway\<lparr>initialized := False\<rparr>) 0) \<in>
     {Inl (ActorError USR_ILLEGAL_ARGUMENT), Inl (ActorError USR_ILLEGAL_STATE)} \<and>
   submit_topdown_check sample_ext recording_send (sample_env 7 0 False) \<lparr>topdown_epoch = 10, top_down_msgs = []\<rparr>
       (sample_world (sample_gateway\<lparr>initialized := False\<rparr>) 0) \<in>
     {Inl (ActorError USR_FORBIDDEN), Inl (ActorError USR_ILLEGAL_STATE)}"
  by (rule uninitialized_refuses_checkpoints) (simp add: sample_world_def)

text \<open>
  But cross-net messages are: in a network that is not initialized a user can already release funds
  to the parent, and the message enters the window checkpoint.
\<close>

theorem uninitialized_releases_funds:
  "\<exists>w' ch. release sample_ext recording_send (sample_env 33 (10 ^ 12) True) 44
        (sample_world (sample_gateway\<lparr>network_name := \<lparr>root = 1, children = [7]\<rparr>, initialized := False\<rparr>) (10 ^ 12)) =
      Inr ((), w') \<and>
     bottomup_checkpoints (wstate w') 30 = Some ch \<and> length (msgs_of ch) = 1 \<and> \<not> initialized (wstate w')"
  by (simp add: release_def is_valid_account_address_def resolved_from_to_def collect_cross_fee_def
      new_release_msg_def parent_def commit_bottomup_msg_def store_msg_in_checkpoint_def set_nonce_def
      CROSS_MSG_FEE_def from_nano_def new_ipc_address_def push_cross_msgs_def burn_bu_funds_def msgs_of_def
      sample_commit_eval)

end
