(* ===== verification/Gateway_View.thy ===== *)
theory Gateway_View
  imports Gateway_Funds
begin

text \<open>
  What the gateway holds on a registered subnet on behalf of its actor: the collateral, the status
  and the last checkpoint. Every handler changes this view only at the subnet of its caller; the five
  handlers that subnet actors call change it there in the way stated below.
\<close>

type_synonym ('a, 'c) subnet_view = "token_amount \<times> status \<times> ('a, 'c) bottom_up_checkpoint option"

definition view :: "('a, 'c) gateway \<Rightarrow> 'a subnet_id \<rightharpoonup> ('a, 'c) subnet_view" where
  "view st = (\<lambda>k. map_option (\<lambda>sub. (stake sub, sub_status sub, prev_checkpoint sub)) (subnets st k))"

abbreviation own_id :: "('a, 'm) msg_env_scheme \<Rightarrow> ('a, 'c) gateway \<Rightarrow> 'a subnet_id" where
  "own_id env st \<equiv> new_from_parent (network_name st) (caller env)"

text \<open>The fields no handler changes.\<close>

definition same_net :: "('a, 'c) gateway \<Rightarrow> ('a, 'c) gateway \<Rightarrow> bool" where
  "same_net st st' \<longleftrightarrow> network_name st' = network_name st \<and> min_stake st' = min_stake st"

lemma same_netI [simp]:
  "same_net st st" "same_net st (flush_subnet sub st)" "same_net st (flush_checkpoint ch st)"
  by (simp_all add: same_net_def)

lemma view_cong: "subnets st' = subnets st \<Longrightarrow> view st' = view st"
  by (simp add: view_def)

lemma view_SomeD: "view st k = Some (s, b, p) \<Longrightarrow> \<exists>sub. subnets st k = Some sub \<and> stake sub = s \<and>
    sub_status sub = b \<and> prev_checkpoint sub = p"
  by (auto simp: view_def)

lemma view_flush_subnet [simp]:
  "view (flush_subnet sub st) = (view st)(sub_id sub \<mapsto> (stake sub, sub_status sub, prev_checkpoint sub))"
  by (auto simp: view_def)

lemma frame_view: "frame st' = frame st \<Longrightarrow> view st' = view st"
proof -
  have "view st = (\<lambda>k. map_option (\<lambda>sub. (stake sub, sub_status sub, prev_checkpoint sub)) (frame st k))"
    for st :: "('a, 'b) gateway"
    by (simp add: view_def frame_def option.map_comp comp_def)
  then show "frame st' = frame st \<Longrightarrow> view st' = view st" by simp
qed

section \<open>Messages leave the view alone\<close>

lemma commit_topdown_msg_view:
  assumes "subnets_ok st" and "commit_topdown_msg resolve cm st = Inr (cm', st')"
  shows "view st' = view st" and "same_net st st'"
proof -
  from assms(2) obtain hop sub n where sub: "get_subnet resolve hop st = Some sub"
    and st': "st' = flush_subnet (sub\<lparr>topdown_msgs := (topdown_msgs sub)(topdown_nonce sub \<mapsto> cm'),
       topdown_nonce := n, circ_supply := circ_supply sub + msg_value (msg cm)\<rparr>) st"
    by (rule commit_topdown_msg_Inr)
  have "subnets st (sub_id sub) = Some sub" by (rule get_subnet_ok [OF assms(1) sub])
  then have "view st (sub_id sub) = Some (stake sub, sub_status sub, prev_checkpoint sub)"
    by (simp add: view_def)
  then show "view st' = view st" by (auto simp: st')
  show "same_net st st'" by (simp add: st')
qed

lemma commit_bottomup_msg_view:
  assumes "commit_bottomup_msg ext cm e fee st = Inr st'"
  shows "view st' = view st" and "same_net st st'"
proof -
  show "view st' = view st" by (rule view_cong) (rule commit_bottomup_msg_fields [OF assms])
  show "same_net st st'"
    using assms by (auto simp: same_net_def commit_bottomup_msg_def store_msg_in_checkpoint_def Let_def)
qed

lemma commit_cross_message_view:
  assumes ok: "subnets_ok st" and c: "commit_cross_message ext env cm fee st = Inr ((b, tfee, cm'), st')"
  shows "view st' = view st" and "same_net st st'"
proof -
  have t: "view st' = view st \<and> same_net st st'"
    if st1: "st1 = st \<or> st1 = st\<lparr>applied_topdown_nonce := n\<rparr>"
      and c1: "commit_topdown_msg (resolve_address env) cm st1 = Inr (cm', st')" for n st1
  proof -
    have "subnets_ok st1" "view st1 = view st"
      using st1 ok subnets_ok_cong [of st1 st] view_cong [of st1 st] by auto
    with commit_topdown_msg_view [OF this(1) c1] st1 show ?thesis by (auto simp: same_net_def)
  qed
  with commit_cross_message_Inr(2) [OF c] commit_bottomup_msg_view
  show "view st' = view st" "same_net st st'" by blast+
qed

text \<open>Applying messages: besides the frame, the name and the minimum stake stay.\<close>

lemma apply_msg_inner_net:
  assumes pays: "sender_pays sender" and a: "apply_msg_inner ext sender env fw cm w = Inr (b, w')"
  shows "same_net (wstate w) (wstate w')"
proof -
  have bu: "same_net (wstate w) st1" if "apply_bottomup env fw cm (wstate w) = Inr ((), st1)" for st1
    using that by (auto simp: apply_bottomup_def increase_applied_bottomup_def split: option.splits if_splits)
  have td: "same_net (wstate w) st1" if "apply_topdown cm (wstate w) = Inr ((), st1)" for st1
    using that by (auto simp: apply_topdown_def same_net_def split: if_splits)
  have save: "same_net st st1" if "insert_postbox ext ow cm st = (cid, st1)" for ow cid st1 and st :: "('a, 'b) gateway"
    using that by (auto simp: insert_postbox_def put_postbox_def Let_def same_net_def)
  show ?thesis
    using apply_msg_inner_Inr [OF a]
    by (elim disjE exE conjE) (use save in \<open>auto dest!: bu td dest: cross_msg_send_pays(1) [OF _ pays]\<close>)
qed

lemma apply_msgs_net:
  assumes "apply_msgs ext sender env fw ms w = Inr w'" and pays: "sender_pays sender"
  shows "same_net (wstate w) (wstate w')"
proof -
  have "same_net (wstate w) (wstate u')" if "same_net (wstate w) (wstate u)"
    "apply_msg_inner ext sender env fw cm u = Inr (b, u')" for cm u b u'
    using that(1) apply_msg_inner_net [OF pays that(2)] by (simp add: same_net_def)
  then show ?thesis
    by (intro fold_res_invariant [OF _ assms(1) [unfolded apply_msgs_def],
          where P = "\<lambda>u. same_net (wstate w) (wstate u)"]) auto
qed

lemma apply_msgs_view:
  assumes "apply_msgs ext sender env fw ms w = Inr w'" and "gateway_inv ext (wstate w)" and "sender_pays sender"
  shows "view (wstate w') = view (wstate w)" and "same_net (wstate w) (wstate w')"
  using frame_view [OF apply_msgs_frame [OF assms]] apply_msgs_net [OF assms(1,3)] by simp_all

section \<open>The handlers that subnet actors call\<close>

lemma own_subnet_ok:
  assumes "gateway_inv ext st" and "caller_is_id env"
    and "get_subnet (resolve_address env) (own_id env st) st = Some sub"
  shows "sub_id sub = own_id env st" and "subnets st (own_id env st) = Some sub"
proof -
  show own: "subnets st (own_id env st) = Some sub"
    using assms(3) get_own_subnet [OF assms(2), of "network_name st" st] by simp
  with assms(1) show "sub_id sub = own_id env st"
    by (auto simp: gateway_inv_def subnets_ok_def well_keyed_def)
qed

text \<open>The states after registering, killing and changing the stake.\<close>

lemma register_state:
  assumes "register env w = Inr (shid, w')" and id: "caller_is_id env"
  shows "\<exists>n. subnets (wstate w) (own_id env (wstate w)) = None \<and>
    wstate w' = (flush_subnet (fresh_subnet env (own_id env (wstate w))) (wstate w))\<lparr>total_subnets := n\<rparr>"
proof -
  obtain st where none: "subnets (wstate w) (own_id env (wstate w)) = None"
    and r: "register_subnet env (own_id env (wstate w)) (wstate w) = Inr st" and w': "w' = w\<lparr>wstate := st\<rparr>"
    using assms by (auto simp: register_def Let_def get_own_subnet split: option.splits)
  from register_subnet_Inr(3) [OF r none] none w' show ?thesis by auto
qed

lemma kill_state:
  assumes k: "kill sender env w = Inr (u, w')" and id: "caller_is_id env" and pays: "sender_pays sender"
  shows "\<exists>n. subnets (wstate w) (own_id env (wstate w)) \<noteq> None \<and>
    wstate w' = (delete_subnet (own_id env (wstate w)) (wstate w))\<lparr>total_subnets := n\<rparr>"
  using k id
proof (rule kill_Inr)
  let ?k = "own_id env (wstate w)"
  fix sub st1
  assume sub: "subnets (wstate w) ?k = Some sub" and st1: "rm_subnet ?k (wstate w) = Inr st1"
    and s: "send_value sender (caller env) METHOD_SEND (stake sub) (w\<lparr>wstate := st1\<rparr>) = Inr w'"
  from rm_subnet_Inr(2) [OF st1 sub] send_value_pays(1) [OF s pays] sub show ?thesis by auto
qed

lemma stake_state:
  assumes "gateway_invoke ext sender env call w = Inr w'" and "call = AddStake \<or> call = ReleaseStake x"
    and pays: "sender_pays sender"
  shows "\<exists>sub v. get_subnet (resolve_address env) (own_id env (wstate w)) (wstate w) = Some sub \<and>
    wstate w' = add_stake_to v sub (wstate w)"
  using assms(2)
proof
  assume "call = AddStake"
  with assms(1) show ?thesis by (auto simp: add_stake_def Let_def split: if_splits option.splits)
next
  assume "call = ReleaseStake x"
  with assms(1) obtain u where "release_stake sender env x w = Inr (u, w')" by auto
  then show ?thesis by (rule release_stake_Inr) (auto dest!: send_value_pays(1) [OF _ pays])
qed

lemma register_view:
  assumes "register env w = Inr (shid, w')" and id: "caller_is_id env"
  shows "view (wstate w) (own_id env (wstate w)) = None" and "min_stake (wstate w) \<le> value_received env"
    and "view (wstate w') = (view (wstate w))(own_id env (wstate w) \<mapsto> (value_received env, Active, None))"
    and "same_net (wstate w) (wstate w')" and "wbalance w' = wbalance w" and "wrest w' = wrest w"
proof -
  let ?k = "own_id env (wstate w)"
  from register_state [OF assms] obtain n where none: "subnets (wstate w) ?k = None"
    and st: "wstate w' = (flush_subnet (fresh_subnet env ?k) (wstate w))\<lparr>total_subnets := n\<rparr>" by blast
  obtain st' where r: "register_subnet env ?k (wstate w) = Inr st'" and w': "w' = w\<lparr>wstate := st'\<rparr>"
    using assms by (auto simp: register_def Let_def get_own_subnet split: option.splits)
  have "view (wstate w') = view (flush_subnet (fresh_subnet env ?k) (wstate w))"
    by (rule view_cong) (simp add: st)
  then show "view (wstate w') = (view (wstate w))(?k \<mapsto> (value_received env, Active, None))"
    by (simp add: fresh_subnet_def)
  show "view (wstate w) ?k = None" by (simp add: view_def none)
  show "min_stake (wstate w) \<le> value_received env" by (rule register_subnet_Inr(1) [OF r none])
  show "same_net (wstate w) (wstate w')" by (simp add: st same_net_def)
  show "wbalance w' = wbalance w" "wrest w' = wrest w" by (simp_all add: w')
qed

definition status_for :: "token_amount \<Rightarrow> ('a, 'c) gateway \<Rightarrow> status" where
  "status_for s st = (if s < min_stake st then Inactive else Active)"

lemma add_stake_to_view:
  assumes inv: "gateway_inv ext st" and id: "caller_is_id env"
    and sub: "get_subnet (resolve_address env) (own_id env st) st = Some sub"
  shows "view st (own_id env st) = Some (stake sub, sub_status sub, prev_checkpoint sub)"
    and "view (add_stake_to v sub st) =
      (view st)(own_id env st \<mapsto> (stake sub + v, status_for (stake sub + v) st, prev_checkpoint sub))"
    and "same_net st (add_stake_to v sub st)"
  using own_subnet_ok [OF inv id sub]
  by (auto simp: view_def add_stake_to_def Let_def status_for_def)

lemma add_stake_view:
  assumes "add_stake env w = Inr (u, w')" and id: "caller_is_id env" and inv: "gateway_inv ext (wstate w)"
  shows "\<exists>s b p. view (wstate w) (own_id env (wstate w)) = Some (s, b, p) \<and> 0 < value_received env \<and>
     view (wstate w') = (view (wstate w))(own_id env (wstate w) \<mapsto>
       (s + value_received env, status_for (s + value_received env) (wstate w), p)) \<and>
     same_net (wstate w) (wstate w') \<and> wbalance w' = wbalance w \<and> wrest w' = wrest w"
proof -
  obtain sub where sub: "get_subnet (resolve_address env) (own_id env (wstate w)) (wstate w) = Some sub"
    and "w' = w\<lparr>wstate := add_stake_to (value_received env) sub (wstate w)\<rparr>" "0 < value_received env"
    using assms(1) by (auto simp: add_stake_def Let_def split: if_splits option.splits)
  with add_stake_to_view [OF inv id sub] show ?thesis by auto
qed

lemma release_stake_view:
  assumes r: "release_stake sender env v w = Inr (u, w')" and id: "caller_is_id env"
    and inv: "gateway_inv ext (wstate w)" and pays: "sender_pays sender"
  shows "\<exists>s b p st1. view (wstate w) (own_id env (wstate w)) = Some (s, b, p) \<and> 0 < v \<and> v \<le> s \<and>
     view st1 = (view (wstate w))(own_id env (wstate w) \<mapsto> (s - v, status_for (s - v) (wstate w), p)) \<and>
     same_net (wstate w) st1 \<and> wstate w' = st1 \<and>
     send_value sender (caller env) METHOD_SEND v (w\<lparr>wstate := st1\<rparr>) = Inr w'"
  using r
proof (rule release_stake_Inr)
  fix sub
  assume sub: "get_subnet (resolve_address env) (own_id env (wstate w)) (wstate w) = Some sub"
    and v: "0 < v" "v \<le> stake sub"
    and s: "send_value sender (caller env) METHOD_SEND v (w\<lparr>wstate := add_stake_to (- v) sub (wstate w)\<rparr>) = Inr w'"
  have "wstate w' = add_stake_to (- v) sub (wstate w)" using send_value_pays(1) [OF s pays] by simp
  with add_stake_to_view(1) [OF inv id sub] add_stake_to_view(2,3) [OF inv id sub, of "- v"] v s
  show ?thesis by auto
qed

lemma kill_view:
  assumes k: "kill sender env w = Inr (u, w')" and id: "caller_is_id env" and pays: "sender_pays sender"
  shows "\<exists>s b p st1. view (wstate w) (own_id env (wstate w)) = Some (s, b, p) \<and>
     view st1 = (view (wstate w))(own_id env (wstate w) := None) \<and> same_net (wstate w) st1 \<and> wstate w' = st1 \<and>
     send_value sender (caller env) METHOD_SEND s (w\<lparr>wstate := st1\<rparr>) = Inr w'"
  using k id
proof (rule kill_Inr)
  let ?k = "own_id env (wstate w)"
  fix sub st1
  assume sub: "subnets (wstate w) ?k = Some sub" and st1: "rm_subnet ?k (wstate w) = Inr st1"
    and s: "send_value sender (caller env) METHOD_SEND (stake sub) (w\<lparr>wstate := st1\<rparr>) = Inr w'"
  obtain n where st: "st1 = (delete_subnet ?k (wstate w))\<lparr>total_subnets := n\<rparr>"
    using rm_subnet_Inr(2) [OF st1 sub] by blast
  then have "view st1 = (view (wstate w))(?k := None)" "same_net (wstate w) st1"
    by (auto simp: view_def delete_subnet_def same_net_def)
  moreover have "wstate w' = st1" using send_value_pays(1) [OF s pays] by simp
  ultimately show ?thesis using s sub by (auto simp: view_def)
qed

lemma commit_child_state_view:
  assumes inv: "gateway_inv ext st" and id: "caller_is_id env"
    and c: "commit_child_state ext env commit st = Inr ((fee, msgs), st')"
  shows "\<exists>s p. view st (own_id env st) = Some (s, Active, p) \<and>
     (\<forall>prev. p = Some prev \<longrightarrow> check_epoch (check_content prev) < check_epoch (check_content commit) \<and>
        prev_check (check_content commit) = check_cid (check_hash ext) prev) \<and>
     view st' = (view st)(own_id env st \<mapsto> (s, Active, Some commit)) \<and> same_net st st'"
proof -
  from commit_child_state_Inr [OF c] obtain sub ch'
    where sub: "get_subnet (resolve_address env) (own_id env st) st = Some sub" "sub_status sub = Active"
    and prev: "\<forall>prev. prev_checkpoint sub = Some prev \<longrightarrow>
       check_epoch (check_content prev) < check_epoch (check_content commit) \<and>
       prev_check (check_content commit) = check_cid (check_hash ext) prev"
    and st': "st' = flush_subnet (sub\<lparr>circ_supply := circ_supply sub - (total_value commit + total_fee commit),
        prev_checkpoint := Some commit\<rparr>) (flush_checkpoint ch' st)"
    by blast
  have "view (flush_checkpoint ch' st) = view st" by (rule view_cong) simp
  then have "view st' = (view st)(own_id env st \<mapsto> (stake sub, Active, Some commit))"
    using own_subnet_ok [OF inv id sub(1)] sub(2) by (simp add: st')
  moreover have "same_net st st'" by (simp add: st' same_net_def)
  ultimately show ?thesis
    using prev sub(2) own_subnet_ok(2) [OF inv id sub(1)] by (auto simp: view_def)
qed

lemma commit_child_check_view:
  assumes c: "commit_child_check ext sender env commit w = Inr (u, w')" and id: "caller_is_id env"
    and inv: "gateway_inv ext (wstate w)" and pays: "sender_pays sender"
  shows "\<exists>s p. view (wstate w) (own_id env (wstate w)) = Some (s, Active, p) \<and>
     (\<forall>prev. p = Some prev \<longrightarrow> check_epoch (check_content prev) < check_epoch (check_content commit) \<and>
        prev_check (check_content commit) = check_cid (check_hash ext) prev) \<and>
     view (wstate w') = (view (wstate w))(own_id env (wstate w) \<mapsto> (s, Active, Some commit)) \<and>
     same_net (wstate w) (wstate w')"
proof -
  from commit_child_check_Inr [OF c] obtain st1 w2
    where st1: "commit_child_state ext env commit (wstate w) = Inr ((total_fee commit, checkpoint_msgs commit), st1)"
    and a: "apply_msgs ext sender env (check_source (check_content commit)) (msgs_of commit) (w\<lparr>wstate := st1\<rparr>) = Inr w2"
    and d: "distribute_crossmsg_fee ext sender (caller env) (total_fee commit) w2 = Inr w'" by blast
  have "gateway_inv ext (wstate (w\<lparr>wstate := st1\<rparr>))" using commit_child_state_inv [OF inv st1] by simp
  from apply_msgs_view [OF a this pays] distribute_crossmsg_fee_pays(1) [OF d pays]
  have "view (wstate w') = view st1" "same_net st1 (wstate w')" by simp_all
  with commit_child_state_view [OF inv id st1] show ?thesis by (auto simp: same_net_def)
qed

section \<open>Every handler\<close>

text \<open>At the subnets of others, nothing of the view changes.\<close>

definition others_kept :: "'a subnet_id \<Rightarrow> ('a, 'c) gateway \<Rightarrow> ('a, 'c) gateway \<Rightarrow> bool" where
  "others_kept k st st' \<longleftrightarrow> (\<forall>j. j \<noteq> k \<longrightarrow> view st' j = view st j) \<and> same_net st st'"

lemma others_keptI: "view st' = view st \<Longrightarrow> same_net st st' \<Longrightarrow> others_kept k st st'"
  by (simp add: others_kept_def)

lemma fund_view:
  assumes f: "fund ext sender env params w = Inr (u, w')" and inv: "gateway_inv ext (wstate w)" and "sender_pays sender"
  shows "others_kept k (wstate w) (wstate w')"
proof -
  from fund_Inr [OF f] obtain m cm' st1
    where c: "commit_topdown_msg (resolve_address env) \<lparr>msg = m, wrapped = False\<rparr> (wstate w) = Inr (cm', st1)"
    and d: "distribute_crossmsg_fee ext sender (subnet_actor (new_id ext) (fund_subnet params)) CROSS_MSG_FEE
      (w\<lparr>wstate := st1\<rparr>) = Inr w'" by blast
  have "wstate w' = st1" using distribute_crossmsg_fee_pays(1) [OF d assms(3)] by simp
  then show ?thesis
    using commit_topdown_msg_view [OF _ c] inv by (intro others_keptI) (simp_all add: gateway_inv_def)
qed

lemma release_view:
  assumes r: "release ext sender env a w = Inr (u, w')" and "sender_pays sender"
  shows "others_kept k (wstate w) (wstate w')"
proof -
  from release_Inr [OF r] obtain m st1
    where c: "commit_bottomup_msg ext \<lparr>msg = m, wrapped = False\<rparr> (curr_epoch env) CROSS_MSG_FEE (wstate w) = Inr st1"
    and d: "burn_bu_funds ext sender (value_received env - CROSS_MSG_FEE) (w\<lparr>wstate := st1\<rparr>) = Inr w'" by blast
  have "wstate w' = st1" using burn_bu_funds_pays(1) [OF d assms(2)] by simp
  then show ?thesis using commit_bottomup_msg_view [OF c] by (intro others_keptI) simp_all
qed

lemma send_cross_view:
  assumes s: "send_cross ext sender env params w = Inr (u, w')" and inv: "gateway_inv ext (wstate w)"
    and "sender_pays sender"
  shows "others_kept k (wstate w) (wstate w')"
proof -
  from send_cross_Inr [OF s] obtain cm b tfee cm' st1
    where c: "commit_cross_message ext env cm CROSS_MSG_FEE (wstate w) = Inr ((b, tfee, cm'), st1)"
    and e: "cross_msg_side_effects ext sender cm' b tfee (w\<lparr>wstate := st1\<rparr>) = Inr w'" by blast
  have "wstate w' = st1" using cross_msg_side_effects_pays(1) [OF e assms(3)] by simp
  then show ?thesis
    using commit_cross_message_view [OF _ c] inv by (intro others_keptI) (simp_all add: gateway_inv_def)
qed

lemma propagate_state:
  assumes p: "propagate ext sender env cid w = Inr (u, w')" and pays: "sender_pays sender"
  shows "\<exists>item b fee cm st1. postbox (wstate w) cid = Some item \<and>
    commit_cross_message ext env (item_msg item) CROSS_MSG_FEE (wstate w) = Inr ((b, fee, cm), st1) \<and>
    wstate w' = remove_from_postbox cid st1"
proof -
  from propagate_Inr [OF p] obtain item b fee cm st1 w2
    where item: "postbox (wstate w) cid = Some item"
    and c: "commit_cross_message ext env (item_msg item) CROSS_MSG_FEE (wstate w) = Inr ((b, fee, cm), st1)"
    and e: "cross_msg_side_effects ext sender cm b fee (w\<lparr>wstate := remove_from_postbox cid st1\<rparr>) = Inr w2"
    and w': "if value_received env = CROSS_MSG_FEE then w' = w2
       else send_value sender (caller env) METHOD_SEND (value_received env - CROSS_MSG_FEE) w2 = Inr w'"
    by blast
  have "wstate w' = wstate w2" using w' send_value_pays(1) [OF _ pays] by (auto split: if_splits)
  then have "wstate w' = remove_from_postbox cid st1"
    using cross_msg_side_effects_pays(1) [OF e pays] by simp
  with item c show ?thesis by blast
qed

lemma propagate_view:
  assumes p: "propagate ext sender env cid w = Inr (u, w')" and inv: "gateway_inv ext (wstate w)"
    and pays: "sender_pays sender"
  shows "others_kept k (wstate w) (wstate w')"
proof -
  from propagate_state [OF p pays] obtain item b fee cm st1
    where "postbox (wstate w) cid = Some item"
    and c: "commit_cross_message ext env (item_msg item) CROSS_MSG_FEE (wstate w) = Inr ((b, fee, cm), st1)"
    and w': "wstate w' = remove_from_postbox cid st1" by blast
  have "view (remove_from_postbox cid st1) = view st1"
    by (rule view_cong) (simp add: remove_from_postbox_def)
  moreover have "view st1 = view (wstate w)" "same_net (wstate w) st1"
    using commit_cross_message_view [OF _ c] inv by (simp_all add: gateway_inv_def)
  ultimately show ?thesis by (intro others_keptI) (simp_all add: w' same_net_def remove_from_postbox_def)
qed

lemma whitelist_propagator_view:
  assumes "whitelist_propagator ext env params w = Inr (u, w')"
  shows "others_kept k (wstate w) (wstate w')"
proof -
  have "subnets (wstate w') = subnets (wstate w) \<and> same_net (wstate w) (wstate w')"
    using assms
    by (auto simp: whitelist_propagator_def swap_postbox_item_def put_postbox_def remove_from_postbox_def
        same_net_def split: if_splits option.splits)
  then show ?thesis using view_cong [of "wstate w'" "wstate w"] by (intro others_keptI) simp_all
qed

lemma set_membership_state:
  assumes "set_membership ext sender env vs w = Inr (b, w')" and pays: "sender_pays sender"
  shows "wstate w' = set_members vs (wstate w)"
proof -
  let ?send = "\<lambda>v w. send_value sender (val_addr v) METHOD_SEND INITIAL_VALIDATOR_FUNDS w"
  have loop: "wstate w2 = set_members vs (wstate w)"
    if "fold_res ?send (validators vs) (w\<lparr>wstate := set_members vs (wstate w)\<rparr>) = Inr w2" for w2
    by (rule fold_res_invariant [OF _ that, where P = "\<lambda>u. wstate u = set_members vs (wstate w)"])
      (auto simp: send_value_pays(1) [OF _ pays])
  then show ?thesis
    using assms(1) by (auto simp: set_membership_def Let_def split: if_splits intro: loop)
qed

lemma set_membership_view:
  assumes "set_membership ext sender env vs w = Inr (b, w')" and pays: "sender_pays sender"
  shows "others_kept k (wstate w) (wstate w')"
  using set_membership_state [OF assms] view_cong [of "wstate w'" "wstate w"]
  by (intro others_keptI) (simp_all add: set_members_def same_net_def)

lemma init_genesis_epoch_view:
  assumes "init_genesis_epoch ext env g w = Inr (b, w')"
  shows "others_kept k (wstate w) (wstate w')"
proof -
  have "wstate w' = init_gateway g (wstate w)"
    using assms by (auto simp: init_genesis_epoch_def split: if_splits)
  then show ?thesis
    using view_cong [of "wstate w'" "wstate w"] by (intro others_keptI) (simp_all add: init_gateway_def same_net_def)
qed

lemma submit_topdown_check_view:
  assumes "submit_topdown_check ext sender env cp w = Inr (b, w')" and inv: "gateway_inv ext (wstate w)"
    and pays: "sender_pays sender"
  shows "others_kept k (wstate w) (wstate w')"
proof -
  let ?P = "\<lambda>v. gateway_inv ext (wstate v) \<and> view (wstate v) = view (wstate w) \<and> same_net (wstate w) (wstate v)"
  have "?P w'"
  proof (rule submit_topdown_check_keeps [OF assms(1), where P = ?P])
    fix v vt assume "?P v"
    then show "?P (v\<lparr>wstate := (wstate v)\<lparr>topdown_checkpoint_voting := vt\<rparr>\<rparr>)" by (simp add: view_def same_net_def)
  next
    fix ms v v' assume a: "apply_msgs ext sender env UNDEF ms v = Inr v'" and P: "?P v"
    from P have "gateway_inv ext (wstate v)" by simp
    from apply_msgs_view [OF a this pays] apply_msgs_inv [OF a sender_pays_keeps [OF pays] this] P
    show "?P v'" by (simp add: same_net_def)
  qed (use inv in simp)
  then show ?thesis by (intro others_keptI) simp_all
qed

text \<open>The calls of subnet actors are the only ones that change the view.\<close>

fun calls_of_actors :: "('a, 'c) gateway_call \<Rightarrow> bool" where
  "calls_of_actors Register = True"
| "calls_of_actors AddStake = True"
| "calls_of_actors (ReleaseStake _) = True"
| "calls_of_actors Kill = True"
| "calls_of_actors (CommitChildCheckpoint _) = True"
| "calls_of_actors _ = False"

lemma gateway_invoke_quiet:
  assumes g: "gateway_invoke ext sender env call w = Inr w'" and inv: "gateway_inv ext (wstate w)"
    and pays: "sender_pays sender" and q: "\<not> calls_of_actors call"
  shows "others_kept k (wstate w) (wstate w')"
  using g q
  by (cases call) (auto dest: fund_view [OF _ inv pays] release_view [OF _ pays] send_cross_view [OF _ inv pays]
      propagate_view [OF _ inv pays] whitelist_propagator_view submit_topdown_check_view [OF _ inv pays]
      set_membership_view [OF _ pays] init_genesis_epoch_view)

text \<open>The tables of children and checkpoints are as before.\<close>

definition same_tables :: "('a, 'c) gateway \<Rightarrow> ('a, 'c) gateway \<Rightarrow> bool" where
  "same_tables st st' \<longleftrightarrow> subnets st' = subnets st \<and> bottomup_checkpoints st' = bottomup_checkpoints st \<and>
     bottomup_check_period st' = bottomup_check_period st"

text \<open>How a message without a subnet actor behind it changes the tables: it stores one message in a table on
  its way down, or in a checkpoint on its way up, or it leaves the tables alone.\<close>

definition stores_down :: "('a, 'm) msg_env_scheme \<Rightarrow> 'a cross_msg \<Rightarrow> ('a, 'c) gateway \<Rightarrow> ('a, 'c) gateway \<Rightarrow> bool" where
  "stores_down env cm st st' \<longleftrightarrow> (\<exists>st1 cm' st2. (st1 = st \<or> (\<exists>n. st1 = st\<lparr>applied_topdown_nonce := n\<rparr>)) \<and>
     commit_topdown_msg (resolve_address env) cm st1 = Inr (cm', st2) \<and> same_tables st2 st')"

definition stores_up :: "('a, 'c) externs \<Rightarrow> ('a, 'm) msg_env_scheme \<Rightarrow> 'a cross_msg \<Rightarrow> ('a, 'c) gateway \<Rightarrow> ('a, 'c) gateway \<Rightarrow> bool" where
  "stores_up ext env cm st st' \<longleftrightarrow> (\<exists>fee st1. commit_bottomup_msg ext cm (curr_epoch env) fee st = Inr st1 \<and> same_tables st1 st')"

lemma stores_downE:
  assumes "stores_down env cm st st'"
  obtains st1 cm' st2 where "same_tables st st1" "same_tables st2 st'" "subnets_ok st \<longrightarrow> subnets_ok st1"
    "commit_topdown_msg (resolve_address env) cm st1 = Inr (cm', st2)"
proof -
  from assms obtain st1 cm' st2 where st1: "st1 = st \<or> (\<exists>n. st1 = st\<lparr>applied_topdown_nonce := n\<rparr>)"
    and "commit_topdown_msg (resolve_address env) cm st1 = Inr (cm', st2)" "same_tables st2 st'"
    by (auto simp: stores_down_def)
  moreover from st1 have "same_tables st st1" "subnets_ok st \<longrightarrow> subnets_ok st1"
    using subnets_ok_cong [of st1 st] by (auto simp: same_tables_def)
  ultimately show ?thesis by (intro that)
qed

lemma commit_cross_message_stores:
  assumes "commit_cross_message ext env cm fee st = Inr ((b, tfee, cm'), st1)" and "same_tables st1 st'"
  shows "stores_down env cm st st' \<or> stores_up ext env cm st st'"
  using commit_cross_message_Inr(2) [OF assms(1)]
proof
  assume "\<exists>n st0. (st0 = st \<or> st0 = st\<lparr>applied_topdown_nonce := n\<rparr>) \<and> b = False \<and> tfee = fee \<and>
      commit_topdown_msg (resolve_address env) cm st0 = Inr (cm', st1)"
  then obtain n st0 where "st0 = st \<or> st0 = st\<lparr>applied_topdown_nonce := n\<rparr>"
    and "commit_topdown_msg (resolve_address env) cm st0 = Inr (cm', st1)" by blast
  then show ?thesis using assms(2) unfolding stores_down_def by blast
next
  assume "b = (0 < msg_value (msg cm)) \<and> tfee = 0 \<and> cm' = cm \<and> commit_bottomup_msg ext cm (curr_epoch env) fee st = Inr st1"
  then show ?thesis using assms(2) unfolding stores_up_def by blast
qed

fun stores_message :: "('a, 'c) gateway_call \<Rightarrow> bool" where
  "stores_message (Fund _) = True"
| "stores_message (Release _) = True"
| "stores_message (SendCross _) = True"
| "stores_message (Propagate _) = True"
| "stores_message _ = False"

lemma gateway_invoke_stores:
  assumes g: "gateway_invoke ext sender env call w = Inr w'" and pays: "sender_pays sender" and s: "stores_message call"
  shows "\<exists>cm. (funds_ok ext (wstate w) \<longrightarrow> 0 \<le> msg_value (msg cm)) \<and>
      (stores_down env cm (wstate w) (wstate w') \<or> stores_up ext env cm (wstate w) (wstate w'))"
proof (cases call)
  case (Fund p)
  with g obtain u where "fund ext sender env p w = Inr (u, w')" by auto
  from fund_Inr [OF this] obtain m cm' st1 where "CROSS_MSG_FEE \<le> value_received env"
    and m: "msg_value m = value_received env - CROSS_MSG_FEE"
    and c: "commit_topdown_msg (resolve_address env) \<lparr>msg = m, wrapped = False\<rparr> (wstate w) = Inr (cm', st1)"
    and d: "distribute_crossmsg_fee ext sender (subnet_actor (new_id ext) (fund_subnet p)) CROSS_MSG_FEE
      (w\<lparr>wstate := st1\<rparr>) = Inr w'" by blast
  then have "stores_down env \<lparr>msg = m, wrapped = False\<rparr> (wstate w) (wstate w')"
    using distribute_crossmsg_fee_pays(1) [OF d pays] by (auto simp: stores_down_def same_tables_def)
  then show ?thesis using m \<open>CROSS_MSG_FEE \<le> _\<close> by (intro exI [of _ "\<lparr>msg = m, wrapped = False\<rparr>"]) simp
next
  case (Release a)
  with g obtain u where "release ext sender env a w = Inr (u, w')" by auto
  from release_Inr [OF this] obtain m st1 where "CROSS_MSG_FEE \<le> value_received env"
    and m: "msg_value m = value_received env - CROSS_MSG_FEE"
    and c: "commit_bottomup_msg ext \<lparr>msg = m, wrapped = False\<rparr> (curr_epoch env) CROSS_MSG_FEE (wstate w) = Inr st1"
    and d: "burn_bu_funds ext sender (value_received env - CROSS_MSG_FEE) (w\<lparr>wstate := st1\<rparr>) = Inr w'" by blast
  then have "stores_up ext env \<lparr>msg = m, wrapped = False\<rparr> (wstate w) (wstate w')"
    using burn_bu_funds_pays(1) [OF d pays] by (auto simp: stores_up_def same_tables_def)
  then show ?thesis using m \<open>CROSS_MSG_FEE \<le> _\<close> by (intro exI [of _ "\<lparr>msg = m, wrapped = False\<rparr>"]) simp
next
  case (SendCross p)
  with g obtain u where "send_cross ext sender env p w = Inr (u, w')" by auto
  from send_cross_Inr [OF this] obtain cm b tfee cm' st1 where "CROSS_MSG_FEE \<le> value_received env"
    and m: "msg_value (msg cm) = value_received env - CROSS_MSG_FEE"
    and c: "commit_cross_message ext env cm CROSS_MSG_FEE (wstate w) = Inr ((b, tfee, cm'), st1)"
    and d: "cross_msg_side_effects ext sender cm' b tfee (w\<lparr>wstate := st1\<rparr>) = Inr w'" by blast
  from d have "same_tables st1 (wstate w')"
    using cross_msg_side_effects_pays(1) [OF d pays] by (simp add: same_tables_def)
  from commit_cross_message_stores [OF c this] show ?thesis
    using m \<open>CROSS_MSG_FEE \<le> _\<close> by (intro exI [of _ cm]) simp
next
  case (Propagate cid)
  with g obtain u where "propagate ext sender env cid w = Inr (u, w')" by auto
  from propagate_state [OF this pays] obtain item b fee cm st1
    where item: "postbox (wstate w) cid = Some item"
    and c: "commit_cross_message ext env (item_msg item) CROSS_MSG_FEE (wstate w) = Inr ((b, fee, cm), st1)"
    and "wstate w' = remove_from_postbox cid st1" by blast
  from this(3) have "same_tables st1 (wstate w')" by (simp add: same_tables_def remove_from_postbox_def)
  from commit_cross_message_stores [OF c this] funds_okD(6) [OF _ item] show ?thesis
    by (intro exI [of _ "item_msg item"]) (simp add: item_value_def)
qed (use s in simp_all)

lemma gateway_invoke_tables:
  assumes g: "gateway_invoke ext sender env call w = Inr w'" and pays: "sender_pays sender" and q: "\<not> calls_of_actors call"
  shows "same_tables (wstate w) (wstate w') \<or> (\<exists>cp b. submit_topdown_check ext sender env cp w = Inr (b, w')) \<or>
    (\<exists>cm. (funds_ok ext (wstate w) \<longrightarrow> 0 \<le> msg_value (msg cm)) \<and>
      (stores_down env cm (wstate w) (wstate w') \<or> stores_up ext env cm (wstate w) (wstate w')))"
proof (cases call)
  case (WhiteListPropagator p)
  with g obtain u where "whitelist_propagator ext env p w = Inr (u, w')" by auto
  from whitelist_propagator_Inr [OF this] have "same_tables (wstate w) (wstate w')"
    by (auto simp: same_tables_def put_postbox_def remove_from_postbox_def)
  then show ?thesis ..
next
  case (SetMembership vs)
  with g obtain b where "set_membership ext sender env vs w = Inr (b, w')" by auto
  from set_membership_state [OF this pays] show ?thesis by (auto simp: same_tables_def set_members_def)
next
  case (InitGenesisEpoch e)
  with g have "same_tables (wstate w) (wstate w')"
    by (auto simp: same_tables_def init_genesis_epoch_def init_gateway_def split: if_splits)
  then show ?thesis ..
qed (use gateway_invoke_stores [OF g pays] g q in auto)

text \<open>A message of one subnet actor never touches what the gateway holds for another.\<close>

lemma gateway_invoke_others:
  assumes call: "gateway_invoke ext sender env call w = Inr w'" and inv: "gateway_inv ext (wstate w)"
    and id: "caller_is_id env" and pays: "sender_pays sender"
  shows "others_kept (own_id env (wstate w)) (wstate w) (wstate w')"
proof (cases call)
  case Register
  with call register_view [OF _ id] show ?thesis by (fastforce simp: others_kept_def)
next
  case AddStake
  with call add_stake_view [OF _ id inv] show ?thesis by (fastforce simp: others_kept_def)
next
  case (ReleaseStake v)
  with call obtain u where "release_stake sender env v w = Inr (u, w')" by auto
  from release_stake_view [OF this id inv pays] show ?thesis by (auto simp: others_kept_def)
next
  case Kill
  with call obtain u where "kill sender env w = Inr (u, w')" by auto
  from kill_view [OF this id pays] show ?thesis by (auto simp: others_kept_def)
next
  case (CommitChildCheckpoint c)
  with call obtain u where "commit_child_check ext sender env c w = Inr (u, w')" by auto
  from commit_child_check_view [OF this id inv pays] show ?thesis by (auto simp: others_kept_def)
qed (use gateway_invoke_quiet [OF call inv pays] in simp_all)

section \<open>The money and the rest of the world\<close>

text \<open>The balance and the rest of the world change by sends only: a property of the two that every send keeps is
  kept by every handler.\<close>

definition sends_keep_purse :: "(token_amount \<Rightarrow> 'x \<Rightarrow> bool) \<Rightarrow> ('a, 'p, 's, 'x) sender \<Rightarrow> bool" where
  "sends_keep_purse Q sender \<longleftrightarrow> (\<forall>r w b w'. sender r w = Inr (b, w') \<longrightarrow> Q (wbalance w) (wrest w) \<longrightarrow> Q (wbalance w') (wrest w'))"

lemma sends_keep_purseD:
  "sends_keep_purse Q sender \<Longrightarrow> sender r w = Inr (b, w') \<Longrightarrow> Q (wbalance w) (wrest w) \<Longrightarrow> Q (wbalance w') (wrest w')"
  unfolding sends_keep_purse_def by blast

lemma gateway_sends_purse:
  assumes "sends_keep_purse Q sender" and "Q (wbalance w) (wrest w)"
  shows "send_value sender a m v w = Inr w' \<Longrightarrow> Q (wbalance w') (wrest w')"
    and "cross_msg_send sender cm b w = Inr (r, w') \<Longrightarrow> Q (wbalance w') (wrest w')"
    and "distribute_crossmsg_fee ext sender a v w = Inr w' \<Longrightarrow> Q (wbalance w') (wrest w')"
    and "burn_bu_funds ext sender v w = Inr w' \<Longrightarrow> Q (wbalance w') (wrest w')"
proof -
  show v: "Q (wbalance w') (wrest w')" if "send_value sender a m v w = Inr w'" for a m v w'
    using that assms(2) by (auto simp: send_value_def dest: sends_keep_purseD [OF assms(1)])
  show "cross_msg_send sender cm b w = Inr (r, w') \<Longrightarrow> Q (wbalance w') (wrest w')"
    using assms(2) by (auto simp: cross_msg_send_def split: if_splits dest: sends_keep_purseD [OF assms(1)])
  show "distribute_crossmsg_fee ext sender a v w = Inr w' \<Longrightarrow> Q (wbalance w') (wrest w')"
    using v assms(2) by (auto simp: distribute_crossmsg_fee_def split: if_splits)
  show "burn_bu_funds ext sender v w = Inr w' \<Longrightarrow> Q (wbalance w') (wrest w')"
    using v by (auto simp: burn_bu_funds_def)
qed

lemma side_effects_purse:
  assumes "sends_keep_purse Q sender" and "cross_msg_side_effects ext sender cm b fee w = Inr w'" and "Q (wbalance w) (wrest w)"
  shows "Q (wbalance w') (wrest w')"
proof -
  obtain w1 where w1: "(if b then burn_bu_funds ext sender (msg_value (msg cm)) w else Inr w) = Inr w1"
    and r: "(if fee \<noteq> 0
       then and_then (ok_or Panic (down (subnet_of (msg_to (msg cm))) (network_name (wstate w1))))
              (\<lambda>next. distribute_crossmsg_fee ext sender (subnet_actor (new_id ext) next) fee w1)
       else Inr w1) = Inr w'"
    using assms(2) unfolding cross_msg_side_effects_def and_then_Inr by blast
  have w': "(\<exists>a. distribute_crossmsg_fee ext sender a fee w1 = Inr w') \<or> w' = w1"
    using r by (cases "fee = 0") auto
  have "Q (wbalance w1) (wrest w1)" using w1 assms gateway_sends_purse(4) [OF assms(1,3)] by (auto split: if_splits)
  with w' gateway_sends_purse(3) [OF assms(1) this] show ?thesis by auto
qed

lemma apply_msgs_purse:
  assumes keeps: "sends_keep_purse Q sender" and "apply_msgs ext sender env fw ms w = Inr w'" and "Q (wbalance w) (wrest w)"
  shows "Q (wbalance w') (wrest w')"
proof -
  have "Q (wbalance u') (wrest u')" if "Q (wbalance u) (wrest u)" "apply_msg_inner ext sender env fw cm u = Inr (b, u')" for cm u b u'
    using apply_msg_inner_Inr [OF that(2)] gateway_sends_purse(2) [OF keeps, of "u\<lparr>wstate := st\<rparr>" for st] that(1)
    by (elim disjE exE conjE) fastforce+
  then show ?thesis
    by (intro fold_res_invariant [OF _ assms(2) [unfolded apply_msgs_def], where P = "\<lambda>u. Q (wbalance u) (wrest u)"])
      (use assms(3) in auto)
qed

lemma submit_topdown_purse:
  assumes keeps: "sends_keep_purse Q sender" and "submit_topdown_check ext sender env cp w = Inr (b, w')" and q: "Q (wbalance w) (wrest w)"
  shows "Q (wbalance w') (wrest w')"
  by (rule submit_topdown_check_keeps [OF assms(2), where P = "\<lambda>v. Q (wbalance v) (wrest v)"])
    (use q in \<open>auto dest: apply_msgs_purse [OF keeps]\<close>)

lemma gateway_invoke_purse:
  assumes keeps: "sends_keep_purse Q sender" and call: "gateway_invoke ext sender env call w = Inr w'" and q: "Q (wbalance w) (wrest w)"
  shows "Q (wbalance w') (wrest w')"
proof (cases call)
  case (CommitChildCheckpoint c)
  with call obtain u where "commit_child_check ext sender env c w = Inr (u, w')" by auto
  from commit_child_check_Inr [OF this] obtain st1 w2
    where "apply_msgs ext sender env (check_source (check_content c)) (msgs_of c) (w\<lparr>wstate := st1\<rparr>) = Inr w2"
    and d: "distribute_crossmsg_fee ext sender (caller env) (total_fee c) w2 = Inr w'" by blast
  then have "Q (wbalance w2) (wrest w2)" using apply_msgs_purse [OF keeps] q by fastforce
  then show ?thesis using gateway_sends_purse(3) [OF keeps _ d] by blast
next
  case (Propagate cid)
  with call obtain u where "propagate ext sender env cid w = Inr (u, w')" by auto
  from propagate_Inr [OF this] obtain b fee cm st1 w2 where
    e: "cross_msg_side_effects ext sender cm b fee (w\<lparr>wstate := st1\<rparr>) = Inr w2"
    and w': "if value_received env = CROSS_MSG_FEE then w' = w2
       else send_value sender (caller env) METHOD_SEND (value_received env - CROSS_MSG_FEE) w2 = Inr w'"
    by fastforce
  have "Q (wbalance w2) (wrest w2)" using side_effects_purse [OF keeps e] q by simp
  then show ?thesis using w' gateway_sends_purse(1) [OF keeps] by (auto split: if_splits)
next
  case (SubmitTopDownCheckpoint cp)
  with call submit_topdown_purse [OF keeps] q show ?thesis by auto
next
  case (SetMembership vs)
  have loop: "Q (wbalance w2) (wrest w2)"
    if "fold_res (\<lambda>v w. send_value sender (val_addr v) METHOD_SEND INITIAL_VALIDATOR_FUNDS w) (validators vs)
      (w\<lparr>wstate := set_members vs (wstate w)\<rparr>) = Inr w2" for w2
    by (rule fold_res_invariant [OF _ that, where P = "\<lambda>u. Q (wbalance u) (wrest u)"])
      (use q gateway_sends_purse(1) [OF keeps] in auto)
  with call SetMembership q show ?thesis
    by (auto simp: set_membership_def Let_def split: if_splits intro: loop)
qed (use call q in \<open>auto simp: register_def add_stake_def release_stake_def kill_def whitelist_propagator_def
      init_genesis_epoch_def Let_def split: if_splits dest!: gateway_sends_purse [OF keeps, rotated]
      fund_Inr release_Inr send_cross_Inr side_effects_purse [OF keeps]\<close>)

text \<open>In particular a property of the rest of the world.\<close>

lemma gateway_invoke_rest:
  assumes "\<And>r w b w'. sender r w = Inr (b, w') \<Longrightarrow> Q (wrest w) \<Longrightarrow> Q (wrest w')"
    and "gateway_invoke ext sender env call w = Inr w'" and "Q (wrest w)"
  shows "Q (wrest w')"
  by (rule gateway_invoke_purse [where Q = "\<lambda>_. Q", OF _ assms(2,3)]) (use assms(1) in \<open>auto simp: sends_keep_purse_def\<close>)

end
