(* ===== verification/Gateway_Topdown.thy ===== *)
theory Gateway_Topdown
  imports Gateway_Messages Gateway_View
begin

text \<open>
  The counter of top-down messages that the gateway of a network has consumed. It only grows; and sending
  a message of one's own down the hierarchy moves it too, although the parent's messages do not.
\<close>

section \<open>The counter only grows\<close>

definition topdown_reached :: "u64 \<Rightarrow> ('a, 'c) gateway \<Rightarrow> bool" where
  "topdown_reached n st \<longleftrightarrow> n \<le> applied_topdown_nonce st"

lemma topdown_reached_simps [simp]:
  "topdown_reached n (flush_subnet sub st) = topdown_reached n st"
  "topdown_reached n (flush_checkpoint ch st) = topdown_reached n st"
  "topdown_reached n (set_subnet net sub st) = topdown_reached n st"
  "topdown_reached n (delete_subnet net st) = topdown_reached n st"
  "topdown_reached n (put_postbox ext item st) = topdown_reached n st"
  "topdown_reached n (remove_from_postbox cid st) = topdown_reached n st"
  "topdown_reached n (add_stake_to v sub st) = topdown_reached n st"
  "topdown_reached n (set_members vs st) = topdown_reached n st"
  "topdown_reached n (init_gateway g st) = topdown_reached n st"
  "topdown_reached n (st\<lparr>topdown_checkpoint_voting := vt\<rparr>) = topdown_reached n st"
  "topdown_reached n (st\<lparr>bottomup_nonce := bn\<rparr>) = topdown_reached n st"
  "topdown_reached n (st\<lparr>total_subnets := k\<rparr>) = topdown_reached n st"
  by (simp_all add: topdown_reached_def flush_subnet_def flush_checkpoint_def set_subnet_def delete_subnet_def
     put_postbox_def remove_from_postbox_def add_stake_to_def set_members_def init_gateway_def Let_def)

lemma topdown_reached_incr:
  assumes "u64_incr (applied_topdown_nonce st) = Inr m" and "topdown_reached n st"
  shows "topdown_reached n (st\<lparr>applied_topdown_nonce := m\<rparr>)"
  using u64_incr_unat [OF assms(1)] assms(2) by (simp add: topdown_reached_def word_le_nat_alt)

lemma commit_topdown_msg_reached:
  "commit_topdown_msg resolve cm st = Inr (cm', st') \<Longrightarrow> topdown_reached n st' = topdown_reached n st"
  by (auto simp: commit_topdown_msg_def Let_def split: option.splits)

lemma commit_bottomup_msg_reached:
  "commit_bottomup_msg ext cm e fee st = Inr st' \<Longrightarrow> topdown_reached n st' = topdown_reached n st"
  by (auto simp: commit_bottomup_msg_def store_msg_in_checkpoint_def Let_def)

lemma commit_cross_message_reached:
  "commit_cross_message ext env cm fee st = Inr (r, st') \<Longrightarrow> topdown_reached n st \<Longrightarrow> topdown_reached n st'"
  by (auto simp: commit_cross_message_def Let_def commit_topdown_msg_reached commit_bottomup_msg_reached topdown_reached_incr
      split: if_splits ipc_msg_type.splits)

lemma apply_msg_inner_reached:
  assumes "apply_msg_inner ext sender env fw cm w = Inr (b, w')" and "sender_keeps (topdown_reached n) sender"
    and "topdown_reached n (wstate w)"
  shows "topdown_reached n (wstate w')"
  using assms
  by (auto simp: apply_msg_inner_def Let_def insert_postbox_def apply_bottomup_def apply_topdown_def
      increase_applied_bottomup_def topdown_reached_incr split: ipc_msg_type.splits if_splits option.splits
      dest!: cross_msg_send_keeps [where P = "topdown_reached n"])

lemma apply_msgs_reached:
  assumes "apply_msgs ext sender env fw ms w = Inr w'" and "sender_keeps (topdown_reached n) sender"
    and "topdown_reached n (wstate w)"
  shows "topdown_reached n (wstate w')"
  by (rule fold_res_invariant [OF _ assms(1) [unfolded apply_msgs_def], where P = "\<lambda>w. topdown_reached n (wstate w)"])
    (use assms(2,3) in \<open>auto dest: apply_msg_inner_reached\<close>)

lemma commit_child_state_reached:
  "commit_child_state ext env commit st = Inr (r, st') \<Longrightarrow> topdown_reached n st' = topdown_reached n st"
  by (cases r) (auto dest!: commit_child_state_Inr)

lemma submit_topdown_check_reached:
  assumes "submit_topdown_check ext sender env cp w = Inr (b, w')" and "sender_keeps (topdown_reached n) sender"
    and "topdown_reached n (wstate w)"
  shows "topdown_reached n (wstate w')"
  by (rule submit_topdown_check_keeps [OF assms(1), where P = "\<lambda>v. topdown_reached n (wstate v)"])
    (use assms(2,3) in \<open>auto dest: apply_msgs_reached\<close>)

lemma set_membership_reached:
  assumes "set_membership ext sender env vs w = Inr (b, w')" and "sender_keeps (topdown_reached n) sender"
    and "topdown_reached n (wstate w)"
  shows "topdown_reached n (wstate w')"
proof -
  let ?send = "\<lambda>v w. send_value sender (val_addr v) METHOD_SEND INITIAL_VALIDATOR_FUNDS w"
  have loop: "topdown_reached n (wstate w2)"
    if "fold_res ?send (validators vs) (w\<lparr>wstate := set_members vs (wstate w)\<rparr>) = Inr w2" for w2
    by (rule fold_res_invariant [OF _ that, where P = "\<lambda>w. topdown_reached n (wstate w)"])
      (use assms(2,3) in \<open>auto intro: send_value_keeps\<close>)
  from assms(1,3) show ?thesis
    by (auto simp: set_membership_def Let_def split: if_splits intro: loop)
qed

lemma commit_child_check_reached:
  assumes "commit_child_check ext sender env c w = Inr (u, w')" and "sender_keeps (topdown_reached n) sender"
    and "topdown_reached n (wstate w)"
  shows "topdown_reached n (wstate w')"
  using assms
  by (auto simp: commit_child_check_def Let_def commit_child_state_reached split: if_splits option.splits
      dest!: apply_msgs_reached distribute_crossmsg_fee_keeps [where P = "topdown_reached n"])

lemma gateway_invoke_reached:
  assumes "gateway_invoke ext sender env call w = Inr w'" and "sender_keeps (topdown_reached n) sender"
    and "topdown_reached n (wstate w)"
  shows "topdown_reached n (wstate w')"
proof (cases call)
  case (Fund p)
  with assms show ?thesis
    by (auto simp: fund_def Let_def commit_topdown_msg_reached split: if_splits
        dest!: distribute_crossmsg_fee_keeps [where P = "topdown_reached n"])
next
  case (Release a)
  with assms show ?thesis
    by (auto simp: release_def Let_def commit_bottomup_msg_reached split: if_splits
        dest!: burn_bu_funds_keeps [where P = "topdown_reached n"])
next
  case (SendCross p)
  with assms show ?thesis
    by (auto simp: send_cross_def Let_def commit_cross_message_reached split: if_splits
        dest!: cross_msg_side_effects_keeps [where P = "topdown_reached n"])
next
  case (Propagate cid)
  with assms(1) obtain u where "propagate ext sender env cid w = Inr (u, w')" by auto
  from propagate_Inr [OF this] assms(2,3) show ?thesis
    by (auto split: if_splits dest: commit_cross_message_reached dest!: sends_keep [where P = "topdown_reached n"])
next
  case (ReleaseStake v)
  with assms show ?thesis
    by (auto simp: release_stake_def Let_def split: if_splits option.splits dest!: send_value_keeps [where P = "topdown_reached n"])
next
  case Kill
  with assms show ?thesis
    by (auto simp: kill_def rm_subnet_def Let_def split: if_splits option.splits dest!: send_value_keeps [where P = "topdown_reached n"])
qed (use assms in \<open>auto simp: register_def add_stake_def register_subnet_def whitelist_propagator_def swap_postbox_item_def
      init_genesis_epoch_def Let_def split: if_splits option.splits
      dest!: submit_topdown_check_reached set_membership_reached commit_child_check_reached\<close>)

lemma gateway_run_keeps:
  assumes "run (gateway_step ext sender) w evs w'" and "sender_pays sender" and "gateway_inv ext (wstate w)"
  shows "gateway_inv ext (wstate w')" and "network_name (wstate w') = network_name (wstate w)"
    and "topdown_reached n (wstate w) \<Longrightarrow> topdown_reached n (wstate w')"
proof -
  let ?P = "\<lambda>v. gateway_inv ext (wstate v) \<and> network_name (wstate v) = network_name (wstate w) \<and>
    (topdown_reached n (wstate w) \<longrightarrow> topdown_reached n (wstate v))"
  have "?P w'"
  proof (rule run_invariant [OF assms(1), where P = ?P])
    fix u e v
    assume st: "gateway_step ext sender u e v" and P: "?P u"
    obtain env call where e: "e = (env, call)" by (cases e)
    from st have id: "caller_is_id env" and c: "gateway_invoke ext sender env call (credited env u) = Inr v"
      by (auto simp: e elim: gateway_stepE)
    from gateway_invoke_inv [OF c id sender_pays_keeps [OF assms(2)]] gateway_invoke_others [OF c _ id assms(2)]
      gateway_invoke_reached [OF c sender_pays_keeps [OF assms(2)], of n] P
    show "?P v" by (auto simp: others_kept_def same_net_def)
  qed (simp add: assms(3))
  then show "gateway_inv ext (wstate w')" "network_name (wstate w') = network_name (wstate w)"
    "topdown_reached n (wstate w) \<Longrightarrow> topdown_reached n (wstate w')" by simp_all
qed

section \<open>Messages that come too late\<close>

text \<open>A message for this network whose nonce is behind the counter makes its checkpoint fail.\<close>

lemma late_message_refused:
  assumes "gateway_inv ext (wstate w)" and "sender_pays sender" and "cm \<in> set ms"
    and "executed_here (network_name (wstate w)) TopDown cm = Some (uint n)" and "n < applied_topdown_nonce (wstate w)"
  shows "apply_msgs ext sender env fw ms w \<noteq> Inr w'"
proof
  let ?td = "List.map_filter (executed_here (network_name (wstate w)) TopDown) ms"
  assume ok: "apply_msgs ext sender env fw ms w = Inr w'"
  from topdown_executor.run_executes [OF apply_msgs_run [OF ok assms(1,2)]]
  have td: "?td = map (\<lambda>i. uint (applied_topdown_nonce (wstate w)) + int i) [0..<length ?td]" by (simp add: algebra_simps)
  have "uint n \<in> set ?td" using assms(3,4) by (auto simp: in_map_filter_iff)
  then have "uint (applied_topdown_nonce (wstate w)) \<le> uint n" by (subst (asm) td) auto
  with assms(5) show False by (simp add: word_less_def)
qed

text \<open>Sending a message down the hierarchy moves the counter.\<close>

lemma apply_type_own_downward:
  "subnet_of (msg_from m) = net \<Longrightarrow> strict_ancestor net (subnet_of (msg_to m)) \<Longrightarrow> apply_type m net = TopDown"
  by (metis apply_type_BottomUp_iff apply_type_not_BottomUp is_bottomup_iff strict_ancestor_iff)

lemma send_cross_downward:
  assumes "send_cross ext sender env params w = Inr (u, w')" and "sender_pays sender"
    and "strict_ancestor (network_name (wstate w)) (params_destination params)"
  shows "applied_topdown_nonce (wstate w) < applied_topdown_nonce (wstate w')"
    and "network_name (wstate w') = network_name (wstate w)"
proof -
  from send_cross_Inr [OF assms(1)] obtain cm b tfee cm' st1 where
    from_to: "msg_from (msg cm) = new_ipc_address (network_name (wstate w)) (caller env)"
      "msg_to (msg cm) = new_ipc_address (params_destination params) (raw_address (msg_to (msg (params_msg params))))"
    and c: "commit_cross_message ext env cm CROSS_MSG_FEE (wstate w) = Inr ((b, tfee, cm'), st1)"
    and e: "cross_msg_side_effects ext sender cm' b tfee (w\<lparr>wstate := st1\<rparr>) = Inr w'" by blast
  have w': "wstate w' = st1"
    using cross_msg_side_effects_keeps [OF e sender_pays_keeps [OF assms(2)], of "\<lambda>s. s = st1"] by simp
  have "apply_type (msg cm) (network_name (wstate w)) = TopDown"
    by (rule apply_type_own_downward) (simp_all add: from_to assms(3))
  with c obtain n where n: "u64_incr (applied_topdown_nonce (wstate w)) = Inr n"
    and td: "commit_topdown_msg (resolve_address env) cm ((wstate w)\<lparr>applied_topdown_nonce := n\<rparr>) = Inr (cm', st1)"
    by (auto simp: commit_cross_message_def Let_def split: if_splits)
  from td have st1: "applied_topdown_nonce st1 = n" "network_name st1 = network_name (wstate w)"
    by (auto simp: commit_topdown_msg_def Let_def split: option.splits)
  from st1(1) u64_incr_unat [OF n] show "applied_topdown_nonce (wstate w) < applied_topdown_nonce (wstate w')"
    by (simp add: word_less_nat_alt w')
  from st1(2) show "network_name (wstate w') = network_name (wstate w)" by (simp add: w')
qed

section \<open>Properties\<close>

text \<open>
  C32: when an actor of a network sends a message of its own down the hierarchy, the gateway counts it as a
  consumed message of the parent. From then on, whatever happens in between, the message with which the
  parent goes on is refused: every vote that would make a checkpoint with that message executable fails,
  and with it the quorum, so that nothing of the parent is executed any more.
\<close>

theorem downward_send_blocks_parent:
  assumes "gateway_inv ext (wstate w)" and "sender_pays sender"
    and "send_cross ext sender env params w = Inr (u, w1)"
    and "strict_ancestor (network_name (wstate w)) (params_destination params)"
    and "run (gateway_step ext sender) w1 evs w2"
    and "executed_here (network_name (wstate w)) TopDown m = Some (uint (applied_topdown_nonce (wstate w)))"
    and "submit_topdown_state ext env' cp (wstate w2) = Inr (Some c, st)" and "m \<in> set (top_down_msgs c)"
  shows "\<nexists>b w3. submit_topdown_check ext sender env' cp w2 = Inr (b, w3)"
proof
  let ?n = "applied_topdown_nonce (wstate w)"
  assume "\<exists>b w3. submit_topdown_check ext sender env' cp w2 = Inr (b, w3)"
  then obtain b w3 where ok: "apply_msgs ext sender env' UNDEF (top_down_msgs c) (w2\<lparr>wstate := st\<rparr>) = Inr w3"
    using assms(7,8) by (auto simp: submit_topdown_check_def split: if_splits)
  note sent = send_cross_downward [OF assms(3,2,4)]
  have inv1: "gateway_inv ext (wstate w1)"
    by (rule send_cross_inv [OF assms(3) sender_pays_keeps [OF assms(2)] assms(1)])
  note kept = gateway_run_keeps [OF assms(5,2) inv1]
  have st: "applied_topdown_nonce st = applied_topdown_nonce (wstate w2)" "network_name st = network_name (wstate w)"
    using assms(7) kept(2) sent(2) by (auto simp: submit_topdown_state_def split: if_splits)
  have "?n < applied_topdown_nonce st"
    using sent(1) kept(3) [of "applied_topdown_nonce (wstate w1)"] by (simp add: topdown_reached_def st)
  moreover have "gateway_inv ext st" using assms(7) kept(1) by (auto elim: submit_topdown_state_Inr)
  ultimately show False using assms(6) ok
    late_message_refused [OF _ assms(2,8), where w = "w2\<lparr>wstate := st\<rparr>" and n = ?n and fw = UNDEF and env = env']
    by (simp add: st)
qed

text \<open>A network below the root, with one validator and a child of its own.\<close>

definition sample_inner :: "(nat, nat) gateway" where
  "sample_inner =
     set_subnet \<lparr>root = 1, children = [7, 9]\<rparr>
       (fresh_subnet (sample_env 9 120 False) \<lparr>root = 1, children = [7, 9]\<rparr>)
       (sample_governed\<lparr>network_name := \<lparr>root = 1, children = [7]\<rparr>, total_subnets := 1\<rparr>)"

lemma sample_inner_inv: "gateway_inv sample_ext sample_inner"
  by (auto simp: sample_inner_def sample_governed_def sample_gateway_def set_subnet_def fresh_subnet_def sample_env_def
      gateway_inv_def subnets_ok_def subnet_ok_def checks_ok_def postbox_ok_def well_keyed_def parent_def new_subnet_id_def)

text \<open>The parent's first message to an actor of the network, and a checkpoint with it.\<close>

definition sample_from_parent :: "nat cross_msg" where
  "sample_from_parent =
     \<lparr>msg = \<lparr>msg_from = \<lparr>subnet_of = \<lparr>root = 1, children = []\<rparr>, raw_address = 33\<rparr>,
             msg_to = \<lparr>subnet_of = \<lparr>root = 1, children = [7]\<rparr>, raw_address = 44\<rparr>,
             msg_method = 0, msg_params = [], msg_value = 60, msg_nonce = 0\<rparr>, wrapped = False\<rparr>"

definition sample_topdown :: "nat topdown_checkpoint" where
  "sample_topdown = \<lparr>topdown_epoch = 10, top_down_msgs = [sample_from_parent]\<rparr>"

definition sample_own_send :: "nat cross_msg_params" where
  "sample_own_send = \<lparr>params_msg = sample_from_parent\<lparr>msg := (msg sample_from_parent)\<lparr>msg_value := 2 * CROSS_MSG_FEE\<rparr>\<rparr>,
     params_destination = \<lparr>root = 1, children = [7, 9]\<rparr>\<rparr>"

lemmas sample_inner_eval = sample_inner_def sample_governed_def sample_from_parent_def sample_topdown_def sample_own_send_def
  sample_defs send_cross_def commit_cross_message_def commit_topdown_msg_def cross_msg_side_effects_def down_def set_nonce_def
  store_topdown_msg_def collect_cross_fee_def new_ipc_address_def get_subnet_def f0_id_def new_subnet_id_def fresh_subnet_def
  set_subnet_def flush_subnet_def u64_incr_def transaction_def validate_caller_not_signable_def UNDEF_def
  apply_type_def ipc_type_def is_bottomup_def common_parent_def common_children_def distribute_crossmsg_fee_def
  send_value_def recording_send_def subnet_actor_def CROSS_MSG_FEE_def from_nano_def Let_def

lemma sample_vote:
  assumes "initialized st" and "members st = members sample_governed" and "topdown_checkpoint_voting st = new_voting 0 10"
    and cp: "topdown_epoch cp = 10" "ensure_message_sorted cross_nonce (top_down_msgs cp) = Inr ()"
  shows "\<exists>vt. submit_topdown_state sample_ext (sample_env 1 0 True) cp st =
    Inr (Some cp, st\<lparr>topdown_checkpoint_voting := vt\<rparr>)"
proof -
  have "\<exists>vt vt'. submit_vote (topdown_key (topdown_digest sample_ext)) cp 10 (1 :: nat) 3 3 (new_voting 0 10) = Inr (Some cp, vt) \<and>
      mark_epoch_executed 10 vt = Inr vt'"
    using cp by (simp add: voting_eval topdown_key_def mark_epoch_executed_def is_next_executable_epoch_def
        remove_epoch_from_queue_def) blast
  then obtain vt vt' where "submit_vote (topdown_key (topdown_digest sample_ext)) cp 10 (1 :: nat) 3 3 (new_voting 0 10) = Inr (Some cp, vt)"
    "mark_epoch_executed 10 vt = Inr vt'" by blast
  moreover have "get_validator_weight Some 1 (members sample_governed) = Some 3" "total_weight (members sample_governed) = 3"
    by (simp_all add: get_validator_weight_def sample_governed_def new_membership_def new_validator_set_def)
  ultimately show ?thesis
    by (intro exI [of _ vt']) (simp add: submit_topdown_state_def require_initialized_def validate_submitter_def assms
        sample_env_def del: One_nat_def)
qed

lemma sample_topdown_form:
  "topdown_epoch sample_topdown = 10" "ensure_message_sorted cross_nonce (top_down_msgs sample_topdown) = Inr ()"
  by (simp_all add: sample_topdown_def ensure_message_sorted_iff)

lemma sample_own_send_evaluates:
  "\<exists>w1. send_cross sample_ext recording_send (sample_env 33 (2 * CROSS_MSG_FEE) False) sample_own_send
       (sample_world sample_inner (10 ^ 12)) = Inr ((), w1) \<and>
     initialized (wstate w1) \<and> members (wstate w1) = members sample_governed \<and>
     topdown_checkpoint_voting (wstate w1) = new_voting 0 10"
  by (simp add: sample_inner_eval)

lemma sample_topdown_executes:
  "\<exists>w3. submit_topdown_check sample_ext recording_send (sample_env 1 0 True) sample_topdown
       (sample_world sample_inner (10 ^ 12)) = Inr ([], w3)"
proof -
  have "initialized sample_inner" "members sample_inner = members sample_governed"
    "topdown_checkpoint_voting sample_inner = new_voting 0 10"
    by (simp_all add: sample_inner_def sample_governed_def sample_gateway_def)
  from sample_vote [OF this sample_topdown_form] obtain vt where "submit_topdown_state sample_ext (sample_env 1 0 True) sample_topdown sample_inner =
      Inr (Some sample_topdown, sample_inner\<lparr>topdown_checkpoint_voting := vt\<rparr>)" by blast
  then show ?thesis
    by (simp add: submit_topdown_check_def validate_caller_signable_def transaction_def sample_world_def)
      (simp add: apply_msgs_def apply_msg_inner_def apply_topdown_def cross_msg_send_def sample_inner_eval)
qed

theorem downward_send_blocks_parent_witness:
  "\<exists>w1. send_cross sample_ext recording_send (sample_env 33 (2 * CROSS_MSG_FEE) False) sample_own_send
       (sample_world sample_inner (10 ^ 12)) = Inr ((), w1) \<and>
     (\<exists>w3. submit_topdown_check sample_ext recording_send (sample_env 1 0 True) sample_topdown
       (sample_world sample_inner (10 ^ 12)) = Inr ([], w3)) \<and>
     (\<nexists>b w3. submit_topdown_check sample_ext recording_send (sample_env 1 0 True) sample_topdown w1 = Inr (b, w3))"
proof -
  let ?w = "sample_world sample_inner (10 ^ 12)"
  from sample_own_send_evaluates obtain w1 where
    w1: "send_cross sample_ext recording_send (sample_env 33 (2 * CROSS_MSG_FEE) False) sample_own_send ?w = Inr ((), w1)"
    and f: "initialized (wstate w1)" "members (wstate w1) = members sample_governed"
      "topdown_checkpoint_voting (wstate w1) = new_voting 0 10" by blast
  from sample_vote [OF f sample_topdown_form] obtain st where
    v: "submit_topdown_state sample_ext (sample_env 1 0 True) sample_topdown (wstate w1) = Inr (Some sample_topdown, st)"
    by blast
  have inv: "gateway_inv sample_ext (wstate ?w)" using sample_inner_inv by (simp add: sample_world_def)
  have "strict_ancestor (network_name (wstate ?w)) (params_destination sample_own_send)"
    by (simp add: sample_world_def sample_inner_def set_subnet_def sample_own_send_def strict_ancestor_def strict_prefix_def)
  moreover have "executed_here (network_name (wstate ?w)) TopDown sample_from_parent =
      Some (uint (applied_topdown_nonce (wstate ?w)))"
    by (simp add: executed_here_def cross_nonce_def sample_inner_eval)
  moreover have "sample_from_parent \<in> set (top_down_msgs sample_topdown)" by (simp add: sample_topdown_def)
  ultimately show ?thesis
    using downward_send_blocks_parent [OF inv sender_pays_recording w1 _ run_nil _ v] w1 sample_topdown_executes
    by (intro exI [of _ w1]) blast
qed

end
