(* ===== verification/Network_Funds.thy ===== *)
theory Network_Funds
  imports Gateway_Topdown
begin

text \<open>
  The money of a whole network: what its people hold, what its gateway holds for them, and what its
  checkpoints have promised to the parent. Every coin of the network came down from the parent or was
  handed to a validator at the first epoch, and none of it can be sent up twice.
\<close>

section \<open>The books of a network\<close>

text \<open>
  The rest of the world, as far as money is concerned: the coins of all accounts and contracts but the
  gateway and the burnt-funds actor, the coins that were burnt, and the coins that came into the network: with the
  messages of the parent that were executed, and as the first funds of the validators.
\<close>

record ledger =
  circulating :: token_amount
  burnt :: token_amount
  came_down :: token_amount
  granted :: token_amount

text \<open>A send of the gateway pays its receiver, in the books too.\<close>

definition settled :: "('a, 'c) externs \<Rightarrow> 'a \<Rightarrow> token_amount \<Rightarrow> ledger \<Rightarrow> ledger" where
  "settled ext a v l =
     (if a = BURNT_FUNDS_ACTOR_ADDR ext then l\<lparr>burnt := burnt l + v\<rparr> else l\<lparr>circulating := circulating l + v\<rparr>)"

definition settles :: "('a, 'c) externs \<Rightarrow> ('a, 'c, ledger) gw_sender \<Rightarrow> bool" where
  "settles ext sender \<longleftrightarrow> sender_pays sender \<and>
     (\<forall>r w b w'. sender r w = Inr (b, w') \<longrightarrow> wrest w' = settled ext (sr_to r) (sr_value r) (wrest w))"

text \<open>What the checkpoints of a network hand over to the parent: the values and the fees of their messages.\<close>

definition up_amount :: "('a, 'c) bottom_up_checkpoint \<Rightarrow> token_amount" where
  "up_amount c = total_value c + total_fee c"

definition sent_up :: "('a, 'c) gateway \<Rightarrow> token_amount" where
  "sent_up st = table_sum up_amount (bottomup_checkpoints st)"

text \<open>No checkpoint promises a negative amount.\<close>

definition checks_fair :: "('a, 'c) gateway \<Rightarrow> bool" where
  "checks_fair st \<longleftrightarrow> finite (dom (bottomup_checkpoints st)) \<and>
     (\<forall>e c. bottomup_checkpoints st e = Some c \<longrightarrow> 0 \<le> up_amount c)"

definition books_ok :: "('a, 'c) externs \<Rightarrow> ('a, 'c) gateway \<Rightarrow> bool" where
  "books_ok ext st \<longleftrightarrow> funds_ok ext st \<and> checks_fair st"

text \<open>What remains of the money the gateway ever had, once everything it owes and everything it has promised
  to the parent is taken off. The burnt funds count as the money for the promises.\<close>

definition reserve :: "('a, 'c, ledger) gw_world \<Rightarrow> token_amount" where
  "reserve w = surplus w + burnt (wrest w) - sent_up (wstate w)"

definition keeps_reserve :: "('a, 'c) externs \<Rightarrow> token_amount \<Rightarrow> ('a, 'c, ledger) gw_world \<Rightarrow> ('a, 'c, ledger) gw_world \<Rightarrow> bool" where
  "keeps_reserve ext cost w w' \<longleftrightarrow> books_ok ext (wstate w') \<and> reserve w - cost \<le> reserve w'"

lemma settlesD:
  assumes "settles ext sender"
  shows "sender_pays sender"
    and "sender r w = Inr (b, w') \<Longrightarrow> wrest w' = settled ext (sr_to r) (sr_value r) (wrest w)"
  using assms unfolding settles_def by blast+

lemma books_okD: "books_ok ext st \<Longrightarrow> funds_ok ext st" "books_ok ext st \<Longrightarrow> gateway_inv ext st"
    "books_ok ext st \<Longrightarrow> finite (dom (bottomup_checkpoints st))" "books_ok ext st \<Longrightarrow> checks_fair st"
    "books_ok ext st \<Longrightarrow> bottomup_checkpoints st e = Some c \<Longrightarrow> 0 \<le> up_amount c"
  by (auto simp: books_ok_def funds_ok_def checks_fair_def)

section \<open>The books and the sends\<close>

text \<open>Sends move money: the total stays, nothing is unburnt, and nothing comes in.\<close>

definition books_move :: "('a, 'c, ledger) gw_world \<Rightarrow> token_amount \<Rightarrow> ledger \<Rightarrow> bool" where
  "books_move w b l \<longleftrightarrow> circulating l + b + burnt l = circulating (wrest w) + wbalance w + burnt (wrest w) \<and>
     burnt (wrest w) \<le> burnt l \<and> circulating (wrest w) \<le> circulating l \<and> came_down l = came_down (wrest w) \<and> granted l = granted (wrest w)"

lemma books_move_self [simp]: "books_move w (wbalance w) (wrest w)"
  by (simp add: books_move_def)

lemma settles_moves:
  assumes "settles ext sender"
  shows "sends_keep_purse (books_move w) sender"
proof -
  have "books_move w (wbalance v') (wrest v')"
    if "sender r v = Inr (b, v')" and "books_move w (wbalance v) (wrest v)" for r v b v'
    using sender_paysD [OF settlesD(1) [OF assms] that(1)] settlesD(2) [OF assms that(1)] that(2)
    by (auto simp: books_move_def settled_def)
  then show ?thesis unfolding sends_keep_purse_def by blast
qed

lemma burn_settles:
  assumes "burn_bu_funds ext sender v w = Inr w'" and "settles ext sender"
  shows "wbalance w' + burnt (wrest w') = wbalance w + burnt (wrest w)"
  using assms(1) settlesD [OF assms(2)]
  by (auto simp: burn_bu_funds_def send_value_def settled_def dest: sender_paysD)

section \<open>The promises\<close>

lemma sent_up_cong: "bottomup_checkpoints st' = bottomup_checkpoints st \<Longrightarrow> sent_up st' = sent_up st"
  by (simp add: sent_up_def)

lemma checks_fair_cong: "bottomup_checkpoints st' = bottomup_checkpoints st \<Longrightarrow> checks_fair st' = checks_fair st"
  by (simp add: checks_fair_def)

lemma books_voting [simp]:
  "held (st\<lparr>topdown_checkpoint_voting := vt\<rparr>) = held st"
  "sent_up (st\<lparr>topdown_checkpoint_voting := vt\<rparr>) = sent_up st"
  "books_ok ext (st\<lparr>topdown_checkpoint_voting := vt\<rparr>) = books_ok ext st"
  by (simp_all add: held_def sent_up_def books_ok_def funds_ok_def checks_fair_def)

text \<open>Where the checkpoints stay as they are, a method that does not lose funds keeps the reserve.\<close>

lemma no_loss_keeps_reserve:
  assumes "no_loss ext cost w w'" and "bottomup_checkpoints (wstate w') = bottomup_checkpoints (wstate w)"
    and "books_ok ext (wstate w)" and "burnt (wrest w) \<le> burnt (wrest w')"
  shows "keeps_reserve ext cost w w'"
  using assms sent_up_cong [OF assms(2)] checks_fair_cong [OF assms(2)] by (simp add: keeps_reserve_def no_loss_def books_ok_def reserve_def)

text \<open>Writing back the checkpoint of the window counts only what was added to it.\<close>

lemma flush_window_checkpoint:
  assumes ok: "books_ok ext st" and ch: "get_window_checkpoint ext e st = Inr ch"
    and e: "check_epoch (check_content ch') = check_epoch (check_content ch)" and "up_amount ch \<le> up_amount ch'"
  shows "sent_up (flush_checkpoint ch' st) = sent_up st + up_amount ch' - up_amount ch"
    and "checks_fair (flush_checkpoint ch' st)"
proof -
  let ?e = "check_epoch (check_content ch)"
  have "well_keyed bottomup_checkpoints (\<lambda>c. check_epoch (check_content c)) st"
    using books_okD(2) [OF ok] by (auto simp: gateway_inv_def checks_ok_def)
  then have old: "(case bottomup_checkpoints st ?e of None \<Rightarrow> 0 | Some c \<Rightarrow> up_amount c) = up_amount ch"
    using ch by (auto simp: get_window_checkpoint_def well_keyed_def up_amount_def total_value_eq split: if_splits option.splits)
  then show "sent_up (flush_checkpoint ch' st) = sent_up st + up_amount ch' - up_amount ch"
    using table_sum_upd [OF books_okD(3) [OF ok], of up_amount ?e ch'] e by (simp add: sent_up_def flush_checkpoint_def)
  have "0 \<le> up_amount ch"
    using old books_okD(5) [OF ok, of ?e] by (cases "bottomup_checkpoints st ?e") auto
  then show "checks_fair (flush_checkpoint ch' st)"
    using books_okD(4) [OF ok] assms(4) by (auto simp: checks_fair_def flush_checkpoint_def)
qed

lemma commit_bottomup_msg_up:
  assumes ok: "books_ok ext st" and c: "commit_bottomup_msg ext cm e fee st = Inr st'"
    and v: "0 \<le> msg_value (msg cm)" "0 \<le> fee"
  shows "sent_up st' = sent_up st + msg_value (msg cm) + fee" and "checks_fair st'"
proof -
  from c obtain ch n where ch: "get_window_checkpoint ext e st = Inr ch"
    and st': "st' = flush_checkpoint (push_cross_msgs (set_nonce (bottomup_nonce st) cm) fee ch) (st\<lparr>bottomup_nonce := n\<rparr>)"
    by (auto simp: commit_bottomup_msg_def store_msg_in_checkpoint_def Let_def)
  let ?ch = "push_cross_msgs (set_nonce (bottomup_nonce st) cm) fee ch"
  have b: "bottomup_checkpoints st' = bottomup_checkpoints (flush_checkpoint ?ch st)"
    by (simp add: st' flush_checkpoint_def)
  have up: "up_amount ?ch = up_amount ch + msg_value (msg cm) + fee"
    by (simp add: up_amount_def total_value_eq set_nonce_def)
  have e: "check_epoch (check_content ?ch) = check_epoch (check_content ch)" and le: "up_amount ch \<le> up_amount ?ch"
    using v up by simp_all
  from flush_window_checkpoint [OF ok ch e le] up sent_up_cong [OF b] checks_fair_cong [OF b]
  show "sent_up st' = sent_up st + msg_value (msg cm) + fee" "checks_fair st'" by simp_all
qed

lemma commit_child_state_up:
  assumes ok: "books_ok ext st" and c: "commit_child_state ext env commit st = Inr ((fee, ms), st')"
  shows "sent_up st' = sent_up st" and "checks_fair st'"
proof -
  from commit_child_state_Inr [OF c] obtain sub ch ch'
    where ch: "get_window_checkpoint ext (curr_epoch env) st = Inr ch"
    and ch': "add_child_check (check_hash ext) commit ch = Inr ch'"
    and st': "st' = flush_subnet (sub\<lparr>circ_supply := circ_supply sub - (total_value commit + total_fee commit),
        prev_checkpoint := Some commit\<rparr>) (flush_checkpoint ch' st)"
    by blast
  have b: "bottomup_checkpoints st' = bottomup_checkpoints (flush_checkpoint ch' st)" by (simp add: st')
  note facts = add_child_check_facts [OF ch']
  have up: "up_amount ch' = up_amount ch" by (simp add: up_amount_def total_value_eq facts)
  from flush_window_checkpoint [OF ok ch facts(4)] up sent_up_cong [OF b] checks_fair_cong [OF b]
  show "sent_up st' = sent_up st" "checks_fair st'" by simp_all
qed

section \<open>The handlers\<close>

text \<open>The books move with every handler and with every part of one that sends.\<close>

lemma moves_burnt: "books_move w b l \<Longrightarrow> burnt (wrest w) \<le> burnt l"
  by (simp add: books_move_def)

lemma call_moves:
  assumes "settles ext sender" and "gateway_invoke ext sender env call w = Inr w'"
  shows "books_move w (wbalance w') (wrest w')"
  by (rule gateway_invoke_purse [where Q = "books_move w", OF settles_moves [OF assms(1)] assms(2)]) simp

text \<open>Messages that are executed cost their values.\<close>

lemma apply_msg_inner_checks:
  assumes pays: "sender_pays sender" and a: "apply_msg_inner ext sender env fw cm w = Inr (b, w')"
  shows "bottomup_checkpoints (wstate w') = bottomup_checkpoints (wstate w)"
  using apply_msg_inner_Inr [OF a]
  by (elim disjE exE conjE)
    (auto simp: apply_bottomup_def increase_applied_bottomup_def apply_topdown_def insert_postbox_def put_postbox_def
      Let_def split: option.splits if_splits dest: cross_msg_send_pays(1) [OF _ pays])

lemma apply_msgs_checks:
  assumes "apply_msgs ext sender env fw ms w = Inr w'" and pays: "sender_pays sender"
  shows "bottomup_checkpoints (wstate w') = bottomup_checkpoints (wstate w)"
  by (rule fold_res_invariant [OF _ assms(1) [unfolded apply_msgs_def],
        where P = "\<lambda>u. bottomup_checkpoints (wstate u) = bottomup_checkpoints (wstate w)"])
    (auto dest: apply_msg_inner_checks [OF pays])

lemma apply_msgs_reserve:
  assumes a: "apply_msgs ext sender env fw ms w = Inr w'" and ok: "books_ok ext (wstate w)"
    and "list_all (\<lambda>cm. 0 \<le> msg_value (msg cm)) ms" and s: "settles ext sender"
  shows "keeps_reserve ext (sum_values ms) w w'"
proof (rule no_loss_keeps_reserve [OF _ apply_msgs_checks [OF a settlesD(1) [OF s]] ok])
  show "no_loss ext (sum_values ms) w w'"
    using apply_msgs_funds [OF a books_okD(1) [OF ok] _ settlesD(1) [OF s]] assms(3)
    by (simp add: no_loss_def list_all_iff)
  show "burnt (wrest w) \<le> burnt (wrest w')"
    by (rule moves_burnt [OF apply_msgs_purse [where Q = "books_move w", OF settles_moves [OF s] a]]) simp
qed

text \<open>Committing a message of one's own or of the postbox: what goes up is burnt here.\<close>

lemma commit_and_settle_up:
  assumes ok: "books_ok ext st" and v: "0 \<le> msg_value (msg cm)" "0 \<le> fee" and s: "settles ext sender"
    and c: "commit_cross_message ext env cm fee st = Inr ((do_burn, tfee, cm'), st')"
    and e: "cross_msg_side_effects ext sender cm' do_burn tfee w = Inr w'"
  shows "checks_fair st'"
    and "wbalance w + burnt (wrest w) - held st - sent_up st - (msg_value (msg cm) + fee) \<le>
      wbalance w' + burnt (wrest w') - held st' - sent_up st'"
proof -
  note funds = commit_and_settle [OF books_okD(1) [OF ok] v settlesD(1) [OF s] c e]
  have burns: "burnt (wrest w) \<le> burnt (wrest w')"
    by (rule moves_burnt [OF side_effects_purse [where Q = "books_move w", OF settles_moves [OF s] e]]) simp
  have "checks_fair st' \<and>
    wbalance w + burnt (wrest w) - held st - sent_up st - (msg_value (msg cm) + fee) \<le>
      wbalance w' + burnt (wrest w') - held st' - sent_up st'"
    using commit_cross_message_Inr(2) [OF c]
  proof
    assume "\<exists>n st1. (st1 = st \<or> st1 = st\<lparr>applied_topdown_nonce := n\<rparr>) \<and> do_burn = False \<and> tfee = fee \<and>
      commit_topdown_msg (resolve_address env) cm st1 = Inr (cm', st')"
    then have b: "bottomup_checkpoints st' = bottomup_checkpoints st"
      by (auto elim!: commit_topdown_msg_Inr)
    with funds(4) burns sent_up_cong [OF b] checks_fair_cong [OF b] books_okD(4) [OF ok] show ?thesis by simp
  next
    assume u: "do_burn = (0 < msg_value (msg cm)) \<and> tfee = 0 \<and> cm' = cm \<and>
      commit_bottomup_msg ext cm (curr_epoch env) fee st = Inr st'"
    then have cb: "commit_bottomup_msg ext cm (curr_epoch env) fee st = Inr st'" by simp
    have "wbalance w' + burnt (wrest w') = wbalance w + burnt (wrest w)"
      using e u burn_settles [OF _ s] by (auto simp: cross_msg_side_effects_def split: if_splits)
    with commit_bottomup_msg_up [OF ok cb v] commit_bottomup_msg_funds(2) [OF books_okD(1) [OF ok] v(2) cb]
    show ?thesis by simp
  qed
  then show "checks_fair st'"
    and "wbalance w + burnt (wrest w) - held st - sent_up st - (msg_value (msg cm) + fee) \<le>
      wbalance w' + burnt (wrest w') - held st' - sent_up st'" by simp_all
qed

lemma release_reserve:
  assumes ok: "books_ok ext (wstate w)" and s: "settles ext sender"
    and r: "release ext sender env a w = Inr (u, w')"
  shows "keeps_reserve ext (value_received env) w w'"
proof -
  from release_Inr [OF r] obtain m st1 where p: "CROSS_MSG_FEE \<le> value_received env" and v: "msg_value m = value_received env - CROSS_MSG_FEE"
    and c: "commit_bottomup_msg ext \<lparr>msg = m, wrapped = False\<rparr> (curr_epoch env) CROSS_MSG_FEE (wstate w) = Inr st1"
    and d: "burn_bu_funds ext sender (value_received env - CROSS_MSG_FEE) (w\<lparr>wstate := st1\<rparr>) = Inr w'" by blast
  have f: "(0 :: token_amount) \<le> CROSS_MSG_FEE" by simp
  have "0 \<le> msg_value (msg \<lparr>msg = m, wrapped = False\<rparr>)" using v p by simp
  note up = commit_bottomup_msg_up [OF ok c this f]
  note held = commit_bottomup_msg_funds [OF books_okD(1) [OF ok] f c]
  from up held v burn_settles [OF d s] burn_bu_funds_pays(1) [OF d settlesD(1) [OF s]] show ?thesis
    by (simp add: keeps_reserve_def reserve_def surplus_def books_ok_def)
qed

lemma send_cross_reserve:
  assumes ok: "books_ok ext (wstate w)" and s: "settles ext sender"
    and x: "send_cross ext sender env params w = Inr (u, w')"
  shows "keeps_reserve ext (value_received env) w w'"
proof -
  from send_cross_Inr [OF x] obtain cm b tfee cm' st1 where v: "CROSS_MSG_FEE \<le> value_received env"
      "msg_value (msg cm) = value_received env - CROSS_MSG_FEE"
    and c: "commit_cross_message ext env cm CROSS_MSG_FEE (wstate w) = Inr ((b, tfee, cm'), st1)"
    and e: "cross_msg_side_effects ext sender cm' b tfee (w\<lparr>wstate := st1\<rparr>) = Inr w'" by blast
  have p: "0 \<le> msg_value (msg cm)" "(0 :: token_amount) \<le> CROSS_MSG_FEE" using v by simp_all
  from commit_and_settle_up [OF ok p s c e] commit_and_settle(1,3) [OF books_okD(1) [OF ok] p settlesD(1) [OF s] c e] v
  show ?thesis by (simp add: keeps_reserve_def reserve_def surplus_def books_ok_def)
qed

lemma propagate_reserve:
  assumes ok: "books_ok ext (wstate w)" and s: "settles ext sender"
    and p: "propagate ext sender env cid w = Inr (u, w')"
  shows "keeps_reserve ext (value_received env) w w'"
proof -
  from propagate_Inr [OF p] obtain item b fee cm st1 w2 where
    item: "postbox (wstate w) cid = Some item" and
    c: "commit_cross_message ext env (item_msg item) CROSS_MSG_FEE (wstate w) = Inr ((b, fee, cm), st1)"
    and e: "cross_msg_side_effects ext sender cm b fee (w\<lparr>wstate := remove_from_postbox cid st1\<rparr>) = Inr w2"
    and w': "if value_received env = CROSS_MSG_FEE then w' = w2
       else send_value sender (caller env) METHOD_SEND (value_received env - CROSS_MSG_FEE) w2 = Inr w'"
    by blast
  note pays = settlesD(1) [OF s]
  have v: "0 \<le> msg_value (msg (item_msg item))" "(0 :: token_amount) \<le> CROSS_MSG_FEE"
    using funds_okD(6) [OF books_okD(1) [OF ok] item] by (simp_all add: item_value_def)
  note cs = commit_and_settle [OF books_okD(1) [OF ok] v pays c e]
  note up = commit_and_settle_up [OF ok v s c e]
  have rm: "held (remove_from_postbox cid st1) = held st1 - msg_value (msg (item_msg item))"
    "sent_up (remove_from_postbox cid st1) = sent_up st1"
    "checks_fair (remove_from_postbox cid st1) = checks_fair st1"
    using held_remove_from_postbox [OF cs(1)] cs(2) item
    by (simp_all add: item_value_def sent_up_def checks_fair_def remove_from_postbox_def)
  have "burnt (wrest w2) \<le> burnt (wrest w')"
    using w' by (auto split: if_splits intro!: moves_burnt [OF gateway_sends_purse(1) [OF settles_moves [OF s], of w2]])
  moreover have "wstate w' = wstate w2 \<and> wbalance w' = wbalance w2 - (value_received env - CROSS_MSG_FEE)"
    using w' send_value_pays [OF _ pays] by (simp split: if_splits)
  ultimately show ?thesis
    using cs up rm funds_ok_remove_from_postbox [OF cs(1), of cid]
    by (simp add: keeps_reserve_def reserve_def surplus_def books_ok_def)
qed

lemma commit_child_check_reserve:
  assumes ok: "books_ok ext (wstate w)" and s: "settles ext sender" and h: "honest_values commit"
    and c: "commit_child_check ext sender env commit w = Inr (u, w')"
  shows "keeps_reserve ext 0 w w'"
proof -
  note pays = settlesD(1) [OF s]
  from commit_child_check_Inr [OF c] obtain st1 w2
    where st1: "commit_child_state ext env commit (wstate w) = Inr ((total_fee commit, checkpoint_msgs commit), st1)"
    and a: "apply_msgs ext sender env (check_source (check_content commit)) (msgs_of commit) (w\<lparr>wstate := st1\<rparr>) = Inr w2"
    and d: "distribute_crossmsg_fee ext sender (caller env) (total_fee commit) w2 = Inr w'" by blast
  note up = commit_child_state_up [OF ok st1]
  have b: "bottomup_checkpoints (wstate w') = bottomup_checkpoints st1"
    using apply_msgs_checks [OF a pays] distribute_crossmsg_fee_pays(1) [OF d pays] by simp
  have "books_move w (wbalance w2) (wrest w2)"
    by (rule apply_msgs_purse [where Q = "books_move w", OF settles_moves [OF s] a]) simp
  from gateway_sends_purse(3) [OF settles_moves [OF s] this d] have "burnt (wrest w) \<le> burnt (wrest w')"
    by (rule moves_burnt)
  with up sent_up_cong [OF b] checks_fair_cong [OF b] commit_child_check_funds [OF books_okD(1) [OF ok] pays h c] show ?thesis
    by (simp add: keeps_reserve_def reserve_def books_ok_def)
qed

text \<open>The handlers that do not touch the checkpoints at all.\<close>

lemma quiet_reserve:
  assumes ok: "books_ok ext (wstate w)" and s: "settles ext sender" and id: "caller_is_id env" and v: "0 \<le> value_received env"
    and g: "gateway_invoke ext sender env call w = Inr w'"
    and call: "call \<in> {Register, AddStake, ReleaseStake x, Kill, Fund p, WhiteListPropagator q, InitGenesisEpoch e}"
  shows "keeps_reserve ext (value_received env) w w'"
proof (rule no_loss_keeps_reserve [OF _ _ ok])
  note pays = settlesD(1) [OF s]
  show "no_loss ext (value_received env) w w'"
    by (rule gateway_invoke_funds [OF books_okD(1) [OF ok] pays id v _ g]) (use call in auto)
  show "burnt (wrest w) \<le> burnt (wrest w')" by (rule moves_burnt [OF call_moves [OF s g]])
  have "sender_keeps (\<lambda>st. bottomup_checkpoints st = bottomup_checkpoints (wstate w)) sender"
    by (rule sender_pays_keeps [OF pays])
  note sends = send_value_keeps [OF _ this] distribute_crossmsg_fee_keeps [OF _ this]
  show "bottomup_checkpoints (wstate w') = bottomup_checkpoints (wstate w)"
    using g call
    by (auto simp: register_def add_stake_def release_stake_def kill_def
        register_subnet_def rm_subnet_def add_stake_to_def init_genesis_epoch_def init_gateway_def Let_def
        put_postbox_def remove_from_postbox_def delete_subnet_def set_subnet_def
        split: if_splits option.splits dest!: fund_Inr whitelist_propagator_Inr sends elim!: commit_topdown_msg_Inr)
qed

section \<open>What comes in\<close>

text \<open>The messages of the parent that a vote makes the gateway execute.\<close>

definition ready_msgs :: "('a, 'c) gateway \<Rightarrow> 'a cross_msg list" where
  "ready_msgs st = (case execute_next_state st of Inr (Some c, _) \<Rightarrow> top_down_msgs c | _ \<Rightarrow> [])"

fun handed_down :: "('a, 'c) externs \<Rightarrow> ('a, 'm) msg_env_scheme \<Rightarrow> ('a, 'c) gateway_call \<Rightarrow> ('a, 'c) gateway \<Rightarrow> 'a cross_msg list" where
  "handed_down ext env (SubmitTopDownCheckpoint cp) st =
     (case submit_topdown_state ext env cp st of
        Inr (Some c, st1) \<Rightarrow> if top_down_msgs c = [] then ready_msgs st1 else top_down_msgs c
      | Inr (None, st1) \<Rightarrow> ready_msgs st1
      | Inl _ \<Rightarrow> [])"
| "handed_down ext env _ st = []"

text \<open>The funds the validators get when the membership is set at the first epoch.\<close>

fun initial_funds :: "('a, 'm) msg_env_scheme \<Rightarrow> ('a, 'c) gateway_call \<Rightarrow> ('a, 'c) gateway \<Rightarrow> token_amount" where
  "initial_funds env (SetMembership vs) st =
     (if curr_epoch env = 1 \<and> \<not> is_root (network_name st)
      then int (length (validators vs)) * INITIAL_VALIDATOR_FUNDS else 0)"
| "initial_funds env _ st = 0"

definition income :: "('a, 'c) externs \<Rightarrow> ('a, 'm) msg_env_scheme \<Rightarrow> ('a, 'c) gateway_call \<Rightarrow> ('a, 'c) gateway \<Rightarrow> token_amount" where
  "income ext env call st = sum_values (handed_down ext env call st) + initial_funds env call st"

text \<open>The amounts of the messages and checkpoints that come from other networks are not negative.\<close>

fun honest_call :: "('a, 'c) gateway_call \<Rightarrow> bool" where
  "honest_call (CommitChildCheckpoint c) = honest_values c"
| "honest_call _ = True"

definition fair_amounts :: "('a, 'c) externs \<Rightarrow> ('a, 'm) msg_env_scheme \<Rightarrow> ('a, 'c) gateway_call \<Rightarrow> ('a, 'c) gateway \<Rightarrow> bool" where
  "fair_amounts ext env call st \<longleftrightarrow>
     honest_call call \<and> list_all (\<lambda>cm. 0 \<le> msg_value (msg cm)) (handed_down ext env call st)"

lemma execute_next_reserve:
  assumes x: "execute_next_topdown_epoch ext sender env w = Inr w'" and ok: "books_ok ext (wstate w)"
    and "list_all (\<lambda>cm. 0 \<le> msg_value (msg cm)) (ready_msgs (wstate w))" and s: "settles ext sender"
  shows "keeps_reserve ext (sum_values (ready_msgs (wstate w))) w w'"
proof -
  from x obtain cp st1 where st1: "execute_next_state (wstate w) = Inr (cp, st1)"
    and a: "(case cp of Some c \<Rightarrow> apply_msgs ext sender env UNDEF (top_down_msgs c) (w\<lparr>wstate := st1\<rparr>)
       | None \<Rightarrow> Inr (w\<lparr>wstate := st1\<rparr>)) = Inr w'"
    by (auto simp: execute_next_topdown_epoch_def)
  from st1 have f: "held st1 = held (wstate w)" "sent_up st1 = sent_up (wstate w)" "books_ok ext st1"
    using ok by (auto elim!: execute_next_state_Inr)
  then have same: "reserve (w\<lparr>wstate := st1\<rparr>) = reserve w" by (simp add: reserve_def surplus_def)
  have r: "ready_msgs (wstate w) = (case cp of Some c \<Rightarrow> top_down_msgs c | None \<Rightarrow> [])"
    using st1 by (simp add: ready_msgs_def split: option.split)
  show ?thesis
  proof (cases cp)
    case None
    with a same f r show ?thesis by (auto simp: keeps_reserve_def)
  next
    case (Some c)
    with a have "apply_msgs ext sender env UNDEF (top_down_msgs c) (w\<lparr>wstate := st1\<rparr>) = Inr w'" by simp
    from apply_msgs_reserve [OF this _ _ s] f assms(3) r Some same show ?thesis by (simp add: keeps_reserve_def)
  qed
qed

lemma submit_topdown_reserve:
  assumes x: "submit_topdown_check ext sender env cp w = Inr (b, w')" and ok: "books_ok ext (wstate w)"
    and fair: "list_all (\<lambda>cm. 0 \<le> msg_value (msg cm)) (handed_down ext env (SubmitTopDownCheckpoint cp) (wstate w))"
    and s: "settles ext sender"
  shows "keeps_reserve ext (sum_values (handed_down ext env (SubmitTopDownCheckpoint cp) (wstate w))) w w'"
proof -
  from x obtain res st1 where st1: "submit_topdown_state ext env cp (wstate w) = Inr (res, st1)"
    and a: "(case res of
          Some c \<Rightarrow> and_then (if top_down_msgs c = [] then execute_next_topdown_epoch ext sender env (w\<lparr>wstate := st1\<rparr>)
                              else Inr (w\<lparr>wstate := st1\<rparr>))
              (\<lambda>w2. apply_msgs ext sender env UNDEF (top_down_msgs c) w2)
        | None \<Rightarrow> execute_next_topdown_epoch ext sender env (w\<lparr>wstate := st1\<rparr>)) = Inr w'"
    by (rule submit_topdown_check_Inr)
  from st1 have f: "held st1 = held (wstate w)" "sent_up st1 = sent_up (wstate w)" "books_ok ext st1"
    using ok by (auto elim!: submit_topdown_state_Inr)
  then have same: "reserve (w\<lparr>wstate := st1\<rparr>) = reserve w" by (simp add: reserve_def surplus_def)
  show ?thesis
  proof (cases "\<exists>c. res = Some c \<and> top_down_msgs c \<noteq> []")
    case True
    then obtain c where c: "res = Some c" "top_down_msgs c \<noteq> []" by blast
    with a have "apply_msgs ext sender env UNDEF (top_down_msgs c) (w\<lparr>wstate := st1\<rparr>) = Inr w'" by simp
    from apply_msgs_reserve [OF this _ _ s] f fair st1 c same show ?thesis by (simp add: keeps_reserve_def)
  next
    case False
    then have res: "res = None \<or> (\<exists>c. res = Some c \<and> top_down_msgs c = [])" by (cases res) simp_all
    have none: "apply_msgs ext sender env UNDEF [] v = Inr v" for v by (simp add: apply_msgs_def)
    have "execute_next_topdown_epoch ext sender env (w\<lparr>wstate := st1\<rparr>) = Inr w'"
      using res a by (elim disjE exE conjE) (simp_all add: none)
    moreover have "handed_down ext env (SubmitTopDownCheckpoint cp) (wstate w) = ready_msgs st1"
      using res st1 by (elim disjE exE conjE) simp_all
    ultimately show ?thesis
      using execute_next_reserve [of ext sender env "w\<lparr>wstate := st1\<rparr>" w'] s f fair same
      by (simp add: keeps_reserve_def)
  qed
qed

lemma set_membership_reserve:
  assumes x: "set_membership ext sender env vs w = Inr (b, w')" and ok: "books_ok ext (wstate w)" and s: "settles ext sender"
  shows "keeps_reserve ext (initial_funds env (SetMembership vs) (wstate w)) w w'"
proof -
  let ?st = "set_members vs (wstate w)"
  let ?pay = "\<lambda>ms v v'. fold_res (\<lambda>m w. send_value sender (val_addr m) METHOD_SEND INITIAL_VALIDATOR_FUNDS w) ms v = Inr v'"
  have pay: "wstate v' = wstate v \<and> wbalance v' = wbalance v - int (length ms) * INITIAL_VALIDATOR_FUNDS \<and>
      burnt (wrest v) \<le> burnt (wrest v')" if "?pay ms v v'" for ms v v'
    using that
  proof (induction ms arbitrary: v)
    case (Cons m ms)
    then obtain u where u: "send_value sender (val_addr m) METHOD_SEND INITIAL_VALIDATOR_FUNDS v = Inr u"
      and rest: "?pay ms u v'" by auto
    have "burnt (wrest v) \<le> burnt (wrest u)"
      by (rule moves_burnt [OF gateway_sends_purse(1) [OF settles_moves [OF s] books_move_self u]])
    with Cons.IH [OF rest] send_value_pays [OF u settlesD(1) [OF s]] show ?case by (simp add: algebra_simps)
  qed simp
  have f: "held ?st = held (wstate w)" "sent_up ?st = sent_up (wstate w)" "books_ok ext ?st"
    using ok gateway_inv_cong [of ?st "wstate w"]
    by (simp_all add: set_members_def held_def sent_up_def books_ok_def funds_ok_def checks_fair_def)
  moreover have "network_name ?st = network_name (wstate w)" by (simp add: set_members_def)
  ultimately show ?thesis
    using x pay [of "validators vs" "w\<lparr>wstate := ?st\<rparr>" w']
    by (auto simp: set_membership_def Let_def keeps_reserve_def reserve_def surplus_def split: if_splits)
qed

text \<open>Every message.\<close>

lemma call_keeps_reserve:
  assumes ok: "books_ok ext (wstate w)" and s: "settles ext sender" and id: "caller_is_id env" and v: "0 \<le> value_received env"
    and fair: "fair_amounts ext env call (wstate w)" and g: "gateway_invoke ext sender env call w = Inr w'"
  shows "keeps_reserve ext (value_received env + income ext env call (wstate w)) w w'"
proof -
  have weaker: "keeps_reserve ext c' w w'" if "keeps_reserve ext c w w'" "c \<le> c'" for c c'
    using that by (auto simp: keeps_reserve_def)
  note quiet = quiet_reserve [OF ok s id v g]
  show ?thesis
  proof (cases call)
    case (CommitChildCheckpoint c)
    with g obtain u where "commit_child_check ext sender env c w = Inr (u, w')" by auto
    from commit_child_check_reserve [OF ok s _ this] fair v show ?thesis
      by (auto simp: CommitChildCheckpoint fair_amounts_def income_def intro: weaker)
  next
    case (SubmitTopDownCheckpoint cp)
    with g obtain b where "submit_topdown_check ext sender env cp w = Inr (b, w')" by auto
    from submit_topdown_reserve [OF this ok _ s] fair v show ?thesis
      unfolding SubmitTopDownCheckpoint fair_amounts_def income_def by (auto intro: weaker simp del: handed_down.simps(1))
  next
    case (SetMembership vs)
    with g obtain b where "set_membership ext sender env vs w = Inr (b, w')" by auto
    from set_membership_reserve [OF this ok s] v show ?thesis
      unfolding SetMembership income_def by (auto intro: weaker simp del: initial_funds.simps(1))
  qed (use g quiet release_reserve [OF ok s] send_cross_reserve [OF ok s] propagate_reserve [OF ok s]
      in \<open>auto simp: income_def\<close>)
qed

section \<open>The economy of a network\<close>

text \<open>
  A message to the gateway brings its value out of the coins in circulation; the amounts that come from
  other networks are fair, and are booked as income.
\<close>

definition paid_in :: "('a, 'm) msg_env_scheme \<Rightarrow> ('a, 'c, ledger) gw_world \<Rightarrow> ('a, 'c, ledger) gw_world" where
  "paid_in env w = (credited env w)\<lparr>wrest := (wrest w)\<lparr>circulating := circulating (wrest w) - value_received env\<rparr>\<rparr>"

definition booked ::
    "('a, 'c) externs \<Rightarrow> ('a, 'm) msg_env_scheme \<Rightarrow> ('a, 'c) gateway_call \<Rightarrow> ('a, 'c) gateway \<Rightarrow>
     ('a, 'c, ledger) gw_world \<Rightarrow> ('a, 'c, ledger) gw_world" where
  "booked ext env call st w = w\<lparr>wrest := (wrest w)
     \<lparr>came_down := came_down (wrest w) + sum_values (handed_down ext env call st),
      granted := granted (wrest w) + initial_funds env call st\<rparr>\<rparr>"

inductive economy_step ::
    "('a, 'c) externs \<Rightarrow> ('a, 'c, ledger) gw_sender \<Rightarrow> ('a, 'c, ledger) gw_world \<Rightarrow> 'a msg_env \<times> ('a, 'c) gateway_call \<Rightarrow>
     ('a, 'c, ledger) gw_world \<Rightarrow> bool"
  for ext sender where
  economy_call: "caller_is_id env \<Longrightarrow> 0 \<le> value_received env \<Longrightarrow> value_received env \<le> circulating (wrest w) \<Longrightarrow>
    fair_amounts ext env call (wstate w) \<Longrightarrow> gateway_invoke ext sender env call (paid_in env w) = Inr v \<Longrightarrow>
    w' = booked ext env call (wstate w) v \<Longrightarrow>
    economy_step ext sender w (env, call) w'"

inductive_cases economy_stepE: "economy_step ext sender w (env, call) w'"

text \<open>All the money of the network.\<close>

definition wealth :: "('a, 'c, ledger) gw_world \<Rightarrow> token_amount" where
  "wealth w = sent_up (wstate w) + held (wstate w) + circulating (wrest w)"

definition economy_ok :: "('a, 'c) externs \<Rightarrow> ('a, 'c, ledger) gw_world \<Rightarrow> bool" where
  "economy_ok ext w \<longleftrightarrow> books_ok ext (wstate w) \<and> 0 \<le> circulating (wrest w)"

definition came_in :: "('a, 'c, ledger) gw_world \<Rightarrow> token_amount" where
  "came_in w = came_down (wrest w) + granted (wrest w)"

lemma economy_step_wealth:
  assumes ok: "economy_ok ext w" and s: "settles ext sender" and st: "economy_step ext sender w (env, call) w'"
  shows "economy_ok ext w' \<and> wealth w' - came_in w' \<le> wealth w - came_in w"
  using st
proof (rule economy_stepE)
  fix v
  assume id: "caller_is_id env" and p: "0 \<le> value_received env" "value_received env \<le> circulating (wrest w)"
    and fair: "fair_amounts ext env call (wstate w)" and g: "gateway_invoke ext sender env call (paid_in env w) = Inr v"
    and w': "w' = booked ext env call (wstate w) v"
  have st0: "wstate (paid_in env w) = wstate w" by (simp add: paid_in_def)
  have "keeps_reserve ext (value_received env + income ext env call (wstate w)) (paid_in env w) v"
    using call_keeps_reserve [OF _ s id p(1) _ g] ok fair unfolding st0 economy_ok_def by blast
  moreover have "books_move (paid_in env w) (wbalance v) (wrest v)" by (rule call_moves [OF s g])
  ultimately show ?thesis
    using p by (auto simp: keeps_reserve_def books_move_def economy_ok_def wealth_def reserve_def surplus_def paid_in_def
        came_in_def booked_def income_def w')
qed

lemma table_sums_nonneg: "economy_ok ext w \<Longrightarrow> 0 \<le> held (wstate w)"
  by (auto simp: economy_ok_def books_ok_def funds_ok_def gateway_inv_def subnets_ok_def subnet_ok_def held_def
      intro!: add_nonneg_nonneg table_sum_nonneg)

lemma economy_run_wealth:
  assumes "run (economy_step ext sender) w evs w'" and "settles ext sender" and "economy_ok ext w"
  shows "economy_ok ext w' \<and> wealth w' - came_in w' \<le> wealth w - came_in w"
proof (rule run_invariant [OF assms(1), where P = "\<lambda>v. economy_ok ext v \<and> wealth v - came_in v \<le> wealth w - came_in w"])
  show "economy_ok ext v \<and> wealth v - came_in v \<le> wealth w - came_in w"
    if "economy_step ext sender u e v" "economy_ok ext u \<and> wealth u - came_in u \<le> wealth w - came_in w" for u e v
    using economy_step_wealth [of ext u sender "fst e" "snd e" v] that assms(2) by fastforce
qed (simp add: assms(3))

section \<open>Properties\<close>


text \<open>A world that keeps the books, and a network with one user who owns the fee of a release twice.\<close>

definition booking_send :: "('a, 'c) externs \<Rightarrow> ('a, 'c, ledger) gw_sender" where
  "booking_send ext r w =
     (if sr_value r < 0 \<or> wbalance w < sr_value r then Inl (ActorError USR_UNSPECIFIED)
      else Inr (None, w\<lparr>wbalance := wbalance w - sr_value r, wrest := settled ext (sr_to r) (sr_value r) (wrest w)\<rparr>))"

lemma booking_send_settles: "settles ext (booking_send ext)"
  by (auto simp: settles_def sender_pays_def booking_send_def split: if_splits)

definition sample_network :: "((nat, nat) gateway, ledger) world" where
  "sample_network = \<lparr>wstate = sample_inner, wbalance = 10 ^ 12,
     wrest = \<lparr>circulating = 2 * CROSS_MSG_FEE, burnt = 0, came_down = 0, granted = 0\<rparr>\<rparr>"

lemma sample_network_ok: "economy_ok sample_ext sample_network"
  using sample_inner_inv
  by (auto simp: economy_ok_def books_ok_def funds_ok_def checks_fair_def sample_network_def sample_inner_def sample_governed_def
      sample_gateway_def set_subnet_def fresh_subnet_def)


text \<open>The message of the parent is executed, then a user releases twice the fee.\<close>

abbreviation sample_release_env :: "nat msg_env" where
  "sample_release_env \<equiv> sample_env 44 (2 * CROSS_MSG_FEE) True"

lemma sample_network_topdown:
  "\<exists>w1. submit_topdown_check sample_ext (booking_send sample_ext) (sample_env 1 0 True) sample_topdown sample_network = Inr ([], w1) \<and>
     handed_down sample_ext (sample_env 1 0 True) (SubmitTopDownCheckpoint sample_topdown) sample_inner = [sample_from_parent] \<and>
     (\<exists>w2. release sample_ext (booking_send sample_ext) sample_release_env 5
        (paid_in sample_release_env (w1\<lparr>wrest := (wrest w1)\<lparr>came_down := 60\<rparr>\<rparr>)) = Inr ((), w2)) \<and>
     wrest w1 = \<lparr>circulating = 2 * CROSS_MSG_FEE + 60, burnt = 0, came_down = 0, granted = 0\<rparr>"
proof -
  have "initialized sample_inner" "members sample_inner = members sample_governed"
    "topdown_checkpoint_voting sample_inner = new_voting 0 10"
    by (simp_all add: sample_inner_def sample_governed_def sample_gateway_def)
  from sample_vote [OF this sample_topdown_form] obtain vt where v: "submit_topdown_state sample_ext (sample_env 1 0 True) sample_topdown sample_inner =
      Inr (Some sample_topdown, sample_inner\<lparr>topdown_checkpoint_voting := vt\<rparr>)" by blast
  have ms: "top_down_msgs sample_topdown = [sample_from_parent]" by (simp add: sample_topdown_def)
  let ?w = "sample_network\<lparr>wstate := sample_inner\<lparr>topdown_checkpoint_voting := vt\<rparr>\<rparr>"
  have "submit_topdown_check sample_ext (booking_send sample_ext) (sample_env 1 0 True) sample_topdown sample_network =
      and_then (apply_msgs sample_ext (booking_send sample_ext) (sample_env 1 0 True) UNDEF [sample_from_parent] ?w) (\<lambda>w. Inr ([], w))"
    using v ms by (simp add: submit_topdown_check_def validate_caller_signable_def transaction_def sample_network_def) (simp add: sample_env_def)
  moreover have "\<exists>w1. apply_msgs sample_ext (booking_send sample_ext) (sample_env 1 0 True) UNDEF [sample_from_parent] ?w = Inr w1 \<and>
     (\<exists>w2. release sample_ext (booking_send sample_ext) sample_release_env 5
        (paid_in sample_release_env (w1\<lparr>wrest := (wrest w1)\<lparr>came_down := 60\<rparr>\<rparr>)) = Inr ((), w2)) \<and>
     wrest w1 = \<lparr>circulating = 2 * CROSS_MSG_FEE + 60, burnt = 0, came_down = 0, granted = 0\<rparr>"
    by (simp add: apply_msgs_def apply_msg_inner_def apply_topdown_def cross_msg_send_def booking_send_def settled_def
      sample_network_def sample_inner_eval release_def is_valid_account_address_def resolved_from_to_def
      paid_in_def new_release_msg_def parent_def commit_bottomup_msg_def store_msg_in_checkpoint_def
      push_cross_msgs_def burn_bu_funds_def sample_commit_eval)
  ultimately show ?thesis using v ms by auto
qed


end
