(* ===== verification/Supply_Accounts.thy ===== *)
theory Supply_Accounts
  imports Network_Funds
begin

text \<open>
  What the gateway of a parent network books for a child: the circulating supply is exactly the value of
  the messages that were stored for the child less what the checkpoints of the child handed back. A network
  that grants its validators first funds owes its parent more than that, and the firewall stops it.
\<close>

section \<open>Sent down and handed back\<close>

definition sent_down :: "('a, 'c) subnet \<Rightarrow> token_amount" where
  "sent_down sub = table_sum (\<lambda>cm. msg_value (msg cm)) (topdown_msgs sub)"

definition handed_back :: "('a, 'c) gateway \<Rightarrow> 'a subnet_id \<rightharpoonup> token_amount" where
  "handed_back st = (\<lambda>k. map_option (\<lambda>sub. sent_down sub - circ_supply sub) (subnets st k))"

text \<open>The messages that change what a child handed back: its own registration, its end, its checkpoints.\<close>

fun account_change :: "'a subnet_id \<Rightarrow> ('a, 'c) gateway_call \<Rightarrow> ('a subnet_id \<rightharpoonup> token_amount) \<Rightarrow> 'a subnet_id \<rightharpoonup> token_amount" where
  "account_change k Register m = m(k \<mapsto> 0)"
| "account_change k Kill m = m(k := None)"
| "account_change k (CommitChildCheckpoint c) m = m(k := map_option (\<lambda>v. v + up_amount c) (m k))"
| "account_change k _ m = m"

lemma handed_back_cong: "subnets st' = subnets st \<Longrightarrow> handed_back st' = handed_back st"
  by (simp add: handed_back_def)

lemma handed_back_flush_subnet:
  assumes "subnets st (sub_id sub) = Some old" and "sent_down sub - circ_supply sub = sent_down old - circ_supply old + v"
  shows "handed_back (flush_subnet sub st) =
    (handed_back st)(sub_id sub := map_option (\<lambda>x. x + v) (handed_back st (sub_id sub)))"
  using assms by (auto simp: handed_back_def)

lemma sent_down_simps [simp]:
  "sent_down (sub\<lparr>stake := x\<rparr>) = sent_down sub"
  "sent_down (sub\<lparr>sub_status := s\<rparr>) = sent_down sub"
  "sent_down (sub\<lparr>circ_supply := x\<rparr>) = sent_down sub"
  "sent_down (sub\<lparr>prev_checkpoint := p\<rparr>) = sent_down sub"
  "sent_down (sub\<lparr>topdown_nonce := n\<rparr>) = sent_down sub"
  "sent_down (sub\<lparr>applied_bottomup_nonce := n\<rparr>) = sent_down sub"
  by (simp_all add: sent_down_def)

text \<open>Storing a message for a child raises both sides.\<close>

lemma sent_down_store:
  assumes "subnet_ok lim sub"
  shows "sent_down (sub\<lparr>topdown_msgs := (topdown_msgs sub)(topdown_nonce sub \<mapsto> cm)\<rparr>) = sent_down sub + msg_value (msg cm)"
proof -
  have "topdown_msgs sub (topdown_nonce sub) = None" using assms by (auto simp: subnet_ok_def)
  then show ?thesis
    using table_sum_upd [of "topdown_msgs sub" "\<lambda>cm. msg_value (msg cm)" "topdown_nonce sub" cm] by (simp add: sent_down_def)
qed

lemma commit_topdown_msg_account:
  fixes st :: "('a, 'b) gateway"
  assumes ok: "subnets_ok st" and c: "commit_topdown_msg resolve cm st = Inr (cm', st')"
  shows "handed_back st' = handed_back st"
  using c
proof (rule commit_topdown_msg_Inr)
  fix hop n and sub :: "('a, 'b) subnet"
  let ?sub = "sub\<lparr>topdown_msgs := (topdown_msgs sub)(topdown_nonce sub \<mapsto> cm'),
       topdown_nonce := n, circ_supply := circ_supply sub + msg_value (msg cm)\<rparr>"
  assume sub: "get_subnet resolve hop st = Some sub" and cm': "cm' = set_nonce (topdown_nonce sub) cm"
    and st': "st' = flush_subnet ?sub st"
  note s = get_subnet_ok [OF ok sub]
  have "sent_down ?sub = sent_down sub + msg_value (msg cm)"
    using sent_down_store [OF s(2), of cm'] by (simp add: sent_down_def cm' set_nonce_def)
  with s(1) show ?thesis by (auto simp: handed_back_def st')
qed

lemma stores_down_account:
  assumes "subnets_ok st" and "stores_down env cm st st'"
  shows "handed_back st' = handed_back st"
proof -
  from assms(2) obtain st1 cm' st2 where t: "same_tables st st1" "same_tables st2 st'" and ok: "subnets_ok st \<longrightarrow> subnets_ok st1"
    and c: "commit_topdown_msg (resolve_address env) cm st1 = Inr (cm', st2)" by (rule stores_downE)
  from commit_topdown_msg_account [OF ok [rule_format, OF assms(1)] c] t show ?thesis
    using handed_back_cong [of st1 st] handed_back_cong [of st' st2] by (simp add: same_tables_def)
qed

lemma stores_up_account: "stores_up ext env cm st st' \<Longrightarrow> handed_back st' = handed_back st"
  by (auto simp: stores_up_def same_tables_def intro!: handed_back_cong dest: commit_bottomup_msg_fields(1))

text \<open>Executing messages leaves the accounts alone.\<close>

lemma frame_account: "frame st' = frame st \<Longrightarrow> handed_back st' = handed_back st"
proof -
  have "handed_back st = (\<lambda>k. map_option (\<lambda>sub. sent_down sub - circ_supply sub) (frame st k))"
    for st :: "('a, 'b) gateway"
    by (simp add: handed_back_def frame_def option.map_comp comp_def)
  then show "frame st' = frame st \<Longrightarrow> handed_back st' = handed_back st" by simp
qed

lemma submit_topdown_account:
  assumes "submit_topdown_check ext sender env cp w = Inr (b, w')" and inv: "gateway_inv ext (wstate w)"
    and pays: "sender_pays sender"
  shows "handed_back (wstate w') = handed_back (wstate w)"
proof -
  let ?P = "\<lambda>v. gateway_inv ext (wstate v) \<and> handed_back (wstate v) = handed_back (wstate w)"
  have "?P w'"
  proof (rule submit_topdown_check_keeps [OF assms(1), where P = ?P])
    fix ms v v' assume a: "apply_msgs ext sender env UNDEF ms v = Inr v'" and P: "?P v"
    from P have i: "gateway_inv ext (wstate v)" by simp
    from frame_account [OF apply_msgs_frame [OF a i pays]] apply_msgs_inv [OF a sender_pays_keeps [OF pays] i] P
    show "?P v'" by simp
  qed (use inv in \<open>auto simp: handed_back_def\<close>)
  then show ?thesis by simp
qed

section \<open>Every message\<close>

lemma own_account:
  assumes inv: "gateway_inv ext st" and id: "caller_is_id env"
    and sub: "get_subnet (resolve_address env) (own_id env st) st = Some sub"
  shows "subnets st (own_id env st) = Some sub" and "sub_id sub = own_id env st"
  using own_subnet_ok [OF inv id sub] by simp_all

lemma register_account:
  assumes "register env w = Inr (shid, w')" and id: "caller_is_id env"
  shows "handed_back (wstate w') = (handed_back (wstate w))(own_id env (wstate w) \<mapsto> 0)"
  using register_state [OF assms] by (auto simp: handed_back_def fresh_subnet_def sent_down_def)

lemma kill_account:
  assumes k: "kill sender env w = Inr (u, w')" and id: "caller_is_id env" and pays: "sender_pays sender"
  shows "handed_back (wstate w') = (handed_back (wstate w))(own_id env (wstate w) := None)"
  using kill_state [OF assms] by (auto simp: handed_back_def delete_subnet_def)

lemma add_stake_to_account:
  assumes inv: "gateway_inv ext st" and id: "caller_is_id env"
    and sub: "get_subnet (resolve_address env) (own_id env st) st = Some sub"
  shows "handed_back (add_stake_to v sub st) = handed_back st"
  using own_account [OF assms] by (auto simp: handed_back_def add_stake_to_def Let_def)

lemma commit_child_check_account:
  assumes c: "commit_child_check ext sender env commit w = Inr (u, w')" and id: "caller_is_id env"
    and inv: "gateway_inv ext (wstate w)" and pays: "sender_pays sender"
  shows "handed_back (wstate w') = account_change (own_id env (wstate w)) (CommitChildCheckpoint commit) (handed_back (wstate w))"
proof -
  from commit_child_check_Inr [OF c] obtain st1 w2
    where st1: "commit_child_state ext env commit (wstate w) = Inr ((total_fee commit, checkpoint_msgs commit), st1)"
    and a: "apply_msgs ext sender env (check_source (check_content commit)) (msgs_of commit) (w\<lparr>wstate := st1\<rparr>) = Inr w2"
    and d: "distribute_crossmsg_fee ext sender (caller env) (total_fee commit) w2 = Inr w'" by blast
  from commit_child_state_Inr [OF st1] obtain sub ch'
    where sub: "get_subnet (resolve_address env) (own_id env (wstate w)) (wstate w) = Some sub"
    and s1: "st1 = flush_subnet (sub\<lparr>circ_supply := circ_supply sub - (total_value commit + total_fee commit),
        prev_checkpoint := Some commit\<rparr>) (flush_checkpoint ch' (wstate w))"
    by blast
  have "gateway_inv ext (wstate (w\<lparr>wstate := st1\<rparr>))" using commit_child_state_inv [OF inv st1] by simp
  from frame_account [OF apply_msgs_frame [OF a this pays]] distribute_crossmsg_fee_pays(1) [OF d pays]
  have "handed_back (wstate w') = handed_back st1" by simp
  with own_account [OF inv id sub] show ?thesis
    by (auto simp: handed_back_def s1 up_amount_def flush_checkpoint_def)
qed

lemma account_change_quiet: "\<not> calls_of_actors call \<Longrightarrow> account_change k call m = m"
  by (cases call) auto

lemma gateway_invoke_account:
  assumes g: "gateway_invoke ext sender env call w = Inr w'" and id: "caller_is_id env"
    and inv: "gateway_inv ext (wstate w)" and pays: "sender_pays sender"
  shows "handed_back (wstate w') = account_change (own_id env (wstate w)) call (handed_back (wstate w))"
proof (cases "calls_of_actors call")
  case True
  show ?thesis
  proof (cases call)
    case Register
    with g register_account [OF _ id] show ?thesis by auto
  next
    case AddStake
    with stake_state [OF g _ pays] show ?thesis by (auto simp: add_stake_to_account [OF inv id])
  next
    case (ReleaseStake v)
    with stake_state [OF g _ pays] show ?thesis by (auto simp: add_stake_to_account [OF inv id])
  next
    case Kill
    with g kill_account [OF _ id pays] show ?thesis by auto
  next
    case (CommitChildCheckpoint c)
    with g obtain u where "commit_child_check ext sender env c w = Inr (u, w')" by auto
    from commit_child_check_account [OF this id inv pays] CommitChildCheckpoint show ?thesis by simp
  qed (use True in simp_all)
next
  case False
  from inv have "subnets_ok (wstate w)" by (simp add: gateway_inv_def)
  with gateway_invoke_tables [OF g pays False]
  have "handed_back (wstate w') = handed_back (wstate w)"
    by (auto simp: same_tables_def stores_down_account stores_up_account submit_topdown_account [OF _ inv pays] intro: handed_back_cong)
  with False show ?thesis by (simp add: account_change_quiet)
qed

section \<open>Messages of the parent\<close>

text \<open>The checkpoint that an actor commits, and a message with which it does not end its subnet.\<close>

fun committed_by :: "'a \<Rightarrow> 'a msg_env \<times> ('a, 'c) gateway_call \<Rightarrow> ('a, 'c) bottom_up_checkpoint option" where
  "committed_by a (env, CommitChildCheckpoint c) = (if caller env = a then Some c else None)"
| "committed_by a _ = None"

fun lives_on :: "'a \<Rightarrow> 'a msg_env \<times> ('a, 'c) gateway_call \<Rightarrow> bool" where
  "lives_on a (env, Kill) = (caller env \<noteq> a)"
| "lives_on a _ = True"

lemma account_change_other: "k' \<noteq> k \<Longrightarrow> account_change k call m k' = m k'"
  by (cases call) auto

lemma handed_back_step:
  assumes st: "gateway_step ext sender w (env, call) w'" and pays: "sender_pays sender" and inv: "gateway_inv ext (wstate w)"
    and acc: "handed_back (wstate w) (new_from_parent (network_name (wstate w)) a) = Some v" and "lives_on a (env, call)"
  shows "gateway_inv ext (wstate w')" and "network_name (wstate w') = network_name (wstate w)"
    and "handed_back (wstate w') (new_from_parent (network_name (wstate w)) a) =
      Some (v + (case committed_by a (env, call) of Some c \<Rightarrow> up_amount c | None \<Rightarrow> 0))"
proof -
  let ?k = "new_from_parent (network_name (wstate w)) a"
  from st have id: "caller_is_id env" and g: "gateway_invoke ext sender env call (credited env w) = Inr w'"
    by (auto elim: gateway_stepE)
  have i: "gateway_inv ext (wstate (credited env w))" using inv by simp
  show "gateway_inv ext (wstate w')" by (rule gateway_invoke_inv [OF g id sender_pays_keeps [OF pays] i])
  show "network_name (wstate w') = network_name (wstate w)"
    using gateway_invoke_others [OF g i id pays] by (simp add: others_kept_def same_net_def)
  note change = gateway_invoke_account [OF g id i pays]
  show "handed_back (wstate w') ?k = Some (v + (case committed_by a (env, call) of Some c \<Rightarrow> up_amount c | None \<Rightarrow> 0))"
  proof (cases "caller env = a")
    case False
    then have "own_id env (wstate w) \<noteq> ?k" by (simp add: new_from_parent_inject)
    with change acc False show ?thesis by (cases call) auto
  next
    case True
    have "call \<noteq> Register"
    proof
      assume "call = Register"
      with g obtain x where "register env (credited env w) = Inr (x, w')" by auto
      from register_view(1) [OF this id] have "subnets (wstate w) ?k = None" by (simp add: view_def True)
      with acc show False by (simp add: handed_back_def)
    qed
    with change acc True assms(5) show ?thesis by (cases call) auto
  qed
qed

section \<open>Properties\<close>

text \<open>A child without any money, at its start.\<close>

definition fresh_network :: "((nat, nat) gateway, ledger) world" where
  "fresh_network = \<lparr>wstate = sample_governed\<lparr>network_name := \<lparr>root = 1, children = [7]\<rparr>\<rparr>, wbalance = 10 ^ 30,
     wrest = \<lparr>circulating = 0, burnt = 0, came_down = 0, granted = 0\<rparr>\<rparr>"

lemma fresh_network_ok: "economy_ok sample_ext fresh_network"
  by (auto simp: economy_ok_def books_ok_def funds_ok_def checks_fair_def fresh_network_def sample_governed_def
      sample_gateway_def gateway_inv_def subnets_ok_def checks_ok_def postbox_ok_def well_keyed_def)

lemma fresh_network_empty:
  "sent_up (wstate fresh_network) + held (wstate fresh_network) + circulating (wrest fresh_network) = 0"
  by (simp add: fresh_network_def sample_governed_def sample_gateway_def sent_up_def held_def)

text \<open>A funding of the child at the parent, and the checkpoint of the parent that brings it to the child.\<close>

definition funding_env :: "nat msg_env" where
  "funding_env = sample_env 33 (10 ^ 12 + CROSS_MSG_FEE) True"

definition funding_params :: "nat fund_params" where
  "funding_params = \<lparr>fund_subnet = \<lparr>root = 1, children = [7]\<rparr>, fund_to = 44\<rparr>"

definition funding_topdown :: "nat topdown_checkpoint" where
  "funding_topdown = \<lparr>topdown_epoch = 10, top_down_msgs = [sample_from_parent\<lparr>msg := (msg sample_from_parent)\<lparr>msg_value := 10 ^ 12\<rparr>\<rparr>]\<rparr>"

text \<open>
  The first funds of the validators are a grant that no parent backs: a validator that gets its coins at the first epoch and
  releases them makes the network owe the parent what no parent ever sent down, and the parent refuses the
  checkpoint of that window, with everything that others released in it.
\<close>

abbreviation one_validator :: "nat validator_set" where
  "one_validator \<equiv> new_validator_set [\<lparr>val_addr = 1, val_net_addr = [], val_weight = 3\<rparr>] 0"

definition genesis_env :: "nat msg_env" where
  "genesis_env = (sample_env 0 0 False)\<lparr>curr_epoch := 1\<rparr>"

abbreviation grant_env :: "nat msg_env" where
  "grant_env \<equiv> sample_env 1 INITIAL_VALIDATOR_FUNDS True"

definition backed_parent :: "(nat, nat) gateway" where
  "backed_parent = flush_subnet ((fresh_subnet (sample_env 7 120 False) \<lparr>root = 1, children = [7]\<rparr>)
     \<lparr>circ_supply := INITIAL_VALIDATOR_FUNDS\<rparr>) sample_registered"

lemma sample_grant:
  "\<exists>w1. set_membership sample_ext (booking_send sample_ext) genesis_env one_validator (paid_in genesis_env fresh_network) = Inr ([], w1) \<and>
     wrest w1 = \<lparr>circulating = INITIAL_VALIDATOR_FUNDS, burnt = 0, came_down = 0, granted = 0\<rparr> \<and>
     (\<exists>w2 ch. release sample_ext (booking_send sample_ext) grant_env 5
        (paid_in grant_env (w1\<lparr>wrest := (wrest w1)\<lparr>granted := INITIAL_VALIDATOR_FUNDS\<rparr>\<rparr>)) = Inr ((), w2) \<and>
     bottomup_checkpoints (wstate w2) 30 = Some ch \<and> check_source (check_content ch) = \<lparr>root = 1, children = [7]\<rparr> \<and>
     commit_child_check sample_ext recording_send (sample_env 7 0 False) ch (sample_world sample_registered (10 ^ 30)) =
       Inl (ActorError USR_ILLEGAL_STATE) \<and>
     (\<exists>w. commit_child_check sample_ext recording_send (sample_env 7 0 False) ch (sample_world backed_parent (10 ^ 30)) = Inr ((), w)))"
  by (simp add: set_membership_def genesis_env_def fresh_network_def set_members_def new_validator_set_def new_membership_def
       INITIAL_VALIDATOR_FUNDS_def from_whole_def is_root_def
       cross_msg_send_def booking_send_def settled_def
       sample_inner_eval release_def is_valid_account_address_def resolved_from_to_def
      paid_in_def new_release_msg_def parent_def commit_bottomup_msg_def store_msg_in_checkpoint_def
      push_cross_msgs_def burn_bu_funds_def backed_parent_def sample_registered_def sample_commit_eval)


end
