(* ===== verification/Two_Networks.thy ===== *)
theory Two_Networks
  imports Supply_Accounts
begin

text \<open>
  The gateway of a parent and the gateway of its child as one system. Everything anybody does to either of
  them is a step; what links them is what honest validators carry from one to the other: the messages that
  the parent stored for the child, in order, and the checkpoints of the child whose window is over.
\<close>

section \<open>Stored messages stay\<close>

definition stored :: "('a, 'c) gateway \<Rightarrow> 'a subnet_id \<rightharpoonup> (u64 \<rightharpoonup> 'a cross_msg)" where
  "stored st = (\<lambda>k. map_option topdown_msgs (subnets st k))"

text \<open>A table of messages may only grow, by messages of a value that is not negative.\<close>

definition grows :: "(u64 \<rightharpoonup> 'a cross_msg) \<Rightarrow> (u64 \<rightharpoonup> 'a cross_msg) \<Rightarrow> bool" where
  "grows m m' \<longleftrightarrow> m \<subseteq>\<^sub>m m' \<and> (\<forall>n cm. m' n = Some cm \<longrightarrow> m n = Some cm \<or> 0 \<le> msg_value (msg cm))"

lemma grows_nonneg:
  "grows m m' \<Longrightarrow> \<forall>n cm. m n = Some cm \<longrightarrow> 0 \<le> msg_value (msg cm) \<Longrightarrow> \<forall>n cm. m' n = Some cm \<longrightarrow> 0 \<le> msg_value (msg cm)"
  unfolding grows_def by blast

definition keeps_stored :: "'a subnet_id set \<Rightarrow> ('a, 'c) gateway \<Rightarrow> ('a, 'c) gateway \<Rightarrow> bool" where
  "keeps_stored D st st' \<longleftrightarrow>
     (\<forall>k m. k \<notin> D \<longrightarrow> stored st k = Some m \<longrightarrow> (\<exists>m'. stored st' k = Some m' \<and> grows m m'))"

lemma grows_refl [simp]: "grows m m"
  by (simp add: grows_def)

lemma keeps_stored_same: "stored st' = stored st \<Longrightarrow> keeps_stored D st st'"
  by (simp add: keeps_stored_def)

lemma keeps_stored_cong: "subnets st' = subnets st \<Longrightarrow> keeps_stored D st st'"
  by (rule keeps_stored_same) (simp add: stored_def)

lemma keeps_storedD:
  assumes "keeps_stored D st st'" and "k \<notin> D" and "subnets st k = Some sub" and "subnets st' k = Some sub'"
  shows "grows (topdown_msgs sub) (topdown_msgs sub')"
proof -
  have "stored st k = Some (topdown_msgs sub)" "stored st' k = Some (topdown_msgs sub')"
    using assms(3,4) by (simp_all add: stored_def)
  with assms(1,2) show ?thesis unfolding keeps_stored_def by fastforce
qed

lemma keeps_stored_flush:
  assumes "subnets st (sub_id sub) = Some old" and "grows (topdown_msgs old) (topdown_msgs sub)"
  shows "keeps_stored D st (flush_subnet sub st)"
  using assms by (auto simp: keeps_stored_def stored_def)

lemma commit_topdown_msg_stored:
  fixes st :: "('a, 'b) gateway"
  assumes ok: "subnets_ok st" and v: "0 \<le> msg_value (msg cm)" and c: "commit_topdown_msg resolve cm st = Inr (cm', st')"
  shows "keeps_stored D st st'"
  using c
proof (rule commit_topdown_msg_Inr)
  fix hop n and sub :: "('a, 'b) subnet"
  assume sub: "get_subnet resolve hop st = Some sub" and cm': "cm' = set_nonce (topdown_nonce sub) cm"
    and st': "st' = flush_subnet (sub\<lparr>topdown_msgs := (topdown_msgs sub)(topdown_nonce sub \<mapsto> cm'),
       topdown_nonce := n, circ_supply := circ_supply sub + msg_value (msg cm)\<rparr>) st"
  note s = get_subnet_ok [OF ok sub]
  have "topdown_msgs sub (topdown_nonce sub) = None" using s(2) by (auto simp: subnet_ok_def)
  then show ?thesis
    unfolding st' using s(1) v by (intro keeps_stored_flush) (auto simp: grows_def map_le_def cm' set_nonce_def)
qed

lemma stores_down_stored:
  assumes "subnets_ok st" and "0 \<le> msg_value (msg cm)" and "stores_down env cm st st'"
  shows "keeps_stored D st st'"
proof -
  from assms(3) obtain st1 cm' st2 where t: "same_tables st st1" "same_tables st2 st'" and ok: "subnets_ok st \<longrightarrow> subnets_ok st1"
    and c: "commit_topdown_msg (resolve_address env) cm st1 = Inr (cm', st2)" by (rule stores_downE)
  from commit_topdown_msg_stored [OF ok [rule_format, OF assms(1)] assms(2) c, of D] t show ?thesis
    by (simp add: keeps_stored_def stored_def same_tables_def)
qed

lemma stores_up_stored: "stores_up ext env cm st st' \<Longrightarrow> keeps_stored D st st'"
  by (auto simp: stores_up_def same_tables_def intro!: keeps_stored_cong dest: commit_bottomup_msg_fields(1))

lemma frame_stored: "frame st' = frame st \<Longrightarrow> stored st' = stored st"
proof -
  have "stored st = (\<lambda>k. map_option topdown_msgs (frame st k))" for st :: "('a, 'b) gateway"
    by (simp add: stored_def frame_def option.map_comp comp_def)
  then show "frame st' = frame st \<Longrightarrow> stored st' = stored st" by simp
qed

lemma submit_topdown_stored:
  assumes "submit_topdown_check ext sender env cp w = Inr (b, w')" and inv: "gateway_inv ext (wstate w)"
    and pays: "sender_pays sender"
  shows "stored (wstate w') = stored (wstate w)"
proof -
  let ?P = "\<lambda>v. gateway_inv ext (wstate v) \<and> stored (wstate v) = stored (wstate w)"
  have "?P w'"
  proof (rule submit_topdown_check_keeps [OF assms(1), where P = ?P])
    fix ms v v' assume a: "apply_msgs ext sender env UNDEF ms v = Inr v'" and P: "?P v"
    from P have i: "gateway_inv ext (wstate v)" by simp
    from frame_stored [OF apply_msgs_frame [OF a i pays]] apply_msgs_inv [OF a sender_pays_keeps [OF pays] i] P
    show "?P v'" by simp
  qed (use inv in \<open>auto simp: stored_def\<close>)
  then show ?thesis by simp
qed

lemma commit_child_check_stored:
  assumes c: "commit_child_check ext sender env commit w = Inr (u, w')" and id: "caller_is_id env"
    and inv: "gateway_inv ext (wstate w)" and pays: "sender_pays sender"
  shows "keeps_stored D (wstate w) (wstate w')"
proof -
  from commit_child_check_Inr [OF c] obtain st1 w2
    where st1: "commit_child_state ext env commit (wstate w) = Inr ((total_fee commit, checkpoint_msgs commit), st1)"
    and a: "apply_msgs ext sender env (check_source (check_content commit)) (msgs_of commit) (w\<lparr>wstate := st1\<rparr>) = Inr w2"
    and d: "distribute_crossmsg_fee ext sender (caller env) (total_fee commit) w2 = Inr w'" by blast
  from commit_child_state_Inr [OF st1] obtain sub ch'
    where sub: "get_subnet (resolve_address env) (own_id env (wstate w)) (wstate w) = Some sub"
    and s1: "st1 = flush_subnet (sub\<lparr>circ_supply := circ_supply sub - (total_value commit + total_fee commit),
        prev_checkpoint := Some commit\<rparr>) (flush_checkpoint ch' (wstate w))"
    by blast
  have "gateway_inv ext (wstate (w\<lparr>wstate := st1\<rparr>))" using commit_child_state_inv [OF inv st1] by simp
  from frame_stored [OF apply_msgs_frame [OF a this pays]] distribute_crossmsg_fee_pays(1) [OF d pays]
  have "stored (wstate w') = stored st1" by simp
  moreover have "keeps_stored D (flush_checkpoint ch' (wstate w)) st1"
    unfolding s1 using own_account [OF inv id sub] by (intro keeps_stored_flush) auto
  ultimately show ?thesis by (simp add: keeps_stored_def stored_def)
qed

lemma add_stake_to_stored:
  assumes inv: "gateway_inv ext st" and id: "caller_is_id env"
    and sub: "get_subnet (resolve_address env) (own_id env st) st = Some sub"
  shows "stored (add_stake_to v sub st) = stored st"
  using own_account [OF assms] by (auto simp: stored_def add_stake_to_def Let_def)

lemma gateway_invoke_stored:
  assumes g: "gateway_invoke ext sender env call w = Inr w'" and id: "caller_is_id env"
    and ok: "funds_ok ext (wstate w)" and pays: "sender_pays sender"
  shows "keeps_stored (if call = Kill then {own_id env (wstate w)} else {}) (wstate w) (wstate w')"
proof (cases "calls_of_actors call")
  note inv = funds_okD(1) [OF ok]
  case True
  show ?thesis
  proof (cases call)
    case Register
    with g obtain shid where "register env w = Inr (shid, w')" by auto
    from register_state [OF this id] Register show ?thesis by (auto simp: keeps_stored_def stored_def fresh_subnet_def)
  next
    case AddStake
    with stake_state [OF g _ pays] show ?thesis
      by (auto simp: add_stake_to_stored [OF inv id] intro: keeps_stored_same)
  next
    case (ReleaseStake v)
    with stake_state [OF g _ pays] show ?thesis
      by (auto simp: add_stake_to_stored [OF inv id] intro: keeps_stored_same)
  next
    case Kill
    with g obtain u where "kill sender env w = Inr (u, w')" by auto
    from kill_state [OF this id pays] Kill show ?thesis
      by (auto simp: keeps_stored_def stored_def delete_subnet_def)
  next
    case (CommitChildCheckpoint c)
    with g obtain u where "commit_child_check ext sender env c w = Inr (u, w')" by auto
    from commit_child_check_stored [OF this id inv pays] CommitChildCheckpoint show ?thesis by simp
  qed (use True in simp_all)
next
  case False
  note inv = funds_okD(1) [OF ok]
  from inv have "subnets_ok (wstate w)" by (simp add: gateway_inv_def)
  with gateway_invoke_tables [OF g pays False] ok have "keeps_stored {} (wstate w) (wstate w')"
    by (auto simp: same_tables_def submit_topdown_stored [OF _ inv pays]
        intro: keeps_stored_cong keeps_stored_same stores_down_stored stores_up_stored)
  with False show ?thesis by auto
qed

section \<open>Windows that are over\<close>

text \<open>A call at an epoch touches no checkpoint of a window that ended by then.\<close>

definition windows_kept :: "chain_epoch \<Rightarrow> ('a, 'c) gateway \<Rightarrow> ('a, 'c) gateway \<Rightarrow> bool" where
  "windows_kept t st st' \<longleftrightarrow> bottomup_check_period st' = bottomup_check_period st \<and>
     (\<forall>e \<le> t. bottomup_checkpoints st' e = bottomup_checkpoints st e)"

lemma windows_kept_refl [simp]: "windows_kept t st st"
  by (simp add: windows_kept_def)

lemma windows_kept_trans: "windows_kept t st st' \<Longrightarrow> windows_kept t st' st'' \<Longrightarrow> windows_kept t st st''"
  by (simp add: windows_kept_def)

lemma windows_kept_cong:
  "bottomup_checkpoints st' = bottomup_checkpoints st \<Longrightarrow> bottomup_check_period st' = bottomup_check_period st \<Longrightarrow>
    windows_kept t st st'"
  by (simp add: windows_kept_def)

lemma window_epoch_after:
  assumes "window_epoch e p = Inr w" and "0 \<le> e" and "0 < p"
  shows "e < w"
proof -
  have w: "w = p * (e sdiv p + 1)"
    using assms(1) by (auto simp: window_epoch_def i64_div_def split: if_splits)
  have "e sdiv p = e div p" by (rule sdiv_nonneg [OF assms(2,3)])
  moreover have "e < p * (e div p) + p"
    using assms(3) mult_div_mod_eq [of p e] pos_mod_bound [OF assms(3), of e] by linarith
  ultimately show ?thesis by (simp add: w algebra_simps)
qed

lemma flush_window_kept:
  assumes ch: "get_window_checkpoint ext t st = Inr ch" and inv: "gateway_inv ext st" and p: "0 < bottomup_check_period st"
    and "check_epoch (check_content ch') = check_epoch (check_content ch)"
  shows "windows_kept t st (flush_checkpoint ch' st)"
proof -
  obtain w where w: "window_epoch t (bottomup_check_period st) = Inr w" and t: "0 \<le> t"
    and ch': "ch = (case bottomup_checkpoints st w of Some c \<Rightarrow> c | None \<Rightarrow> new_checkpoint (genesis_cid ext) (network_name st) w)"
    using ch by (auto simp: get_window_checkpoint_def split: if_splits)
  have "check_epoch (check_content ch) = w"
    using inv ch' by (auto simp: gateway_inv_def checks_ok_def well_keyed_def split: option.split)
  with window_epoch_after [OF w t p] assms(4) show ?thesis
    by (simp add: windows_kept_def flush_checkpoint_def)
qed

lemma commit_bottomup_msg_windows:
  assumes c: "commit_bottomup_msg ext cm t fee st = Inr st'" and inv: "gateway_inv ext st" and p: "0 < bottomup_check_period st"
  shows "windows_kept t st st'"
proof -
  from c obtain ch n where ch: "get_window_checkpoint ext t st = Inr ch"
    and st': "st' = flush_checkpoint (push_cross_msgs (set_nonce (bottomup_nonce st) cm) fee ch) (st\<lparr>bottomup_nonce := n\<rparr>)"
    by (auto simp: commit_bottomup_msg_def store_msg_in_checkpoint_def Let_def)
  have "windows_kept t st (flush_checkpoint (push_cross_msgs (set_nonce (bottomup_nonce st) cm) fee ch) st)"
    by (rule flush_window_kept [OF ch inv p]) simp
  then show ?thesis by (simp add: windows_kept_def st' flush_checkpoint_def)
qed

lemma same_tables_windows: "same_tables st st' \<Longrightarrow> windows_kept t st st'"
  by (simp add: same_tables_def windows_kept_cong)

lemma stores_windows:
  assumes "stores_down env cm st st' \<or> stores_up ext env cm st st'" and inv: "gateway_inv ext st"
    and p: "0 < bottomup_check_period st"
  shows "windows_kept (curr_epoch env) st st'"
  using assms(1)
proof
  assume "stores_down env cm st st'"
  then obtain st1 cm' st2 where t: "same_tables st st1" "same_tables st2 st'"
    and c: "commit_topdown_msg (resolve_address env) cm st1 = Inr (cm', st2)" by (blast elim: stores_downE)
  from c have "windows_kept (curr_epoch env) st1 st2" by (auto intro!: windows_kept_cong elim!: commit_topdown_msg_Inr)
  with t show ?thesis by (blast intro: windows_kept_trans same_tables_windows)
next
  assume "stores_up ext env cm st st'"
  then show ?thesis unfolding stores_up_def
    by (blast intro: windows_kept_trans commit_bottomup_msg_windows [OF _ inv p] same_tables_windows)
qed

lemma apply_msg_inner_windows:
  assumes pays: "sender_pays sender" and a: "apply_msg_inner ext sender env fw cm w = Inr (b, w')"
  shows "windows_kept t (wstate w) (wstate w')"
  using apply_msg_inner_Inr [OF a]
  by (elim disjE exE conjE; intro windows_kept_cong)
    (auto simp: apply_bottomup_def increase_applied_bottomup_def apply_topdown_def insert_postbox_def put_postbox_def
      Let_def split: option.splits if_splits dest: cross_msg_send_pays(1) [OF _ pays])

lemma apply_msgs_windows:
  assumes "apply_msgs ext sender env fw ms w = Inr w'" and pays: "sender_pays sender"
  shows "windows_kept t (wstate w) (wstate w')"
  by (rule fold_res_invariant [OF _ assms(1) [unfolded apply_msgs_def], where P = "\<lambda>u. windows_kept t (wstate w) (wstate u)"])
    (auto intro: windows_kept_trans dest: apply_msg_inner_windows [OF pays])

lemma commit_child_check_windows:
  assumes c: "commit_child_check ext sender env commit w = Inr (u, w')" and inv: "gateway_inv ext (wstate w)"
    and p: "0 < bottomup_check_period (wstate w)" and pays: "sender_pays sender"
  shows "windows_kept (curr_epoch env) (wstate w) (wstate w')"
proof -
  from commit_child_check_Inr [OF c] obtain st1 w2
    where st1: "commit_child_state ext env commit (wstate w) = Inr ((total_fee commit, checkpoint_msgs commit), st1)"
    and a: "apply_msgs ext sender env (check_source (check_content commit)) (msgs_of commit) (w\<lparr>wstate := st1\<rparr>) = Inr w2"
    and d: "distribute_crossmsg_fee ext sender (caller env) (total_fee commit) w2 = Inr w'" by blast
  from commit_child_state_Inr [OF st1] obtain sub ch ch'
    where ch: "get_window_checkpoint ext (curr_epoch env) (wstate w) = Inr ch"
    and ch': "add_child_check (check_hash ext) commit ch = Inr ch'"
    and s1: "st1 = flush_subnet (sub\<lparr>circ_supply := circ_supply sub - (total_value commit + total_fee commit),
        prev_checkpoint := Some commit\<rparr>) (flush_checkpoint ch' (wstate w))"
    by blast
  have "windows_kept (curr_epoch env) (wstate w) st1"
    using flush_window_kept [OF ch inv p add_child_check_facts(4) [OF ch']] by (simp add: windows_kept_def s1)
  from windows_kept_trans [OF this] apply_msgs_windows [OF a pays] distribute_crossmsg_fee_pays(1) [OF d pays]
  show ?thesis by simp
qed

lemma gateway_invoke_windows:
  assumes g: "gateway_invoke ext sender env call w = Inr w'" and id: "caller_is_id env"
    and inv: "gateway_inv ext (wstate w)" and p: "0 < bottomup_check_period (wstate w)" and pays: "sender_pays sender"
  shows "windows_kept (curr_epoch env) (wstate w) (wstate w')"
proof (cases "calls_of_actors call")
  case True
  show ?thesis
  proof (cases call)
    case Register
    with g obtain shid where "register env w = Inr (shid, w')" by auto
    from register_state [OF this id] show ?thesis by (auto intro!: windows_kept_cong)
  next
    case AddStake
    with stake_state [OF g _ pays] show ?thesis by (auto intro!: windows_kept_cong simp: add_stake_to_def Let_def)
  next
    case (ReleaseStake v)
    with stake_state [OF g _ pays] show ?thesis by (auto intro!: windows_kept_cong simp: add_stake_to_def Let_def)
  next
    case Kill
    with g obtain u where "kill sender env w = Inr (u, w')" by auto
    from kill_state [OF this id pays] show ?thesis by (auto intro!: windows_kept_cong simp: delete_subnet_def)
  next
    case (CommitChildCheckpoint c)
    with g obtain u where "commit_child_check ext sender env c w = Inr (u, w')" by auto
    from commit_child_check_windows [OF this inv p pays] show ?thesis .
  qed (use True in simp_all)
next
  case False
  have executes: "windows_kept (curr_epoch env) (wstate w) (wstate w')"
    if "submit_topdown_check ext sender env cp w = Inr (b, w')" for cp b
    using that
    by (rule submit_topdown_check_keeps [where P = "\<lambda>v. windows_kept (curr_epoch env) (wstate w) (wstate v)"])
      (auto intro: windows_kept_trans [OF _ apply_msgs_windows [OF _ pays]] windows_kept_trans [OF _ windows_kept_cong])
  from gateway_invoke_tables [OF g pays False] show ?thesis
    using executes stores_windows [OF _ inv p] same_tables_windows by blast
qed

section \<open>The last checkpoint of a child\<close>

text \<open>The gateway remembers the checkpoint a child committed last, and takes only later ones.\<close>

definition last_check :: "('a, 'c) gateway \<Rightarrow> 'a subnet_id \<Rightarrow> ('a, 'c) bottom_up_checkpoint option" where
  "last_check st k = (case view st k of Some (s, b, p) \<Rightarrow> p | None \<Rightarrow> None)"

lemma child_of_itself: "new_from_parent k a \<noteq> k"
proof
  assume "new_from_parent k a = k"
  then have "length (children (new_from_parent k a)) = length (children k)" by simp
  then show False by (simp add: new_from_parent_def new_subnet_id_def)
qed

lemma gateway_invoke_last_check:
  assumes g: "gateway_invoke ext sender env call w = Inr w'" and id: "caller_is_id env"
    and inv: "gateway_inv ext (wstate w)" and pays: "sender_pays sender"
    and k: "k = new_from_parent (network_name (wstate w)) a" "subnets (wstate w) k \<noteq> None" and "lives_on a (env, call)"
  shows "last_check (wstate w') k = (case committed_by a (env, call) of Some c \<Rightarrow> Some c | None \<Rightarrow> last_check (wstate w) k)"
    and "committed_by a (env, call) = Some c \<Longrightarrow> last_check (wstate w) k = Some prev \<Longrightarrow>
      check_epoch (check_content prev) < check_epoch (check_content c)"
proof -
  have other: "last_check (wstate w') k = last_check (wstate w) k" if "others_kept j (wstate w) (wstate w')" "j \<noteq> k" for j
    using that by (auto simp: last_check_def others_kept_def)
  have committed: "caller env = a \<and> call = CommitChildCheckpoint c" if "committed_by a (env, call) = Some c" for c
    using that by (cases call) (auto split: if_splits)
  show "check_epoch (check_content prev) < check_epoch (check_content c)"
    if c: "committed_by a (env, call) = Some c" and prev: "last_check (wstate w) k = Some prev"
  proof -
    from committed [OF c] g obtain u where "commit_child_check ext sender env c w = Inr (u, w')" by auto
    from commit_child_check_view [OF this id inv pays] committed [OF c] prev k(1) show ?thesis by (auto simp: last_check_def)
  qed
  show "last_check (wstate w') k = (case committed_by a (env, call) of Some c \<Rightarrow> Some c | None \<Rightarrow> last_check (wstate w) k)"
  proof (cases "caller env = a")
    case False
    then have "own_id env (wstate w) \<noteq> k" by (simp add: k(1) new_from_parent_inject)
    from other [OF gateway_invoke_others [OF g inv id pays] this] False show ?thesis by (cases call) auto
  next
    case True
    show ?thesis
    proof (cases call)
      case Register
      with g obtain shid where "register env w = Inr (shid, w')" by auto
      from register_view(1) [OF this id] k True show ?thesis by (simp add: view_def)
    next
      case AddStake
      with g obtain u where "add_stake env w = Inr (u, w')" by auto
      from add_stake_view [OF this id inv] True AddStake k(1) show ?thesis by (auto simp: last_check_def)
    next
      case (ReleaseStake v)
      with g obtain u where "release_stake sender env v w = Inr (u, w')" by auto
      from release_stake_view [OF this id inv pays] True ReleaseStake k(1) show ?thesis by (auto simp: last_check_def)
    next
      case (CommitChildCheckpoint c)
      with g obtain u where "commit_child_check ext sender env c w = Inr (u, w')" by auto
      from commit_child_check_view [OF this id inv pays] True CommitChildCheckpoint k(1) show ?thesis by (auto simp: last_check_def)
    qed (use True assms(7) other [OF gateway_invoke_quiet [OF g inv pays] child_of_itself] in auto)
  qed
qed

section \<open>The system of two networks\<close>

text \<open>
  The two gateways with their ledgers, the messages of the parent that the validators of the child have
  carried down, the epoch of the child, and the windows whose checkpoints the parent took.
\<close>

record ('a, 'c) two_nets =
  above :: "('a, 'c, ledger) gw_world"
  below :: "('a, 'c, ledger) gw_world"
  carried :: "'a cross_msg list"
  child_epoch :: chain_epoch
  accepted :: "chain_epoch list"

datatype ('a, 'c) net_event =
    Above "'a msg_env" "('a, 'c) gateway_call"
  | Below "'a msg_env" "('a, 'c) gateway_call"

text \<open>The messages are the next ones of the table, from the given nonce on.\<close>

definition relays :: "(u64 \<rightharpoonup> 'a cross_msg) \<Rightarrow> nat \<Rightarrow> 'a cross_msg list \<Rightarrow> bool" where
  "relays tbl n ms \<longleftrightarrow> map tbl (map of_nat [n ..< n + length ms]) = map Some ms"

text \<open>A checkpoint carries what the gateway of the child put into the window of its epoch.\<close>

definition carries :: "('a, 'c) gateway \<Rightarrow> ('a, 'c) bottom_up_checkpoint \<Rightarrow> bool" where
  "carries st c \<longleftrightarrow>
     (case bottomup_checkpoints st (check_epoch (check_content c)) of
        Some t \<Rightarrow> msgs_of c = msgs_of t \<and> total_fee c = total_fee t
      | None \<Rightarrow> msgs_of c = [] \<and> total_fee c = 0)"

definition window_amount :: "('a, 'c) gateway \<Rightarrow> chain_epoch \<Rightarrow> token_amount" where
  "window_amount st e = (case bottomup_checkpoints st e of Some t \<Rightarrow> up_amount t | None \<Rightarrow> 0)"

inductive two_step ::
    "('a, 'c) externs \<Rightarrow> ('a, 'c, ledger) gw_sender \<Rightarrow> ('a, 'c) externs \<Rightarrow> ('a, 'c, ledger) gw_sender \<Rightarrow> 'a \<Rightarrow>
     ('a, 'c) two_nets \<Rightarrow> ('a, 'c) net_event \<Rightarrow> ('a, 'c) two_nets \<Rightarrow> bool"
  for pext psender ext sender a where
  parent_call: "economy_step pext psender (above s) (env, call) p \<Longrightarrow> lives_on a (env, call) \<Longrightarrow>
    committed_by a (env, call) = None \<Longrightarrow>
    two_step pext psender ext sender a s (Above env call) (s\<lparr>above := p\<rparr>)"
| parent_check: "economy_step pext psender (above s) (env, CommitChildCheckpoint c) p \<Longrightarrow> caller env = a \<Longrightarrow>
    check_epoch (check_content c) \<le> child_epoch s \<Longrightarrow> carries (wstate (below s)) c \<Longrightarrow>
    two_step pext psender ext sender a s (Above env (CommitChildCheckpoint c))
      (s\<lparr>above := p, accepted := accepted s @ [check_epoch (check_content c)]\<rparr>)"
| child_call: "economy_step ext sender (below s) (env, call) c \<Longrightarrow> child_epoch s \<le> curr_epoch env \<Longrightarrow>
    subnets (wstate (above s)) (network_name (wstate (below s))) = Some sub \<Longrightarrow>
    ms = handed_down ext env call (wstate (below s)) \<Longrightarrow> relays (topdown_msgs sub) (length (carried s)) ms \<Longrightarrow>
    two_step pext psender ext sender a s (Below env call)
      (s\<lparr>below := c, child_epoch := curr_epoch env, carried := carried s @ ms\<rparr>)"

text \<open>What the parent books for the child.\<close>

definition child_account :: "('a, 'c) two_nets \<Rightarrow> ('a, 'c) subnet \<Rightarrow> bool" where
  "child_account s sub \<longleftrightarrow>
     sent_down sub - circ_supply sub = sum_list (map (window_amount (wstate (below s))) (accepted s)) \<and>
     relays (topdown_msgs sub) 0 (carried s) \<and>
     (\<forall>n cm. topdown_msgs sub n = Some cm \<longrightarrow> 0 \<le> msg_value (msg cm)) \<and>
     (\<forall>e \<in> set (accepted s). \<exists>c. prev_checkpoint sub = Some c \<and> e \<le> check_epoch (check_content c))"

definition two_ok :: "('a, 'c) externs \<Rightarrow> ('a, 'c) externs \<Rightarrow> 'a \<Rightarrow> ('a, 'c) two_nets \<Rightarrow> bool" where
  "two_ok pext ext a s \<longleftrightarrow>
     economy_ok pext (above s) \<and> economy_ok ext (below s) \<and> 0 < bottomup_check_period (wstate (below s)) \<and>
     network_name (wstate (below s)) = new_from_parent (network_name (wstate (above s))) a \<and>
     (\<exists>sub. subnets (wstate (above s)) (network_name (wstate (below s))) = Some sub \<and> child_account s sub) \<and>
     distinct (accepted s) \<and> (\<forall>e \<in> set (accepted s). e \<le> child_epoch s) \<and>
     came_down (wrest (below s)) = sum_values (carried s) \<and> wealth (below s) \<le> came_in (below s)"

lemma carries_amount: "carries st c \<Longrightarrow> up_amount c = window_amount st (check_epoch (check_content c))"
  by (auto simp: carries_def window_amount_def up_amount_def total_value_eq split: option.splits)

lemma window_amount_cong:
  "windows_kept t st st' \<Longrightarrow> \<forall>e \<in> set es. e \<le> t \<Longrightarrow> map (window_amount st') es = map (window_amount st) es"
  by (auto simp: windows_kept_def window_amount_def)

text \<open>The amounts of different windows add up to no more than all checkpoints.\<close>

lemma window_amounts_le:
  assumes books: "books_ok ext st" and "distinct es"
  shows "sum_list (map (window_amount st) es) \<le> sent_up st"
proof -
  let ?tbl = "bottomup_checkpoints st" and ?es = "filter (\<lambda>e. bottomup_checkpoints st e \<noteq> None) es"
  have "sum_list (map (window_amount st) es) = sum_list (map (window_amount st) ?es)"
    by (induction es) (auto simp: window_amount_def)
  also have "\<dots> = sum_list (map up_amount (map (\<lambda>e. the (?tbl e)) ?es))"
    unfolding map_map by (intro arg_cong [where f = sum_list] map_cong) (auto simp: window_amount_def)
  also have "\<dots> \<le> sent_up st"
    unfolding sent_up_def
    by (rule table_sum_selection [OF books_okD(3) [OF books] books_okD(5) [OF books], where ks = ?es])
      (use assms(2) in \<open>auto simp: comp_def intro!: map_cong\<close>)
  finally show ?thesis .
qed

lemma relays_append:
  "relays tbl n xs \<Longrightarrow> relays tbl (n + length xs) ms \<Longrightarrow> relays tbl n (xs @ ms)"
  unfolding relays_def
  by (simp add: upt_add_eq_append [of n "n + length xs" "length ms"] add.assoc [symmetric])

lemma relays_grows:
  assumes "relays tbl n ms" and "grows tbl tbl'"
  shows "relays tbl' n ms"
proof -
  have "tbl' k = tbl k" if k: "k \<in> set (map of_nat [n ..< n + length ms])" for k
  proof -
    have "tbl k \<in> set (map tbl (map of_nat [n ..< n + length ms]))" unfolding set_map [of tbl] using k by blast
    then have "tbl k \<noteq> None" unfolding assms(1) [unfolded relays_def] by auto
    with assms(2) show ?thesis by (auto simp: grows_def map_le_def dom_def)
  qed
  then have "map tbl' (map of_nat [n ..< n + length ms]) = map tbl (map of_nat [n ..< n + length ms])"
    by (intro map_cong refl)
  with assms(1) show ?thesis by (simp only: relays_def)
qed

text \<open>What was carried down is part of what the parent sent down.\<close>

lemma relays_bound:
  assumes "relays tbl 0 ms" and "\<And>n. tbl n \<noteq> None \<Longrightarrow> n < N"
  shows "length ms \<le> unat N"
proof (rule ccontr)
  assume "\<not> length ms \<le> unat N"
  then have "unat N \<in> set [0 ..< 0 + length ms]" by simp
  then have "tbl (of_nat (unat N)) \<in> set (map tbl (map of_nat [0 ..< 0 + length ms]))"
    unfolding set_map by blast
  then have "tbl N \<noteq> None" unfolding assms(1) [unfolded relays_def] by auto
  with assms(2) show False by blast
qed

lemma carried_le_sent_down:
  assumes acc: "child_account s sub" and ok: "subnet_ok lim sub"
  shows "sum_values (carried s) \<le> sent_down sub"
proof -
  let ?n = "length (carried s)"
  have r: "relays (topdown_msgs sub) 0 (carried s)" using acc by (simp add: child_account_def)
  have "?n \<le> unat (topdown_nonce sub)"
    by (rule relays_bound [OF r]) (use ok in \<open>simp add: subnet_ok_def\<close>)
  then have n: "?n < 2 ^ 64" using u64_unat_less [of "topdown_nonce sub"] by simp
  have "inj_on (of_nat :: nat \<Rightarrow> u64) {0 ..< ?n}"
  proof (rule inj_onI)
    fix x y assume "x \<in> {0 ..< ?n}" "y \<in> {0 ..< ?n}" "(of_nat x :: u64) = of_nat y"
    with n show "x = y" by (simp add: word_of_nat_eq_iff take_bit_nat_eq_self)
  qed
  then have "distinct (map of_nat [0 ..< ?n] :: u64 list)" by (simp add: distinct_map)
  from table_sum_selection [OF _ _ this, of "topdown_msgs sub" "\<lambda>cm. msg_value (msg cm)" "carried s"] acc r
  show ?thesis by (simp add: child_account_def relays_def sent_down_def sum_values_def comp_def)
qed

text \<open>The steps of either side, seen through the gateway's dispatch.\<close>

lemma economy_stepD:
  assumes "economy_step ext sender w (env, call) w'" and ok: "economy_ok ext w" and s: "settles ext sender"
  obtains v where "caller_is_id env" and "gateway_invoke ext sender env call (paid_in env w) = Inr v"
    and "wstate v = wstate w'" and "wstate (paid_in env w) = wstate w" and "funds_ok ext (wstate w)"
    and "came_down (wrest w') = came_down (wrest w) + sum_values (handed_down ext env call (wstate w))"
  using assms(1)
proof (rule economy_stepE)
  fix v
  assume id: "caller_is_id env" and g: "gateway_invoke ext sender env call (paid_in env w) = Inr v"
    and w': "w' = booked ext env call (wstate w) v"
  have "books_move (paid_in env w) (wbalance v) (wrest v)" by (rule call_moves [OF s g])
  then have "came_down (wrest v) = came_down (wrest w)" by (simp add: books_move_def paid_in_def)
  with id g w' ok show thesis
    by (intro that) (simp_all add: booked_def paid_in_def economy_ok_def books_ok_def)
qed

lemma child_windows:
  assumes "economy_step ext sender w (env, call) w'" and ok: "economy_ok ext w" and s: "settles ext sender"
    and p: "0 < bottomup_check_period (wstate w)"
  shows "windows_kept (curr_epoch env) (wstate w) (wstate w')" and "network_name (wstate w') = network_name (wstate w)"
proof -
  from economy_stepD [OF assms(1) ok s] obtain v where id: "caller_is_id env"
    and g: "gateway_invoke ext sender env call (paid_in env w) = Inr v"
    and st: "wstate v = wstate w'" "wstate (paid_in env w) = wstate w" and f: "funds_ok ext (wstate w)" by blast
  note pays = settlesD(1) [OF s]
  have inv: "gateway_inv ext (wstate (paid_in env w))" using funds_okD(1) [OF f] st by simp
  from gateway_invoke_windows [OF g id inv _ pays] p st
  show "windows_kept (curr_epoch env) (wstate w) (wstate w')" by simp
  from gateway_invoke_others [OF g inv id pays] st
  show "network_name (wstate w') = network_name (wstate w)" by (simp add: others_kept_def same_net_def)
qed

lemma economy_step_gateway:
  assumes "economy_step ext sender w (env, call) w'"
  obtains v l where "gateway_step ext sender (w\<lparr>wrest := l\<rparr>) (env, call) v" and "wstate v = wstate w'"
  using assms
proof (rule economy_stepE)
  fix v
  assume a: "caller_is_id env" "0 \<le> value_received env" "gateway_invoke ext sender env call (paid_in env w) = Inr v"
    and w': "w' = booked ext env call (wstate w) v"
  let ?l = "(wrest w)\<lparr>circulating := circulating (wrest w) - value_received env\<rparr>"
  have "credited env (w\<lparr>wrest := ?l\<rparr>) = paid_in env w" by (simp add: paid_in_def credited_def)
  with a w' show thesis by (intro that [of ?l v]) (simp_all add: gateway_step_simps booked_def)
qed

lemma parent_account:
  assumes e: "economy_step ext sender w (env, call) w'" and ok: "economy_ok ext w" and s: "settles ext sender"
    and k: "k = new_from_parent (network_name (wstate w)) a" and sub: "subnets (wstate w) k = Some sub"
    and l: "lives_on a (env, call)"
  shows "\<exists>sub'. subnets (wstate w') k = Some sub' \<and> grows (topdown_msgs sub) (topdown_msgs sub') \<and>
      sent_down sub' - circ_supply sub' = sent_down sub - circ_supply sub +
        (case committed_by a (env, call) of Some c \<Rightarrow> up_amount c | None \<Rightarrow> 0) \<and>
      prev_checkpoint sub' = (case committed_by a (env, call) of Some c \<Rightarrow> Some c | None \<Rightarrow> prev_checkpoint sub) \<and>
      (\<forall>c prev. committed_by a (env, call) = Some c \<longrightarrow> prev_checkpoint sub = Some prev \<longrightarrow>
         check_epoch (check_content prev) < check_epoch (check_content c))"
    and "network_name (wstate w') = network_name (wstate w)"
proof -
  note pays = settlesD(1) [OF s]
  from economy_stepD [OF e ok s] obtain v where id: "caller_is_id env"
    and g: "gateway_invoke ext sender env call (paid_in env w) = Inr v"
    and st: "wstate v = wstate w'" "wstate (paid_in env w) = wstate w" and f: "funds_ok ext (wstate w)" by blast
  have f': "funds_ok ext (wstate (paid_in env w))" and inv: "gateway_inv ext (wstate (paid_in env w))"
    using f funds_okD(1) [OF f] st by simp_all
  have hb: "handed_back (wstate w) k = Some (sent_down sub - circ_supply sub)" using sub by (simp add: handed_back_def)
  from economy_step_gateway [OF e] obtain u x where step: "gateway_step ext sender (w\<lparr>wrest := x\<rparr>) (env, call) u"
    and u: "wstate u = wstate w'" by blast
  have "gateway_inv ext (wstate (w\<lparr>wrest := x\<rparr>))" using funds_okD(1) [OF f] by simp
  from handed_back_step [OF step pays this _ l] hb k u
  have hb': "handed_back (wstate w') k = Some (sent_down sub - circ_supply sub +
      (case committed_by a (env, call) of Some c \<Rightarrow> up_amount c | None \<Rightarrow> 0))"
    and net: "network_name (wstate w') = network_name (wstate w)" by simp_all
  from hb' obtain sub' where sub': "subnets (wstate w') k = Some sub'"
    and amount: "sent_down sub' - circ_supply sub' = sent_down sub - circ_supply sub +
      (case committed_by a (env, call) of Some c \<Rightarrow> up_amount c | None \<Rightarrow> 0)" by (auto simp: handed_back_def)
  have "call = Kill \<Longrightarrow> own_id env (wstate w) \<noteq> k" using l k by (auto simp: new_from_parent_inject)
  then have "grows (topdown_msgs sub) (topdown_msgs sub')"
    using keeps_storedD [OF gateway_invoke_stored [OF g id f' pays], of k sub sub'] sub sub' st by (cases "call = Kill") auto
  moreover
  have lc: "last_check (wstate w) k = prev_checkpoint sub" "last_check (wstate w') k = prev_checkpoint sub'"
    using sub sub' by (simp_all add: last_check_def view_def)
  have "k = new_from_parent (network_name (wstate (paid_in env w))) a" "subnets (wstate (paid_in env w)) k \<noteq> None"
    using k sub st by simp_all
  note check = gateway_invoke_last_check [OF g id inv pays this l, unfolded st lc]
  ultimately show "\<exists>sub'. subnets (wstate w') k = Some sub' \<and> grows (topdown_msgs sub) (topdown_msgs sub') \<and>
      sent_down sub' - circ_supply sub' = sent_down sub - circ_supply sub +
        (case committed_by a (env, call) of Some c \<Rightarrow> up_amount c | None \<Rightarrow> 0) \<and>
      prev_checkpoint sub' = (case committed_by a (env, call) of Some c \<Rightarrow> Some c | None \<Rightarrow> prev_checkpoint sub) \<and>
      (\<forall>c prev. committed_by a (env, call) = Some c \<longrightarrow> prev_checkpoint sub = Some prev \<longrightarrow>
         check_epoch (check_content prev) < check_epoch (check_content c))"
    using check sub' amount by (intro exI [of _ sub']) blast
  show "network_name (wstate w') = network_name (wstate w)" by (rule net)
qed

section \<open>The invariant of the system\<close>

lemma two_okD:
  assumes "two_ok pext ext a s"
  shows "economy_ok pext (above s)" and "economy_ok ext (below s)" and "0 < bottomup_check_period (wstate (below s))"
    and "network_name (wstate (below s)) = new_from_parent (network_name (wstate (above s))) a"
    and "\<exists>sub. subnets (wstate (above s)) (network_name (wstate (below s))) = Some sub \<and> child_account s sub"
    and "distinct (accepted s)" and "\<forall>e \<in> set (accepted s). e \<le> child_epoch s"
    and "came_down (wrest (below s)) = sum_values (carried s)" and "wealth (below s) \<le> came_in (below s)"
  using assms unfolding two_ok_def by blast+

lemma two_ok_parent_call:
  assumes ok: "two_ok pext ext a s" and ps: "settles pext psender"
    and e: "economy_step pext psender (above s) (env, call) p" and l: "lives_on a (env, call)"
    and none: "committed_by a (env, call) = None"
  shows "two_ok pext ext a (s\<lparr>above := p\<rparr>)"
proof -
  note d = two_okD [OF ok]
  from d(5) obtain sub where sub: "subnets (wstate (above s)) (network_name (wstate (below s))) = Some sub"
    and acc: "child_account s sub" by blast
  from parent_account [OF e d(1) ps d(4) sub l] none obtain sub' where
    sub': "subnets (wstate p) (network_name (wstate (below s))) = Some sub'"
    and g: "grows (topdown_msgs sub) (topdown_msgs sub')"
    and f: "sent_down sub' - circ_supply sub' = sent_down sub - circ_supply sub" "prev_checkpoint sub' = prev_checkpoint sub"
    and net: "network_name (wstate p) = network_name (wstate (above s))" by auto
  have "child_account (s\<lparr>above := p\<rparr>) sub'"
    using acc f relays_grows [OF _ g] grows_nonneg [OF g] by (simp add: child_account_def)
  with d sub' net economy_step_wealth [OF d(1) ps e] show ?thesis by (auto simp: two_ok_def)
qed

lemma two_ok_parent_check:
  assumes ok: "two_ok pext ext a s" and ps: "settles pext psender"
    and e: "economy_step pext psender (above s) (env, CommitChildCheckpoint c) p" and a: "caller env = a"
    and epoch: "check_epoch (check_content c) \<le> child_epoch s" and c: "carries (wstate (below s)) c"
  shows "two_ok pext ext a (s\<lparr>above := p, accepted := accepted s @ [check_epoch (check_content c)]\<rparr>)"
proof -
  note d = two_okD [OF ok]
  from d(5) obtain sub where sub: "subnets (wstate (above s)) (network_name (wstate (below s))) = Some sub"
    and acc: "child_account s sub" by blast
  have l: "lives_on a (env, CommitChildCheckpoint c)" by simp
  from parent_account [OF e d(1) ps d(4) sub l] a obtain sub' where
    sub': "subnets (wstate p) (network_name (wstate (below s))) = Some sub'"
    and g: "grows (topdown_msgs sub) (topdown_msgs sub')"
    and f: "sent_down sub' - circ_supply sub' = sent_down sub - circ_supply sub + up_amount c" "prev_checkpoint sub' = Some c"
    and later: "\<And>prev. prev_checkpoint sub = Some prev \<Longrightarrow> check_epoch (check_content prev) < check_epoch (check_content c)"
    and net: "network_name (wstate p) = network_name (wstate (above s))" by auto
  have less: "e < check_epoch (check_content c)" if "e \<in> set (accepted s)" for e
    using acc later that by (fastforce simp: child_account_def)
  have "child_account (s\<lparr>above := p, accepted := accepted s @ [check_epoch (check_content c)]\<rparr>) sub'"
    using acc f relays_grows [OF _ g] grows_nonneg [OF g] less carries_amount [OF c]
    by (auto simp: child_account_def less_imp_le)
  with d sub' net economy_step_wealth [OF d(1) ps e] epoch less show ?thesis by (auto simp: two_ok_def)
qed

lemma two_ok_child_call:
  assumes ok: "two_ok pext ext a s" and cs: "settles ext sender"
    and e: "economy_step ext sender (below s) (env, call) c" and epoch: "child_epoch s \<le> curr_epoch env"
    and sub: "subnets (wstate (above s)) (network_name (wstate (below s))) = Some sub"
    and ms: "ms = handed_down ext env call (wstate (below s))" and r: "relays (topdown_msgs sub) (length (carried s)) ms"
  shows "two_ok pext ext a (s\<lparr>below := c, child_epoch := curr_epoch env, carried := carried s @ ms\<rparr>)"
proof -
  note d = two_okD [OF ok]
  from d(5) sub have acc: "child_account s sub" by auto
  note w = child_windows [OF e d(2) cs d(3)]
  have le: "\<forall>x \<in> set (accepted s). x \<le> curr_epoch env" using d(7) epoch by auto
  have same: "sum_list (map (window_amount (wstate c)) (accepted s)) =
      sum_list (map (window_amount (wstate (below s))) (accepted s))"
    unfolding window_amount_cong [OF w(1) le] ..
  have "relays (topdown_msgs sub) 0 (carried s)" using acc by (simp add: child_account_def)
  from relays_append [OF this] r have "relays (topdown_msgs sub) 0 (carried s @ ms)" by simp
  with acc have "child_account (s\<lparr>below := c, child_epoch := curr_epoch env, carried := carried s @ ms\<rparr>) sub"
    by (simp add: child_account_def same del: map_eq_conv)
  moreover have "came_down (wrest c) = sum_values (carried s @ ms)"
    by (rule economy_stepD [OF e d(2) cs]) (simp add: d(8) ms sum_values_def)
  moreover have "0 < bottomup_check_period (wstate c)" using w(1) d(3) by (simp add: windows_kept_def)
  ultimately show ?thesis
    using d sub w(2) le economy_step_wealth [OF d(2) cs e] by (simp add: two_ok_def)
qed

lemma two_step_ok:
  assumes "two_step pext psender ext sender a s e s'" and "settles pext psender" and "settles ext sender"
    and "two_ok pext ext a s"
  shows "two_ok pext ext a s'"
  using assms(1)
proof (cases rule: two_step.cases)
  case (parent_call env call p)
  with two_ok_parent_call [OF assms(4,2)] show ?thesis by simp
next
  case (parent_check env c p)
  with two_ok_parent_check [OF assms(4,2)] show ?thesis by simp
next
  case (child_call env call c sub ms)
  with two_ok_child_call [OF assms(4,3)] show ?thesis by simp
qed

text \<open>The registration of the child starts the system: no messages, no supply, no checkpoint, no money.\<close>

definition two_start :: "('a, 'c) externs \<Rightarrow> ('a, 'c) externs \<Rightarrow> 'a \<Rightarrow> ('a, 'c) two_nets \<Rightarrow> bool" where
  "two_start pext ext a s \<longleftrightarrow>
     economy_ok pext (above s) \<and> economy_ok ext (below s) \<and> 0 < bottomup_check_period (wstate (below s)) \<and>
     network_name (wstate (below s)) = new_from_parent (network_name (wstate (above s))) a \<and>
     (\<exists>sub. subnets (wstate (above s)) (network_name (wstate (below s))) = Some sub \<and>
        topdown_msgs sub = Map.empty \<and> circ_supply sub = 0) \<and>
     accepted s = [] \<and> carried s = [] \<and> wealth (below s) = 0 \<and>
     came_down (wrest (below s)) = 0 \<and> granted (wrest (below s)) = 0"

lemma two_start_ok: "two_start pext ext a s \<Longrightarrow> two_ok pext ext a s"
  by (auto simp: two_start_def two_ok_def child_account_def relays_def sent_down_def came_in_def sum_values_def)

section \<open>Properties\<close>


text \<open>
  The parent stores a funding, the validators of the child execute it, two users release coins, in two
  windows, and the checkpoint of the first window goes up.
\<close>

definition sample_parent :: "((nat, nat) gateway, ledger) world" where
  "sample_parent = \<lparr>wstate = sample_registered, wbalance = 10 ^ 30,
     wrest = \<lparr>circulating = 10 ^ 13, burnt = 0, came_down = 0, granted = 0\<rparr>\<rparr>"

definition sample_nets :: "(nat, nat) two_nets" where
  "sample_nets = \<lparr>above = sample_parent, below = fresh_network, carried = [], child_epoch = 0, accepted = []\<rparr>"

lemma sample_nets_start: "two_start sample_ext sample_ext 7 sample_nets"
  using fresh_network_ok fresh_network_empty sample_registered_inv
  by (simp add: two_start_def sample_nets_def wealth_def)
   (auto simp: fresh_network_def sample_parent_def economy_ok_def books_ok_def funds_ok_def checks_fair_def sample_registered_def
      fresh_subnet_def sample_governed_def sample_gateway_def new_from_parent_def new_subnet_id_def)

abbreviation first_release :: "nat msg_env" where
  "first_release \<equiv> sample_env 44 (5 * 10 ^ 11) True"

definition second_release :: "nat msg_env" where
  "second_release = (sample_env 44 (3 * 10 ^ 11) True)\<lparr>curr_epoch := 35\<rparr>"

abbreviation sample_booking :: "(nat, nat, ledger) gw_sender" where
  "sample_booking \<equiv> booking_send sample_ext"

definition sample_relay :: "((nat, nat) gateway, ledger) world \<Rightarrow> ((nat, nat) gateway, ledger) world" where
  "sample_relay c = c\<lparr>wrest := (wrest c)\<lparr>came_down := 10 ^ 12\<rparr>\<rparr>"

lemma sample_up_and_down:
  fixes vt :: "(nat, nat topdown_checkpoint) voting"
  shows "\<exists>p1 sub c1 c2 ch c3 p2.
    fund sample_ext sample_booking funding_env funding_params (paid_in funding_env sample_parent) = Inr ((), p1) \<and>
    subnets (wstate p1) \<lparr>root = 1, children = [7]\<rparr> = Some sub \<and>
    map Some (top_down_msgs funding_topdown) = [topdown_msgs sub 0] \<and>
    apply_msgs sample_ext sample_booking (sample_env 1 0 True) UNDEF (top_down_msgs funding_topdown)
      (fresh_network\<lparr>wstate := (wstate fresh_network)\<lparr>topdown_checkpoint_voting := vt\<rparr>\<rparr>) = Inr c1 \<and>
    release sample_ext sample_booking first_release 5 (paid_in first_release (sample_relay c1)) = Inr ((), c2) \<and>
    bottomup_checkpoints (wstate c2) 30 = Some ch \<and>
    release sample_ext sample_booking second_release 5 (paid_in second_release c2) = Inr ((), c3) \<and>
    commit_child_check sample_ext sample_booking (sample_env 7 0 False) ch (paid_in (sample_env 7 0 False) p1) = Inr ((), p2) \<and>
    bottomup_checkpoints (wstate c3) 30 = Some ch \<and> check_epoch (check_content ch) = 30 \<and>
    network_name (wstate c1) = \<lparr>root = 1, children = [7]\<rparr> \<and> network_name (wstate c2) = \<lparr>root = 1, children = [7]\<rparr> \<and>
    circulating (wrest c1) = 10 ^ 12 \<and> came_down (wrest c1) = 0 \<and> circulating (wrest c2) = 5 * 10 ^ 11 \<and>
    0 \<le> circulating (wrest p1) \<and> honest_values ch"
  by (simp add: fund_def is_valid_account_address_def resolved_from_to_def new_fund_msg_def funding_env_def funding_params_def sample_registered_def
     second_release_def sample_relay_def sample_parent_def apply_msgs_def apply_msg_inner_def apply_topdown_def cross_msg_send_def booking_send_def settled_def
      fresh_network_def funding_topdown_def sample_inner_eval release_def 
      paid_in_def new_release_msg_def parent_def commit_bottomup_msg_def store_msg_in_checkpoint_def
      push_cross_msgs_def burn_bu_funds_def honest_values_def METHOD_SEND_def msgs_of_def sample_commit_eval)

lemma booked_nothing:
  "handed_down ext env call st = [] \<Longrightarrow> initial_funds env call st = 0 \<Longrightarrow> booked ext env call st w = w"
  by (simp add: booked_def)

text \<open>A call that brings nothing in.\<close>

lemma economy_plain:
  assumes "caller_is_id env" and "0 \<le> value_received env" and "value_received env \<le> circulating (wrest w)"
    and "honest_call call" and "handed_down ext env call (wstate w) = []" and "initial_funds env call (wstate w) = 0"
    and "gateway_invoke ext sender env call (paid_in env w) = Inr w'"
  shows "economy_step ext sender w (env, call) w'"
  by (rule economy_call [where v = w'])
    (use assms booked_nothing [OF assms(5,6), of w'] in \<open>simp_all add: fair_amounts_def\<close>)

definition sample_events :: "(nat, nat) bottom_up_checkpoint \<Rightarrow> (nat, nat) net_event list" where
  "sample_events ch = [Above funding_env (Fund funding_params), Below (sample_env 1 0 True) (SubmitTopDownCheckpoint funding_topdown),
     Below first_release (Release 5), Below second_release (Release 5),
     Above (sample_env 7 0 False) (CommitChildCheckpoint ch)]"

abbreviation sample_step :: "(nat, nat) two_nets \<Rightarrow> (nat, nat) net_event \<Rightarrow> (nat, nat) two_nets \<Rightarrow> bool" where
  "sample_step \<equiv> two_step sample_ext sample_booking sample_ext sample_booking 7"

text \<open>The run as steps of the two economies.\<close>

lemma sample_relay_step:
  assumes v: "submit_topdown_state sample_ext (sample_env 1 0 True) funding_topdown (wstate fresh_network) =
      Inr (Some funding_topdown, (wstate fresh_network)\<lparr>topdown_checkpoint_voting := vt\<rparr>)"
    and c: "apply_msgs sample_ext sample_booking (sample_env 1 0 True) UNDEF (top_down_msgs funding_topdown)
      (fresh_network\<lparr>wstate := (wstate fresh_network)\<lparr>topdown_checkpoint_voting := vt\<rparr>\<rparr>) = Inr c"
    and "came_down (wrest c) = 0"
  shows "handed_down sample_ext (sample_env 1 0 True) (SubmitTopDownCheckpoint funding_topdown) (wstate fresh_network) =
      top_down_msgs funding_topdown"
    and "economy_step sample_ext sample_booking fresh_network
      (sample_env 1 0 True, SubmitTopDownCheckpoint funding_topdown) (sample_relay c)"
proof -
  have ms: "top_down_msgs funding_topdown \<noteq> []" "sum_values (top_down_msgs funding_topdown) = 10 ^ 12"
    "list_all (\<lambda>cm. 0 \<le> msg_value (msg cm)) (top_down_msgs funding_topdown)"
    by (simp_all add: funding_topdown_def sample_from_parent_def)
  show h: "handed_down sample_ext (sample_env 1 0 True) (SubmitTopDownCheckpoint funding_topdown) (wstate fresh_network) =
      top_down_msgs funding_topdown" using v ms(1) by simp
  have same: "paid_in (sample_env 1 0 True) fresh_network = fresh_network"
    by (simp add: fresh_network_def paid_in_def credited_def sample_env_def)
  have "submit_topdown_check sample_ext sample_booking (sample_env 1 0 True) funding_topdown fresh_network = Inr ([], c)"
    using v ms(1) c by (simp add: submit_topdown_check_def validate_caller_signable_def transaction_def) (simp add: sample_env_def)
  then show "economy_step sample_ext sample_booking fresh_network
      (sample_env 1 0 True, SubmitTopDownCheckpoint funding_topdown) (sample_relay c)"
    by (intro economy_call [where v = c])
      (use h same ms assms(3) in \<open>simp_all add: fair_amounts_def booked_def sample_relay_def del: handed_down.simps(1)\<close>,
       simp_all add: sample_env_def caller_is_id_def fresh_network_def)
qed

lemma sample_plain_steps:
  "fund sample_ext sample_booking funding_env funding_params (paid_in funding_env sample_parent) = Inr ((), p1) \<Longrightarrow>
     economy_step sample_ext sample_booking sample_parent (funding_env, Fund funding_params) p1"
  "release sample_ext sample_booking first_release 5 (paid_in first_release c1) = Inr ((), c2) \<Longrightarrow>
     circulating (wrest c1) = 10 ^ 12 \<Longrightarrow> economy_step sample_ext sample_booking c1 (first_release, Release 5) c2"
  "release sample_ext sample_booking second_release 5 (paid_in second_release c2) = Inr ((), c3) \<Longrightarrow>
     circulating (wrest c2) = 5 * 10 ^ 11 \<Longrightarrow> economy_step sample_ext sample_booking c2 (second_release, Release 5) c3"
  "commit_child_check sample_ext sample_booking (sample_env 7 0 False) ch (paid_in (sample_env 7 0 False) p1) = Inr ((), p2) \<Longrightarrow>
     0 \<le> circulating (wrest p1) \<Longrightarrow> honest_values ch \<Longrightarrow>
     economy_step sample_ext sample_booking p1 (sample_env 7 0 False, CommitChildCheckpoint ch) p2"
  by (rule economy_plain, simp_all, simp_all add: funding_env_def second_release_def sample_env_def caller_is_id_def sample_parent_def
      CROSS_MSG_FEE_def from_nano_def)+

lemma sample_below:
  assumes "economy_step sample_ext sample_booking (below s) (env, call) c" and "child_epoch s \<le> curr_epoch env"
    and "network_name (wstate (below s)) = k" and "subnets (wstate (above s)) k = Some sub"
    and "handed_down sample_ext env call (wstate (below s)) = ms" and "relays (topdown_msgs sub) (length (carried s)) ms"
    and "s' = s\<lparr>below := c, child_epoch := curr_epoch env, carried := carried s @ ms\<rparr>"
  shows "sample_step s (Below env call) s'"
  unfolding assms(7) by (rule child_call) (use assms in simp_all)

lemma sample_above:
  assumes "economy_step sample_ext sample_booking (above s) (env, CommitChildCheckpoint c) p" and "caller env = 7"
    and "check_epoch (check_content c) \<le> child_epoch s" and "carries (wstate (below s)) c"
    and "s' = s\<lparr>above := p, accepted := accepted s @ [check_epoch (check_content c)]\<rparr>"
  shows "sample_step s (Above env (CommitChildCheckpoint c)) s'"
  unfolding assms(5) by (rule parent_check) (use assms in simp_all)

lemma sample_steps:
  assumes "economy_step sample_ext sample_booking sample_parent (funding_env, Fund funding_params) p1"
    and sub: "subnets (wstate p1) \<lparr>root = 1, children = [7]\<rparr> = Some sub"
    and ms: "map Some (top_down_msgs funding_topdown) = [topdown_msgs sub 0]"
    and h: "handed_down sample_ext (sample_env 1 0 True) (SubmitTopDownCheckpoint funding_topdown) (wstate fresh_network) =
      top_down_msgs funding_topdown"
    and e2: "economy_step sample_ext sample_booking fresh_network (sample_env 1 0 True, SubmitTopDownCheckpoint funding_topdown) c1"
    and e3: "economy_step sample_ext sample_booking c1 (first_release, Release 5) c2"
    and e4: "economy_step sample_ext sample_booking c2 (second_release, Release 5) c3"
    and e5: "economy_step sample_ext sample_booking p1 (sample_env 7 0 False, CommitChildCheckpoint ch) p2"
    and ch: "bottomup_checkpoints (wstate c3) 30 = Some ch" "check_epoch (check_content ch) = 30"
    and names: "network_name (wstate c1) = \<lparr>root = 1, children = [7]\<rparr>" "network_name (wstate c2) = \<lparr>root = 1, children = [7]\<rparr>"
  shows "run sample_step sample_nets (sample_events ch)
    \<lparr>above = p2, below = c3, carried = top_down_msgs funding_topdown, child_epoch = 35, accepted = [30]\<rparr>"
  unfolding sample_events_def
proof (intro run_cons run_nil)
  have relayed: "relays (topdown_msgs sub) 0 (top_down_msgs funding_topdown)"
    using ms by (simp add: relays_def funding_topdown_def)
  have start: "network_name (wstate fresh_network) = \<lparr>root = 1, children = [7]\<rparr>" by (simp add: fresh_network_def)
  show "sample_step sample_nets (Above funding_env (Fund funding_params)) (sample_nets\<lparr>above := p1\<rparr>)"
    by (rule parent_call) (use assms(1) in \<open>simp_all add: sample_nets_def\<close>)
  let ?s2 = "(sample_nets\<lparr>above := p1\<rparr>)\<lparr>below := c1, child_epoch := 25, carried := top_down_msgs funding_topdown\<rparr>"
  show "sample_step (sample_nets\<lparr>above := p1\<rparr>) (Below (sample_env 1 0 True) (SubmitTopDownCheckpoint funding_topdown)) ?s2"
    by (rule sample_below [where c = c1 and sub = sub and ms = "top_down_msgs funding_topdown"]) (use e2 h relayed start sub in \<open>simp_all add: sample_nets_def sample_env_def del: handed_down.simps(1)\<close>)
  show "sample_step ?s2 (Below first_release (Release 5)) (?s2\<lparr>below := c2\<rparr>)"
    by (rule sample_below [where c = c2 and sub = sub and ms = "[]"]) (use e3 names sub in \<open>simp_all add: sample_nets_def sample_env_def relays_def\<close>)
  show "sample_step (?s2\<lparr>below := c2\<rparr>) (Below second_release (Release 5)) (?s2\<lparr>below := c3, child_epoch := 35\<rparr>)"
    by (rule sample_below [where c = c3 and sub = sub and ms = "[]"])
      (use e4 names sub in \<open>simp_all add: sample_nets_def second_release_def sample_env_def relays_def\<close>)
  show "sample_step (?s2\<lparr>below := c3, child_epoch := 35\<rparr>) (Above (sample_env 7 0 False) (CommitChildCheckpoint ch))
    \<lparr>above = p2, below = c3, carried = top_down_msgs funding_topdown, child_epoch = 35, accepted = [30]\<rparr>"
    by (rule sample_above [where p = p2]) (use e5 ch in \<open>simp_all add: sample_nets_def sample_env_def carries_def\<close>)
qed (rule run_nil)

lemma sample_nets_run:
  "\<exists>ch s. run sample_step sample_nets (sample_events ch) s \<and> accepted s = [30]"
proof -
  let ?st = "wstate fresh_network" and ?k = "\<lparr>root = 1, children = [7]\<rparr> :: nat subnet_id"
  have "initialized ?st" "members ?st = members sample_governed" "topdown_checkpoint_voting ?st = new_voting 0 10"
    "topdown_epoch funding_topdown = 10" "ensure_message_sorted cross_nonce (top_down_msgs funding_topdown) = Inr ()"
    by (simp_all add: fresh_network_def sample_governed_def sample_gateway_def funding_topdown_def ensure_message_sorted_iff)
  from sample_vote [OF this] obtain vt where v: "submit_topdown_state sample_ext (sample_env 1 0 True) funding_topdown ?st =
      Inr (Some funding_topdown, ?st\<lparr>topdown_checkpoint_voting := vt\<rparr>)" by blast
  from sample_up_and_down [of vt] obtain p1 sub c1 c2 ch c3 p2 where
      p1: "fund sample_ext sample_booking funding_env funding_params (paid_in funding_env sample_parent) = Inr ((), p1)"
    and sub: "subnets (wstate p1) ?k = Some sub" "map Some (top_down_msgs funding_topdown) = [topdown_msgs sub 0]"
    and c1: "apply_msgs sample_ext sample_booking (sample_env 1 0 True) UNDEF (top_down_msgs funding_topdown)
      (fresh_network\<lparr>wstate := ?st\<lparr>topdown_checkpoint_voting := vt\<rparr>\<rparr>) = Inr c1"
    and c2: "release sample_ext sample_booking first_release 5 (paid_in first_release (sample_relay c1)) = Inr ((), c2)"
    and c3: "release sample_ext sample_booking second_release 5 (paid_in second_release c2) = Inr ((), c3)"
    and p2: "commit_child_check sample_ext sample_booking (sample_env 7 0 False) ch (paid_in (sample_env 7 0 False) p1) = Inr ((), p2)"
    and ch: "bottomup_checkpoints (wstate c3) 30 = Some ch" "check_epoch (check_content ch) = 30"
    and names: "network_name (wstate c1) = ?k" "network_name (wstate c2) = ?k"
    and books: "circulating (wrest c1) = 10 ^ 12" "came_down (wrest c1) = 0" "circulating (wrest c2) = 5 * 10 ^ 11"
      "0 \<le> circulating (wrest p1)" "honest_values ch"
    by (elim exE conjE) (rule that; assumption)
  note relay = sample_relay_step [OF v c1 books(2)]
  have "network_name (wstate (sample_relay c1)) = ?k" "circulating (wrest (sample_relay c1)) = 10 ^ 12"
    using names(1) books(1) by (simp_all add: sample_relay_def)
  from sample_steps [OF sample_plain_steps(1) [OF p1] sub relay sample_plain_steps(2) [OF c2 this(2)]
      sample_plain_steps(3) [OF c3 books(3)] sample_plain_steps(4) [OF p2 books(4,5)] ch this(1) names(2)]
  show ?thesis by (intro exI conjI) (assumption, simp)
qed


end
