(* ===== verification/Subnet_State.thy ===== *)
theory Subnet_State
  imports Gateway_State
begin

text \<open>
  The state of the subnet actor and its helpers (\<open>subnet-actor/src/{state,types}.rs\<close>). The HAMTs of
  stakes and of committed checkpoints are maps; an address is keyed by its bytes, which determine it,
  and an epoch by its varint form. The validator set is the one of the SDK.
\<close>

section \<open>Types\<close>

datatype consensus_type = Mir

text \<open>The life cycle of a subnet; the gateway has a status of its own for the subnet.\<close>

datatype subnet_status = Instantiated | Active | Inactive | Terminating | Killed

record 'a construct_params =
  parent_net :: "'a subnet_id"
  subnet_name :: string
  gateway_addr :: 'a
  consensus_kind :: consensus_type
  min_stake_param :: token_amount
  min_validators_param :: u64
  bottomup_period_param :: chain_epoch
  topdown_period_param :: chain_epoch
  genesis_param :: raw_bytes

text \<open>The parameters of the messages to the gateway, and the messages themselves.\<close>

datatype ('a, 'c) actor_params =
    NoBlock
  | AmountParams token_amount
  | CheckpointParams "('a, 'c) bottom_up_checkpoint"

definition cross_actor_payload :: "'a \<Rightarrow> u64 \<Rightarrow> 'p \<Rightarrow> token_amount \<Rightarrow> ('a, 'p) send_req" where
  "cross_actor_payload to_addr m p v = \<lparr>sr_to = to_addr, sr_method = m, sr_params = p, sr_value = v\<rparr>"

definition LEAVING_COEFF :: int where
  "LEAVING_COEFF = 1"

text \<open>A ratio of two integers, numerator first.\<close>

definition VOTING_THRESHOLD :: "int \<times> int" where
  "VOTING_THRESHOLD = (2, 3)"

definition ratio_le :: "int \<times> int \<Rightarrow> int \<times> int \<Rightarrow> bool" where
  "ratio_le p q =
     (case (p, q) of ((a, b), (c, d)) \<Rightarrow> if 0 < b * d then a * d \<le> c * b else c * b \<le> a * d)"

section \<open>The state\<close>

record ('a, 'c) subnet_actor_state =
  actor_name :: string
  parent_id :: "'a subnet_id"
  ipc_gateway_addr :: 'a
  consensus :: consensus_type
  min_validator_stake :: token_amount
  total_stake :: token_amount
  stakes :: "'a \<rightharpoonup> token_amount"
  actor_status :: subnet_status
  genesis :: raw_bytes
  actor_bottomup_period :: chain_epoch
  actor_topdown_period :: chain_epoch
  committed_checkpoints :: "chain_epoch \<rightharpoonup> ('a, 'c) bottom_up_checkpoint"
  validator_set :: "'a validator_set"
  min_validators :: u64
  previous_executed_checkpoint_cid :: 'c
  bottomup_checkpoint_voting :: "('a, ('a, 'c) bottom_up_checkpoint) voting"

definition new_subnet_actor ::
    "('a, 'c) externs \<Rightarrow> ('a, 'm) msg_env_scheme \<Rightarrow> 'a construct_params \<Rightarrow> chain_epoch \<Rightarrow>
     ('a, 'c) subnet_actor_state" where
  "new_subnet_actor ext env params current_epoch =
     (let bottomup = (if bottomup_period_param params < DEFAULT_CHECKPOINT_PERIOD
            then DEFAULT_CHECKPOINT_PERIOD else bottomup_period_param params);
          topdown = (if topdown_period_param params < DEFAULT_CHECKPOINT_PERIOD
            then DEFAULT_CHECKPOINT_PERIOD else topdown_period_param params)
      in \<lparr>actor_name = subnet_name params,
          parent_id = f0_id (resolve_address env) (parent_net params),
          ipc_gateway_addr = gateway_addr params,
          consensus = consensus_kind params,
          min_validator_stake = (if min_stake_param params < MIN_COLLATERAL_AMOUNT
            then MIN_COLLATERAL_AMOUNT else min_stake_param params),
          total_stake = 0,
          stakes = Map.empty,
          actor_status = Instantiated,
          genesis = genesis_param params,
          actor_bottomup_period = bottomup,
          actor_topdown_period = topdown,
          committed_checkpoints = Map.empty,
          validator_set = empty_validator_set,
          min_validators = min_validators_param params,
          previous_executed_checkpoint_cid = genesis_cid ext,
          bottomup_checkpoint_voting = new_voting_with_ratio current_epoch bottomup 2 3\<rparr>)"

section \<open>Stake\<close>

definition get_stake :: "'a \<Rightarrow> ('a, 'c) subnet_actor_state \<Rightarrow> token_amount option" where
  "get_stake a st = stakes st a"

definition is_validator :: "'a \<Rightarrow> ('a, 'c) subnet_actor_state \<Rightarrow> bool" where
  "is_validator a st \<longleftrightarrow> list_ex (\<lambda>x. val_addr x = a) (validators (validator_set st))"

definition stake_or_zero :: "'a \<Rightarrow> ('a, 'c) subnet_actor_state \<Rightarrow> token_amount" where
  "stake_or_zero a st = (case get_stake a st of Some s \<Rightarrow> s | None \<Rightarrow> 0)"

definition add_validator_stake ::
    "'a \<Rightarrow> string \<Rightarrow> token_amount \<Rightarrow> ('a, 'c) subnet_actor_state \<Rightarrow> ('a, 'c) subnet_actor_state res" where
  "add_validator_stake a net_addr amount st =
     (let updated = stake_or_zero a st + amount;
          st1 = st\<lparr>stakes := (stakes st)(a \<mapsto> updated), total_stake := total_stake st + amount\<rparr>
      in if min_validator_stake st1 \<le> updated
         then and_then
                (if \<not> is_validator a st1
                 then push \<lparr>val_addr = a, val_net_addr = net_addr, val_weight = updated\<rparr> (validator_set st1)
                 else update_weight a updated (validator_set st1))
                (\<lambda>vs. Inr (st1\<lparr>validator_set := vs\<rparr>))
         else Inr st1)"

definition rm_stake ::
    "'a \<Rightarrow> token_amount \<Rightarrow> ('a, 'c) subnet_actor_state \<Rightarrow> (token_amount \<times> ('a, 'c) subnet_actor_state) res" where
  "rm_stake a amount st =
     and_then (div_floor amount LEAVING_COEFF) (\<lambda>ret_amount.
     if stake_or_zero a st < ret_amount then Inl Anyhow
     else
       let st1 = st\<lparr>stakes := (stakes st)(a \<mapsto> stake_or_zero a st - amount),
                    total_stake := total_stake st - ret_amount\<rparr>
       in and_then (rm a (validator_set st1)) (\<lambda>vs. Inr (ret_amount, st1\<lparr>validator_set := vs\<rparr>)))"

text \<open>The division of two ratios panics on a zero denominator.\<close>

definition has_majority_vote :: "'a list \<Rightarrow> ('a, 'c) subnet_actor_state \<Rightarrow> bool res" where
  "has_majority_vote votes st =
     (let total = fold (\<lambda>v acc. acc + stake_or_zero v st) votes 0
      in if total_stake st = 0 then Inl Panic
         else Inr (ratio_le VOTING_THRESHOLD (total, total_stake st)))"

section \<open>Status\<close>

definition mutate_state :: "('a, 'c) subnet_actor_state \<Rightarrow> ('a, 'c) subnet_actor_state" where
  "mutate_state st =
     (case actor_status st of
        Instantiated \<Rightarrow>
          if MIN_COLLATERAL_AMOUNT \<le> total_stake st then st\<lparr>actor_status := Active\<rparr> else st
      | Active \<Rightarrow>
          if total_stake st < MIN_COLLATERAL_AMOUNT then st\<lparr>actor_status := Inactive\<rparr> else st
      | Inactive \<Rightarrow>
          if MIN_COLLATERAL_AMOUNT \<le> total_stake st then st\<lparr>actor_status := Active\<rparr> else st
      | Terminating \<Rightarrow> if total_stake st = 0 then st\<lparr>actor_status := Killed\<rparr> else st
      | Killed \<Rightarrow> st)"

section \<open>Checkpoints\<close>

definition verify_checkpoint ::
    "('a, 'm) msg_env_scheme \<Rightarrow> ('a, 'c) bottom_up_checkpoint \<Rightarrow> ('a, 'c) subnet_actor_state \<Rightarrow> unit res" where
  "verify_checkpoint env ch st =
     (if actor_status st \<noteq> Active then Inl Anyhow
      else if check_source (check_content ch) \<noteq> new_from_parent (parent_id st) (receiver env) then Inl Anyhow
      else and_then (is_next_executable_epoch (bottomup_checkpoint_voting st)
                       (check_epoch (check_content ch))) (\<lambda>is_next.
           if is_next \<and> previous_executed_checkpoint_cid st \<noteq> prev_check (check_content ch)
           then Inl Anyhow else Inr ()))"

definition ensure_checkpoint_chained ::
    "('a, 'c) bottom_up_checkpoint \<Rightarrow> ('a, 'c) subnet_actor_state \<Rightarrow> bool \<times> ('a, 'c) subnet_actor_state" where
  "ensure_checkpoint_chained ch st =
     (if previous_executed_checkpoint_cid st \<noteq> prev_check (check_content ch)
      then (False, st\<lparr>bottomup_checkpoint_voting :=
              abort_epoch (check_epoch (check_content ch)) (bottomup_checkpoint_voting st)\<rparr>)
      else (True, st))"

definition flush_committed ::
    "('a, 'c) bottom_up_checkpoint \<Rightarrow> ('a, 'c) subnet_actor_state \<Rightarrow> ('a, 'c) subnet_actor_state" where
  "flush_committed ch st =
     st\<lparr>committed_checkpoints := (committed_checkpoints st)(check_epoch (check_content ch) \<mapsto> ch)\<rparr>"

section \<open>The invariant of the stakes\<close>

text \<open>
  What the tables of the actor say about each other: the total is the sum of the stakes, the
  validators are exactly the addresses with at least the minimum stake, each once and with its stake
  as weight, and the status is the one the total earns. \<open>Terminating\<close> is never left standing.
\<close>

definition status_ok :: "('a, 'c) subnet_actor_state \<Rightarrow> bool" where
  "status_ok st \<longleftrightarrow>
     (case actor_status st of
        Instantiated \<Rightarrow> total_stake st < MIN_COLLATERAL_AMOUNT
      | Active \<Rightarrow> MIN_COLLATERAL_AMOUNT \<le> total_stake st
      | Inactive \<Rightarrow> total_stake st < MIN_COLLATERAL_AMOUNT
      | Terminating \<Rightarrow> False
      | Killed \<Rightarrow> True)"

definition stakes_ok :: "('a, 'c) subnet_actor_state \<Rightarrow> bool" where
  "stakes_ok st \<longleftrightarrow>
     finite (dom (stakes st)) \<and> (\<forall>a s. stakes st a = Some s \<longrightarrow> 0 \<le> s) \<and>
     total_stake st = table_sum (\<lambda>s. s) (stakes st) \<and> 0 < min_validator_stake st"

definition validators_ok :: "('a, 'c) subnet_actor_state \<Rightarrow> bool" where
  "validators_ok st \<longleftrightarrow>
     distinct (val_addrs (validator_set st)) \<and>
     (\<forall>v \<in> set (validators (validator_set st)). stakes st (val_addr v) = Some (val_weight v)) \<and>
     (\<forall>a. a \<in> set (val_addrs (validator_set st)) \<longleftrightarrow> min_validator_stake st \<le> stake_or_zero a st)"

definition stake_inv :: "('a, 'c) subnet_actor_state \<Rightarrow> bool" where
  "stake_inv st \<longleftrightarrow> stakes_ok st \<and> validators_ok st"

lemma status_ok_cong:
  "actor_status st' = actor_status st \<Longrightarrow> total_stake st' = total_stake st \<Longrightarrow> status_ok st' = status_ok st"
  unfolding status_ok_def by metis

lemma is_validator_iff: "is_validator a st \<longleftrightarrow> a \<in> set (val_addrs (validator_set st))"
  by (auto simp: is_validator_def val_addrs_def list_ex_iff)

lemma stake_or_zero_nonneg: "stakes_ok st \<Longrightarrow> 0 \<le> stake_or_zero a st"
  by (auto simp: stakes_ok_def stake_or_zero_def get_stake_def split: option.split)

text \<open>The tables after a change of one stake, whatever becomes of the validators.\<close>

lemma stakes_ok_upd:
  assumes "stakes_ok st" and "0 \<le> s" and "stakes st' = (stakes st)(a \<mapsto> s)"
    and "total_stake st' = total_stake st - stake_or_zero a st + s"
    and "min_validator_stake st' = min_validator_stake st"
  shows "stakes_ok st'"
  using assms by (auto simp: stakes_ok_def table_sum_upd stake_or_zero_def get_stake_def split: option.splits)

lemma stake_or_zero_upd:
  "stakes st' = (stakes st)(a \<mapsto> s) \<Longrightarrow> stake_or_zero b st' = (if b = a then s else stake_or_zero b st)"
  by (simp add: stake_or_zero_def get_stake_def)

lemma validators_ok_upd:
  assumes ok: "validators_ok st" and upd: "stakes st' = (stakes st)(a \<mapsto> s)"
    and m: "min_validator_stake st' = min_validator_stake st"
    and dist: "distinct (val_addrs (validator_set st'))"
    and others: "\<And>v. v \<in> set (validators (validator_set st')) \<Longrightarrow> val_addr v \<noteq> a \<Longrightarrow>
      v \<in> set (validators (validator_set st))"
    and own: "\<And>v. v \<in> set (validators (validator_set st')) \<Longrightarrow> val_addr v = a \<Longrightarrow> val_weight v = s"
    and addrs: "\<And>b. b \<in> set (val_addrs (validator_set st')) \<longleftrightarrow>
      (if b = a then min_validator_stake st \<le> s else b \<in> set (val_addrs (validator_set st)))"
  shows "validators_ok st'"
  unfolding validators_ok_def
proof (intro conjI ballI allI)
  fix v assume v: "v \<in> set (validators (validator_set st'))"
  then show "stakes st' (val_addr v) = Some (val_weight v)"
    using own [OF v] others [OF v] ok by (cases "val_addr v = a") (auto simp: upd validators_ok_def)
next
  fix b
  show "b \<in> set (val_addrs (validator_set st')) \<longleftrightarrow> min_validator_stake st' \<le> stake_or_zero b st'"
    unfolding addrs m stake_or_zero_upd [OF upd] using ok by (simp add: validators_ok_def)
qed (rule dist)

text \<open>Staking keeps the invariant and adds exactly the amount.\<close>

lemma add_validator_stake_Inr:
  assumes "add_validator_stake a n v st = Inr st'"
  obtains vs where
    "st' = st\<lparr>stakes := (stakes st)(a \<mapsto> stake_or_zero a st + v), total_stake := total_stake st + v,
       validator_set := vs\<rparr>"
    "if stake_or_zero a st + v < min_validator_stake st then vs = validator_set st
     else if is_validator a st
     then update_weight a (stake_or_zero a st + v) (validator_set st) = Inr vs
     else push \<lparr>val_addr = a, val_net_addr = n, val_weight = stake_or_zero a st + v\<rparr> (validator_set st) = Inr vs"
proof -
  have "is_validator a (st\<lparr>stakes := f, total_stake := t\<rparr>) = is_validator a st" for f t
    by (simp add: is_validator_def)
  with assms show ?thesis
    unfolding add_validator_stake_def Let_def
    by (intro that [of "validator_set st'"]) (auto simp: not_le split: if_splits)
qed

lemma add_validator_stake_inv:
  assumes inv: "stake_inv st" and v: "0 \<le> v" and add: "add_validator_stake a n v st = Inr st'"
  shows "stake_inv st'"
proof -
  let ?s = "stake_or_zero a st + v"
  from add obtain vs where st': "st' = st\<lparr>stakes := (stakes st)(a \<mapsto> ?s), total_stake := total_stake st + v,
       validator_set := vs\<rparr>" and vs: "if ?s < min_validator_stake st then vs = validator_set st
     else if is_validator a st then update_weight a ?s (validator_set st) = Inr vs
     else push \<lparr>val_addr = a, val_net_addr = n, val_weight = ?s\<rparr> (validator_set st) = Inr vs"
    by (rule add_validator_stake_Inr)
  have ok: "stakes_ok st" "validators_ok st" using inv by (simp_all add: stake_inv_def)
  have "stakes_ok st'"
    by (rule stakes_ok_upd [OF ok(1), where a = a and s = ?s])
      (use v stake_or_zero_nonneg [OF ok(1), of a] in \<open>simp_all add: st'\<close>)
  moreover have addrs: "set (val_addrs vs) =
      (if ?s < min_validator_stake st then set (val_addrs (validator_set st))
       else insert a (set (val_addrs (validator_set st))))" "distinct (val_addrs vs)"
    using vs ok(2) by (auto simp: val_addrs_push val_addrs_update_weight is_validator_iff validators_ok_def
        split: if_splits)
  have small: "a \<notin> set (val_addrs (validator_set st))" if "?s < min_validator_stake st"
    using ok(2) that v unfolding validators_ok_def by (metis add_increasing2 not_le order_trans)
  have "validators_ok st'"
  proof (rule validators_ok_upd [OF ok(2), where a = a and s = ?s])
    fix w assume w: "w \<in> set (validators (validator_set st'))"
    have w': "w \<in> set (validators vs)" using w by (simp add: st')
    have "(val_addr w \<noteq> a \<longrightarrow> w \<in> set (validators (validator_set st))) \<and> (val_addr w = a \<longrightarrow> val_weight w = ?s)"
    proof (cases "?s < min_validator_stake st")
      case True
      with small vs w' show ?thesis by (auto simp: val_addrs_def)
    next
      case False
      show ?thesis
      proof (cases "is_validator a st")
        case True
        with False vs have u: "update_weight a ?s (validator_set st) = Inr vs" by simp
        from w' show ?thesis unfolding update_weight_Inr [OF u] by auto
      next
        case non: False
        with False vs have u: "push \<lparr>val_addr = a, val_net_addr = n, val_weight = ?s\<rparr> (validator_set st) = Inr vs"
          by simp
        from w' non show ?thesis
          unfolding push_Inr [OF u] is_validator_iff val_addrs_def by auto
      qed
    qed
    then show "val_addr w \<noteq> a \<Longrightarrow> w \<in> set (validators (validator_set st))"
      and "val_addr w = a \<Longrightarrow> val_weight w = ?s" by simp_all
  next
    show "b \<in> set (val_addrs (validator_set st')) \<longleftrightarrow>
        (if b = a then min_validator_stake st \<le> ?s else b \<in> set (val_addrs (validator_set st)))" for b
      using addrs(1) small by (cases "?s < min_validator_stake st") (simp_all add: st')
  qed (simp_all add: st' addrs(2))
  ultimately show ?thesis by (simp add: stake_inv_def)
qed

text \<open>Leaving with the whole stake keeps it, too, and pays the stake.\<close>

lemma rm_stake_Inr:
  assumes "rm_stake a v st = Inr (r, st')"
  obtains vs where "r = v" "v \<le> stake_or_zero a st" "rm a (validator_set st) = Inr vs"
    "st' = st\<lparr>stakes := (stakes st)(a \<mapsto> stake_or_zero a st - v), total_stake := total_stake st - v,
       validator_set := vs\<rparr>"
  using assms by (auto simp: rm_stake_def LEAVING_COEFF_def Let_def not_less split: if_splits)

lemma rm_stake_inv:
  assumes inv: "stake_inv st" and s: "stakes st a = Some s" and r: "rm_stake a s st = Inr (r, st')"
  shows "stake_inv st'"
proof -
  have own: "stake_or_zero a st = s" by (simp add: stake_or_zero_def get_stake_def s)
  from r obtain vs where vs: "rm a (validator_set st) = Inr vs"
    and st': "st' = st\<lparr>stakes := (stakes st)(a \<mapsto> 0), total_stake := total_stake st - s, validator_set := vs\<rparr>"
    by (rule rm_stake_Inr) (simp add: own)
  have ok: "stakes_ok st" "validators_ok st" using inv by (simp_all add: stake_inv_def)
  have "stakes_ok st'"
    by (rule stakes_ok_upd [OF ok(1), where a = a and s = 0]) (simp_all add: st' own)
  moreover have "validators_ok st'"
    by (rule validators_ok_upd [OF ok(2), where a = a and s = 0])
      (use vs ok in \<open>auto simp: st' rm_Inr val_addrs_rm validators_ok_def stakes_ok_def\<close>)
  ultimately show ?thesis by (simp add: stake_inv_def)
qed

lemma stake_inv_cong:
  assumes "stakes st' = stakes st" and "total_stake st' = total_stake st"
    and "min_validator_stake st' = min_validator_stake st" and "validator_set st' = validator_set st"
  shows "stake_inv st' = stake_inv st"
  using assms by (simp add: stake_inv_def stakes_ok_def validators_ok_def stake_or_zero_def get_stake_def)

text \<open>The validators' weights add up to at most the total, which also counts the smaller stakes.\<close>

lemma validators_weight_le_total:
  assumes "stake_inv st"
  shows "sum_list (map val_weight (validators (validator_set st))) \<le> total_stake st"
proof -
  let ?vs = "validators (validator_set st)"
  have d: "distinct (map val_addr ?vs)"
    using assms by (simp add: stake_inv_def validators_ok_def val_addrs_def)
  have w: "\<And>v. v \<in> set ?vs \<Longrightarrow> stakes st (val_addr v) = Some (val_weight v)"
    using assms by (simp add: stake_inv_def validators_ok_def)
  have "sum_list (map val_weight ?vs) = sum_list (map (\<lambda>a. the (stakes st a)) (map val_addr ?vs))"
    by (auto intro!: arg_cong [where f = sum_list] simp: w)
  also have "\<dots> = (\<Sum>a \<in> set (map val_addr ?vs). the (stakes st a))"
    by (rule sum_list_distinct_conv_sum_set [OF d])
  also have "\<dots> \<le> (\<Sum>a \<in> dom (stakes st). the (stakes st a))"
    by (rule sum_mono2) (use assms w in \<open>auto simp: stake_inv_def stakes_ok_def\<close>)
  finally show ?thesis
    using assms by (simp add: stake_inv_def stakes_ok_def table_sum_def)
qed

lemma mutate_state_simps [simp]:
  "stakes (mutate_state st) = stakes st" "total_stake (mutate_state st) = total_stake st"
  "min_validator_stake (mutate_state st) = min_validator_stake st"
  "validator_set (mutate_state st) = validator_set st"
  "ipc_gateway_addr (mutate_state st) = ipc_gateway_addr st" "parent_id (mutate_state st) = parent_id st"
  "committed_checkpoints (mutate_state st) = committed_checkpoints st"
  "previous_executed_checkpoint_cid (mutate_state st) = previous_executed_checkpoint_cid st"
  "bottomup_checkpoint_voting (mutate_state st) = bottomup_checkpoint_voting st"
  by (auto simp: mutate_state_def split: subnet_status.split)

lemma stake_inv_mutate [simp]: "stake_inv (mutate_state st) = stake_inv st"
  by (rule stake_inv_cong) simp_all

lemma actor_status_mutate:
  "actor_status (mutate_state st) =
     (case actor_status st of
        Instantiated \<Rightarrow> if MIN_COLLATERAL_AMOUNT \<le> total_stake st then Active else Instantiated
      | Active \<Rightarrow> if total_stake st < MIN_COLLATERAL_AMOUNT then Inactive else Active
      | Inactive \<Rightarrow> if MIN_COLLATERAL_AMOUNT \<le> total_stake st then Active else Inactive
      | Terminating \<Rightarrow> if total_stake st = 0 then Killed else Terminating
      | Killed \<Rightarrow> Killed)"
  by (auto simp: mutate_state_def split: subnet_status.split)

text \<open>One call after a change of the total repairs the status.\<close>

lemma status_ok_mutate: "actor_status st \<noteq> Terminating \<Longrightarrow> status_ok (mutate_state st)"
  by (auto simp: status_ok_def actor_status_mutate split: subnet_status.split)

section \<open>The table of committed checkpoints\<close>

interpretation committed_table: keyed_store
    committed_checkpoints flush_committed "\<lambda>ch. check_epoch (check_content ch)"
  by unfold_locales (simp add: flush_committed_def)

text \<open>Fields that the operations on stakes leave alone.\<close>

definition chain_part ::
    "('a, 'c) subnet_actor_state \<Rightarrow> (chain_epoch \<rightharpoonup> ('a, 'c) bottom_up_checkpoint) \<times> 'c \<times>
     ('a, ('a, 'c) bottom_up_checkpoint) voting \<times> 'a subnet_id \<times> 'a" where
  "chain_part st = (committed_checkpoints st, previous_executed_checkpoint_cid st,
     bottomup_checkpoint_voting st, parent_id st, ipc_gateway_addr st)"

lemma chain_part_stakes:
  "add_validator_stake a n v st = Inr st' \<Longrightarrow> chain_part st' = chain_part st"
  "rm_stake a v st = Inr (r, st') \<Longrightarrow> chain_part st' = chain_part st"
  "chain_part (mutate_state st) = chain_part st"
  by (auto simp: chain_part_def elim!: add_validator_stake_Inr rm_stake_Inr)

end
