(* ===== verification/Subnet_Actor.thy ===== *)
theory Subnet_Actor
  imports Subnet_State
begin

text \<open>
  The handlers of the subnet actor (\<open>subnet-actor/src/lib.rs\<close>). As for the gateway, a handler takes
  the functions of the linked crates, the sender, the message environment and the world.
\<close>

type_synonym ('a, 'c, 'x) sa_world = "(('a, 'c) subnet_actor_state, 'x) world"

type_synonym ('a, 'c) sa_req = "('a, ('a, 'c) actor_params) send_req"

type_synonym ('a, 'c, 'x) sa_sender = "('a, ('a, 'c) actor_params, ('a, 'c) subnet_actor_state, 'x) sender"

text \<open>\<open>rt.send(..)?\<close> with the answer dropped, and the send of an optional message.\<close>

definition send_req_drop ::
    "('a, 'c, 'x) sa_sender \<Rightarrow> ('a, 'c) sa_req \<Rightarrow> ('a, 'c, 'x) sa_world \<Rightarrow> ('a, 'c, 'x) sa_world res" where
  "send_req_drop sender r w = and_then (sender r w) (\<lambda>(_, w'). Inr w')"

definition send_opt ::
    "('a, 'c, 'x) sa_sender \<Rightarrow> ('a, 'c) sa_req option \<Rightarrow> ('a, 'c, 'x) sa_world \<Rightarrow>
     ('a, 'c, 'x) sa_world res" where
  "send_opt sender m w = (case m of Some r \<Rightarrow> send_req_drop sender r w | None \<Rightarrow> Inr w)"

section \<open>Construction\<close>

definition subnet_constructor ::
    "('a, 'c) externs \<Rightarrow> ('a, 'm) msg_env_scheme \<Rightarrow> 'a construct_params \<Rightarrow> ('a, 'c) subnet_actor_state res" where
  "subnet_constructor ext env params =
     and_then (validate_caller_is (INIT_ACTOR_ADDR ext) env) (\<lambda>_.
     Inr (new_subnet_actor ext env params 0))"

section \<open>Joining and leaving\<close>

definition join_state ::
    "('a, 'c) externs \<Rightarrow> ('a, 'm) msg_env_scheme \<Rightarrow> string \<Rightarrow> ('a, 'c) subnet_actor_state \<Rightarrow>
     (('a, 'c) sa_req option \<times> ('a, 'c) subnet_actor_state) res" where
  "join_state ext env net_addr st =
     and_then (map_err (downcast_default USR_ILLEGAL_STATE)
       (add_validator_stake (caller env) net_addr (value_received env) st)) (\<lambda>st1.
     let m = (if actor_status st1 = Instantiated
              then if MIN_COLLATERAL_AMOUNT \<le> total_stake st1
                   then Some (cross_actor_payload (ipc_gateway_addr st1) (method_hash ext ''Register'')
                          NoBlock (total_stake st1))
                   else None
              else Some (cross_actor_payload (ipc_gateway_addr st1) (method_hash ext ''AddStake'')
                     NoBlock (value_received env)))
     in Inr (m, mutate_state st1))"

definition join ::
    "('a, 'c) externs \<Rightarrow> ('a, 'c, 'x) sa_sender \<Rightarrow> ('a, 'm) msg_env_scheme \<Rightarrow> string \<Rightarrow>
     ('a, 'c, 'x) sa_world \<Rightarrow> ('a, 'c, 'x) sa_world res" where
  "join ext sender env net_addr w =
     and_then (validate_caller_signable env) (\<lambda>_.
     if value_received env = 0 then Inl (ActorError USR_ILLEGAL_ARGUMENT)
     else and_then (transaction (join_state ext env net_addr) w) (\<lambda>(m, w1). send_opt sender m w1))"

definition leave_state ::
    "('a, 'c) externs \<Rightarrow> ('a, 'm) msg_env_scheme \<Rightarrow> ('a, 'c) subnet_actor_state \<Rightarrow>
     ((token_amount \<times> ('a, 'c) sa_req option) \<times> ('a, 'c) subnet_actor_state) res" where
  "leave_state ext env st =
     (case get_stake (caller env) st of
        None \<Rightarrow> Inl (ActorError USR_ILLEGAL_STATE)
      | Some s \<Rightarrow>
          if s = 0 then Inl (ActorError USR_ILLEGAL_STATE)
          else
            let m = (if actor_status st \<noteq> Terminating
                     then Some (cross_actor_payload (ipc_gateway_addr st) (method_hash ext ''ReleaseStake'')
                            (AmountParams s) 0)
                     else None)
            in and_then (map_err (downcast_default USR_ILLEGAL_STATE) (rm_stake (caller env) s st))
                 (\<lambda>(ret_amount, st1). Inr ((ret_amount, m), mutate_state st1)))"

definition leave ::
    "('a, 'c) externs \<Rightarrow> ('a, 'c, 'x) sa_sender \<Rightarrow> ('a, 'm) msg_env_scheme \<Rightarrow>
     ('a, 'c, 'x) sa_world \<Rightarrow> ('a, 'c, 'x) sa_world res" where
  "leave ext sender env w =
     and_then (validate_caller_signable env) (\<lambda>_.
     and_then (transaction (leave_state ext env) w) (\<lambda>((v, m), w1).
     case m of
       None \<Rightarrow> Inr w1
     | Some p \<Rightarrow>
         and_then (send_req_drop sender p w1) (\<lambda>w2.
         send_req_drop sender (cross_actor_payload (caller env) METHOD_SEND NoBlock v) w2)))"

section \<open>Killing\<close>

definition kill_state ::
    "('a, 'c) externs \<Rightarrow> ('a, 'c) subnet_actor_state \<Rightarrow> (('a, 'c) sa_req option \<times> ('a, 'c) subnet_actor_state) res" where
  "kill_state ext st =
     (if actor_status st = Terminating \<or> actor_status st = Killed
      then Inl (ActorError USR_ILLEGAL_STATE)
      else if validators (validator_set st) \<noteq> [] \<or> total_stake st \<noteq> 0
      then Inl (ActorError USR_ILLEGAL_STATE)
      else Inr (Some (cross_actor_payload (ipc_gateway_addr st) (method_hash ext ''Kill'') NoBlock 0),
                mutate_state (st\<lparr>actor_status := Terminating\<rparr>)))"

definition kill_subnet ::
    "('a, 'c) externs \<Rightarrow> ('a, 'c, 'x) sa_sender \<Rightarrow> ('a, 'm) msg_env_scheme \<Rightarrow>
     ('a, 'c, 'x) sa_world \<Rightarrow> ('a, 'c, 'x) sa_world res" where
  "kill_subnet ext sender env w =
     and_then (validate_caller_signable env) (\<lambda>_.
     if wbalance w \<noteq> 0 then Inl (ActorError USR_ILLEGAL_STATE)
     else and_then (transaction (kill_state ext) w) (\<lambda>(m, w1). send_opt sender m w1))"

section \<open>Checkpoints\<close>

definition commit_checkpoint ::
    "('a, 'c) externs \<Rightarrow> ('a, 'c) bottom_up_checkpoint \<Rightarrow> ('a, 'c) subnet_actor_state \<Rightarrow>
     (('a, 'c) sa_req option \<times> ('a, 'c) subnet_actor_state) res" where
  "commit_checkpoint ext ch st =
     (case ensure_checkpoint_chained ch st of
        (False, st1) \<Rightarrow> Inr (None, st1)
      | (True, st1) \<Rightarrow>
          and_then (map_err (replace_error USR_UNHANDLED_MESSAGE)
            (mark_epoch_executed (check_epoch (check_content ch)) (bottomup_checkpoint_voting st1))) (\<lambda>vt.
          let st2 = st1\<lparr>bottomup_checkpoint_voting := vt,
                        previous_executed_checkpoint_cid := check_cid (check_hash ext) ch\<rparr>
          in Inr (Some (cross_actor_payload (ipc_gateway_addr st2)
                    (method_hash ext ''CommitChildCheckpoint'') (CheckpointParams ch) 0),
                  flush_committed ch st2)))"

abbreviation checkpoint_key ::
    "('a, 'c) externs \<Rightarrow> ('a, 'c) bottom_up_checkpoint \<Rightarrow> unique_bytes_key res" where
  "checkpoint_key ext \<equiv> bottom_up_key (check_hash ext) (cid_bytes ext)"

definition submit_checkpoint_state ::
    "('a, 'c) externs \<Rightarrow> ('a, 'm) msg_env_scheme \<Rightarrow> ('a, 'c) bottom_up_checkpoint \<Rightarrow>
     ('a, 'c) subnet_actor_state \<Rightarrow> (('a, 'c) sa_req option \<times> ('a, 'c) subnet_actor_state) res" where
  "submit_checkpoint_state ext env ch st =
     and_then (map_err (replace_error USR_ILLEGAL_STATE)
       (submit_vote (checkpoint_key ext) ch (check_epoch (check_content ch)) (caller env)
          (stake_or_zero (caller env) st) (total_stake st) (bottomup_checkpoint_voting st)))
       (\<lambda>(some_checkpoint, vt).
        let st1 = st\<lparr>bottomup_checkpoint_voting := vt\<rparr>
        in case some_checkpoint of
             Some c \<Rightarrow> commit_checkpoint ext c st1
           | None \<Rightarrow>
               and_then (map_err (replace_error USR_ILLEGAL_STATE)
                 (get_next_executable_vote (bottomup_checkpoint_voting st1))) (\<lambda>next_vote.
               case next_vote of
                 Some c \<Rightarrow> commit_checkpoint ext c st1
               | None \<Rightarrow> Inr (None, st1)))"

definition submit_checkpoint ::
    "('a, 'c) externs \<Rightarrow> ('a, 'c, 'x) sa_sender \<Rightarrow> ('a, 'm) msg_env_scheme \<Rightarrow>
     ('a, 'c) bottom_up_checkpoint \<Rightarrow> ('a, 'c, 'x) sa_world \<Rightarrow> ('a, 'c, 'x) sa_world res" where
  "submit_checkpoint ext sender env ch0 w =
     and_then (validate_caller_signable env) (\<lambda>_.
     if \<not> is_validator (caller env) (wstate w) then Inl (ActorError USR_ILLEGAL_STATE)
     else
       let ch = enforce_f0_source (resolve_address env) ch0
       in and_then (map_err (replace_error USR_ILLEGAL_STATE) (verify_checkpoint env ch (wstate w))) (\<lambda>_.
          and_then (transaction (submit_checkpoint_state ext env ch) w) (\<lambda>(m, w1). send_opt sender m w1)))"

section \<open>Rewards and addresses\<close>

definition reward ::
    "('a, 'c, 'x) sa_sender \<Rightarrow> ('a, 'm) msg_env_scheme \<Rightarrow> ('a, 'c, 'x) sa_world \<Rightarrow>
     ('a, 'c, 'x) sa_world res" where
  "reward sender env w =
     (let st = wstate w; vs = validators (validator_set st)
      in and_then (validate_caller_is (ipc_gateway_addr st) env) (\<lambda>_.
         if value_received env = 0 then Inl (ActorError USR_ILLEGAL_ARGUMENT)
         else if vs = [] then Inl (ActorError USR_ILLEGAL_STATE)
         else and_then (div_floor (value_received env) (int (length vs))) (\<lambda>rew_amount.
              fold_res (\<lambda>v w. send_req_drop sender
                  (cross_actor_payload (val_addr v) METHOD_SEND NoBlock rew_amount) w) vs w)))"

text \<open>\<open>position\<close> and \<open>get_mut\<close>: the first validator with the address gets the new net address.\<close>

fun update_net_addr :: "'a \<Rightarrow> string \<Rightarrow> 'a validator list \<Rightarrow> 'a validator list option" where
  "update_net_addr a n [] = None"
| "update_net_addr a n (v # vs) =
     (if val_addr v = a then Some (v\<lparr>val_net_addr := n\<rparr> # vs)
      else map_option ((#) v) (update_net_addr a n vs))"

definition set_validator_net_addr ::
    "('a, 'm) msg_env_scheme \<Rightarrow> string \<Rightarrow> ('a, 'c, 'x) sa_world \<Rightarrow> ('a, 'c, 'x) sa_world res" where
  "set_validator_net_addr env net_addr w =
     and_then (validate_caller_signable env) (\<lambda>_.
     and_then (transaction (\<lambda>st.
        case update_net_addr (caller env) net_addr (validators (validator_set st)) of
          Some vs \<Rightarrow> Inr ((), st\<lparr>validator_set := (validator_set st)\<lparr>validators := vs\<rparr>\<rparr>)
        | None \<Rightarrow> Inl (ActorError USR_FORBIDDEN)) w) (\<lambda>(_, w1). Inr w1))"

section \<open>Dispatch\<close>

datatype ('a, 'c) subnet_call =
    Join string
  | Leave
  | KillSubnet
  | SubmitCheckpoint "('a, 'c) bottom_up_checkpoint"
  | SetValidatorNetAddr string
  | Reward

fun subnet_invoke ::
    "('a, 'c) externs \<Rightarrow> ('a, 'c, 'x) sa_sender \<Rightarrow> ('a, 'm) msg_env_scheme \<Rightarrow> ('a, 'c) subnet_call \<Rightarrow>
     ('a, 'c, 'x) sa_world \<Rightarrow> ('a, 'c, 'x) sa_world res" where
  "subnet_invoke ext sender env (Join n) w = join ext sender env n w"
| "subnet_invoke ext sender env Leave w = leave ext sender env w"
| "subnet_invoke ext sender env KillSubnet w = kill_subnet ext sender env w"
| "subnet_invoke ext sender env (SubmitCheckpoint ch) w = submit_checkpoint ext sender env ch w"
| "subnet_invoke ext sender env (SetValidatorNetAddr n) w = set_validator_net_addr env n w"
| "subnet_invoke ext sender env Reward w = reward sender env w"

inductive subnet_step ::
    "('a, 'c) externs \<Rightarrow> ('a, 'c, 'x) sa_sender \<Rightarrow> ('a, 'c, 'x) sa_world \<Rightarrow>
     'a msg_env \<times> ('a, 'c) subnet_call \<Rightarrow> ('a, 'c, 'x) sa_world \<Rightarrow> bool"
  for ext :: "('a, 'c) externs" and sender :: "('a, 'c, 'x) sa_sender" where
  subnet_message: "0 \<le> value_received env \<Longrightarrow>
     subnet_invoke ext sender env call (credited env w) = Inr w' \<Longrightarrow>
     subnet_step ext sender w (env, call) w'"

inductive_cases subnet_stepE: "subnet_step ext sender w (env, call) w'"

inductive_simps subnet_step_simps: "subnet_step ext sender w (env, call) w'"

end
