(* ===== verification/Subnet_Inv.thy ===== *)
theory Subnet_Inv
  imports Subnet_Actor
begin

text \<open>
  The invariant of the subnet actor and its preservation by every handler: the stake tables agree
  with each other and with the status, and the committed checkpoints form a chain without gaps.
\<close>

section \<open>The chain of committed checkpoints\<close>

text \<open>The cid that the checkpoint after epoch \<open>e\<close> has to name.\<close>

definition prev_cid_at :: "('a, 'c) externs \<Rightarrow> ('a, 'c) subnet_actor_state \<Rightarrow> chain_epoch \<Rightarrow> 'c" where
  "prev_cid_at ext st e =
     (case committed_checkpoints st e of Some ch \<Rightarrow> check_cid (check_hash ext) ch | None \<Rightarrow> genesis_cid ext)"

definition chain_ok :: "('a, 'c) externs \<Rightarrow> ('a, 'c) subnet_actor_state \<Rightarrow> bool" where
  "chain_ok ext st \<longleftrightarrow>
     (let vt = bottomup_checkpoint_voting st; g = genesis_epoch vt; p = submission_period vt;
          l = last_voting_executed_epoch vt
      in 0 < p \<and> g \<le> l \<and> p dvd l - g \<and>
         (\<forall>e. committed_checkpoints st e \<noteq> None \<longleftrightarrow> g < e \<and> e \<le> l \<and> p dvd e - g) \<and>
         (\<forall>e ch. committed_checkpoints st e = Some ch \<longrightarrow>
            check_epoch (check_content ch) = e \<and> prev_check (check_content ch) = prev_cid_at ext st (e - p)) \<and>
         previous_executed_checkpoint_cid st = prev_cid_at ext st l)"

lemma chain_okD:
  assumes "chain_ok ext st"
  defines "vt \<equiv> bottomup_checkpoint_voting st"
  shows "0 < submission_period vt" and "genesis_epoch vt \<le> last_voting_executed_epoch vt"
    and "submission_period vt dvd last_voting_executed_epoch vt - genesis_epoch vt"
    and "committed_checkpoints st e \<noteq> None \<longleftrightarrow> genesis_epoch vt < e \<and> e \<le> last_voting_executed_epoch vt \<and>
      submission_period vt dvd e - genesis_epoch vt"
    and "committed_checkpoints st e = Some ch \<Longrightarrow> check_epoch (check_content ch) = e \<and>
      prev_check (check_content ch) = prev_cid_at ext st (e - submission_period vt)"
    and "previous_executed_checkpoint_cid st = prev_cid_at ext st (last_voting_executed_epoch vt)"
  using assms(1) unfolding chain_ok_def Let_def vt_def by blast+

lemma chain_ok_cong:
  assumes "committed_checkpoints st' = committed_checkpoints st"
    and "previous_executed_checkpoint_cid st' = previous_executed_checkpoint_cid st"
    and "genesis_epoch (bottomup_checkpoint_voting st') = genesis_epoch (bottomup_checkpoint_voting st)"
    and "submission_period (bottomup_checkpoint_voting st') = submission_period (bottomup_checkpoint_voting st)"
    and "last_voting_executed_epoch (bottomup_checkpoint_voting st') =
      last_voting_executed_epoch (bottomup_checkpoint_voting st)"
  shows "chain_ok ext st' = chain_ok ext st"
  using assms by (simp add: chain_ok_def prev_cid_at_def Let_def)

lemma chain_ok_part: "chain_part st' = chain_part st \<Longrightarrow> chain_ok ext st' = chain_ok ext st"
  by (rule chain_ok_cong) (simp_all add: chain_part_def)

text \<open>Committing a checkpoint: it is skipped when it does not extend the chain, or it becomes the next link.\<close>

lemma commit_checkpoint_Inr:
  assumes "commit_checkpoint ext ch st = Inr (m, st')"
  obtains (skipped) "prev_check (check_content ch) \<noteq> previous_executed_checkpoint_cid st" "m = None"
      "st' = st\<lparr>bottomup_checkpoint_voting :=
         abort_epoch (check_epoch (check_content ch)) (bottomup_checkpoint_voting st)\<rparr>"
  | (committed) vt where "prev_check (check_content ch) = previous_executed_checkpoint_cid st"
      "mark_epoch_executed (check_epoch (check_content ch)) (bottomup_checkpoint_voting st) = Inr vt"
      "m = Some (cross_actor_payload (ipc_gateway_addr st) (method_hash ext ''CommitChildCheckpoint'')
         (CheckpointParams ch) 0)"
      "st' = flush_committed ch (st\<lparr>bottomup_checkpoint_voting := vt,
         previous_executed_checkpoint_cid := check_cid (check_hash ext) ch\<rparr>)"
  using assms
  by (auto simp: commit_checkpoint_def ensure_checkpoint_chained_def Let_def split: if_splits)

lemma commit_checkpoint_chain:
  assumes ok: "chain_ok ext st" and c: "commit_checkpoint ext ch st = Inr (m, st')"
  shows "chain_ok ext st'"
  using c
proof (cases rule: commit_checkpoint_Inr)
  case skipped
  then have "chain_ok ext st' = chain_ok ext st" by (intro chain_ok_cong) simp_all
  with ok show ?thesis by simp
next
  case (committed vt)
  let ?vt = "bottomup_checkpoint_voting st"
  let ?l = "last_voting_executed_epoch ?vt" and ?p = "submission_period ?vt" and ?g = "genesis_epoch ?vt"
  let ?e = "check_epoch (check_content ch)"
  note m = mark_epoch_executed_Inr [OF committed(2)]
  note d = chain_okD [OF ok]
  have cc: "committed_checkpoints st' = (committed_checkpoints st)(?e \<mapsto> ch)"
    and pc: "previous_executed_checkpoint_cid st' = check_cid (check_hash ext) ch"
    and vt: "bottomup_checkpoint_voting st' = vt"
    by (simp_all add: committed(4) flush_committed_def)
  have old: "prev_cid_at ext st' e = prev_cid_at ext st e" if "e \<noteq> ?e" for e
    using that by (simp add: prev_cid_at_def cc)
  have e: "?e = ?l + ?p" by (rule m(1))
  have dvd: "?p dvd ?e - ?g" using dvd_add [OF d(3) dvd_refl] by (simp add: e algebra_simps)
  have next_link: "?e \<le> f" if "?l < f" "?p dvd f - ?g" for f
  proof -
    have "?p dvd f - ?l" using dvd_diff [OF that(2) d(3)] by simp
    then have "?p \<le> f - ?l" using that(1) by (intro zdvd_imp_le) simp_all
    then show ?thesis by (simp add: e)
  qed
  have "committed_checkpoints st' f \<noteq> None \<longleftrightarrow> ?g < f \<and> f \<le> ?e \<and> ?p dvd f - ?g" for f
  proof (cases "f = ?e")
    case True
    then show ?thesis using dvd d(1,2) by (simp add: cc e)
  next
    case False
    with d(4) [of f] next_link [of f] d(1) show ?thesis by (auto simp: cc e)
  qed
  moreover have "check_epoch (check_content c) = f \<and>
      prev_check (check_content c) = prev_cid_at ext st' (f - ?p)" if "committed_checkpoints st' f = Some c" for f c
  proof (cases "f = ?e")
    case True
    with that have "c = ch" by (simp add: cc)
    then show ?thesis using True committed(1) d(1,6) old [of ?l] by (simp add: e)
  next
    case False
    with that have c: "committed_checkpoints st f = Some c" by (simp add: cc)
    then have "f \<le> ?l" using d(4) [of f] by simp
    then show ?thesis using d(1) d(5) [OF c] old [of "f - ?p"] by (simp add: e)
  qed
  moreover have "previous_executed_checkpoint_cid st' = prev_cid_at ext st' ?e"
    by (simp add: pc prev_cid_at_def cc)
  ultimately show ?thesis
    using m d(1,2) dvd unfolding chain_ok_def Let_def vt by (simp add: e)
qed

section \<open>The invariant and the handlers\<close>

definition subnet_inv :: "('a, 'c) externs \<Rightarrow> ('a, 'c) subnet_actor_state \<Rightarrow> bool" where
  "subnet_inv ext st \<longleftrightarrow> stake_inv st \<and> status_ok st \<and> chain_ok ext st"

lemma new_subnet_actor_inv: "subnet_inv ext (new_subnet_actor ext env params e)"
proof -
  have "chain_ok ext (new_subnet_actor ext env params e)"
    by (auto simp: chain_ok_def new_subnet_actor_def Let_def new_voting_with_ratio_def prev_cid_at_def
        DEFAULT_CHECKPOINT_PERIOD_def)
  moreover have "stake_inv (new_subnet_actor ext env params e)"
    by (auto simp: stake_inv_def stakes_ok_def validators_ok_def new_subnet_actor_def Let_def
        stake_or_zero_def get_stake_def empty_validator_set_def val_addrs_def MIN_COLLATERAL_AMOUNT_def)
  ultimately show ?thesis
    by (simp add: subnet_inv_def status_ok_def new_subnet_actor_def Let_def MIN_COLLATERAL_AMOUNT_def)
qed

lemma add_validator_stake_status:
  "add_validator_stake a n v st = Inr st' \<Longrightarrow> actor_status st' = actor_status st"
  by (auto elim: add_validator_stake_Inr)

lemma rm_stake_status: "rm_stake a v st = Inr (r, st') \<Longrightarrow> actor_status st' = actor_status st"
  by (auto elim: rm_stake_Inr)

lemma not_terminating: "status_ok st \<Longrightarrow> actor_status st \<noteq> Terminating"
  by (auto simp: status_ok_def)

lemma join_state_Inr:
  assumes "join_state ext env n st = Inr (m, st')"
  obtains st1 where "add_validator_stake (caller env) n (value_received env) st = Inr st1"
    "st' = mutate_state st1"
    "m = (if actor_status st = Instantiated
          then if MIN_COLLATERAL_AMOUNT \<le> total_stake st1
               then Some (cross_actor_payload (ipc_gateway_addr st) (method_hash ext ''Register'')
                      NoBlock (total_stake st1))
               else None
          else Some (cross_actor_payload (ipc_gateway_addr st) (method_hash ext ''AddStake'')
                 NoBlock (value_received env)))"
proof -
  from assms obtain st1 where a: "add_validator_stake (caller env) n (value_received env) st = Inr st1"
    by (auto simp: join_state_def)
  have "actor_status st1 = actor_status st" "ipc_gateway_addr st1 = ipc_gateway_addr st"
    using add_validator_stake_status [OF a] chain_part_stakes(1) [OF a] by (simp_all add: chain_part_def)
  with assms show ?thesis
    by (intro that [OF a]) (auto simp: join_state_def Let_def a)
qed

lemma join_state_inv:
  assumes "subnet_inv ext st" and "0 \<le> value_received env" and "join_state ext env n st = Inr (m, st')"
  shows "subnet_inv ext st'"
proof -
  from assms(3) obtain st1 where a: "add_validator_stake (caller env) n (value_received env) st = Inr st1"
    and st': "st' = mutate_state st1" by (rule join_state_Inr)
  have "actor_status st1 \<noteq> Terminating"
    using add_validator_stake_status [OF a] assms(1) not_terminating by (auto simp: subnet_inv_def)
  moreover have "chain_ok ext st' = chain_ok ext st"
    by (rule chain_ok_part) (simp add: st' chain_part_stakes(1) [OF a] chain_part_stakes(3))
  ultimately show ?thesis
    using assms(1) add_validator_stake_inv [OF _ assms(2) a]
    by (simp add: subnet_inv_def st' status_ok_mutate)
qed

lemma leave_state_Inr:
  assumes "leave_state ext env st = Inr ((v, m), st')"
  obtains st1 where "stakes st (caller env) = Some v" "v \<noteq> 0" "rm_stake (caller env) v st = Inr (v, st1)"
    "st' = mutate_state st1"
    "m = (if actor_status st \<noteq> Terminating
          then Some (cross_actor_payload (ipc_gateway_addr st) (method_hash ext ''ReleaseStake'')
                 (AmountParams v) 0)
          else None)"
proof -
  from assms obtain s where s: "stakes st (caller env) = Some s" "s \<noteq> 0"
    by (auto simp: leave_state_def get_stake_def split: option.splits if_splits)
  with assms obtain st1 where r: "rm_stake (caller env) s st = Inr (v, st1)"
    by (auto simp: leave_state_def get_stake_def Let_def)
  then have "v = s" by (auto elim: rm_stake_Inr)
  with assms s r show ?thesis
    by (intro that [of st1]) (auto simp: leave_state_def get_stake_def Let_def)
qed

lemma leave_state_inv:
  assumes "subnet_inv ext st" and "leave_state ext env st = Inr (r, st')"
  shows "subnet_inv ext st'"
proof -
  from assms(2) obtain v m st1 where s: "stakes st (caller env) = Some v"
    and r: "rm_stake (caller env) v st = Inr (v, st1)" and st': "st' = mutate_state st1"
    by (cases r) (auto elim: leave_state_Inr)
  have "actor_status st1 \<noteq> Terminating"
    using rm_stake_status [OF r] assms(1) not_terminating by (auto simp: subnet_inv_def)
  moreover have "chain_ok ext st' = chain_ok ext st"
    by (rule chain_ok_part) (simp add: st' chain_part_stakes(2) [OF r] chain_part_stakes(3))
  ultimately show ?thesis
    using assms(1) rm_stake_inv [OF _ s r] by (simp add: subnet_inv_def st' status_ok_mutate)
qed

lemma kill_state_Inr:
  assumes "kill_state ext st = Inr (m, st')"
  shows "validators (validator_set st) = []" and "total_stake st = 0"
    and "actor_status st \<noteq> Killed" and "st' = st\<lparr>actor_status := Killed\<rparr>"
    and "m = Some (cross_actor_payload (ipc_gateway_addr st) (method_hash ext ''Kill'') NoBlock 0)"
  using assms by (auto simp: kill_state_def mutate_state_def split: if_splits)

lemma kill_state_inv:
  assumes "subnet_inv ext st" and "kill_state ext st = Inr (m, st')"
  shows "subnet_inv ext st'"
proof -
  have "stake_inv st' = stake_inv st"
    by (rule stake_inv_cong) (simp_all add: kill_state_Inr(4) [OF assms(2)])
  moreover have "chain_ok ext st' = chain_ok ext st"
    by (rule chain_ok_cong) (simp_all add: kill_state_Inr(4) [OF assms(2)])
  ultimately show ?thesis
    using assms(1) by (simp add: subnet_inv_def status_ok_def kill_state_Inr(4) [OF assms(2)])
qed

definition same_stakes :: "('a, 'c) subnet_actor_state \<Rightarrow> ('a, 'c) subnet_actor_state \<Rightarrow> bool" where
  "same_stakes st st' \<longleftrightarrow>
     stakes st' = stakes st \<and> total_stake st' = total_stake st \<and> actor_status st' = actor_status st \<and>
     min_validator_stake st' = min_validator_stake st \<and> validator_set st' = validator_set st \<and>
     ipc_gateway_addr st' = ipc_gateway_addr st \<and> parent_id st' = parent_id st"

lemma same_stakes_inv:
  assumes "same_stakes st st'"
  shows "stake_inv st' = stake_inv st" and "status_ok st' = status_ok st"
  using assms by (simp_all add: same_stakes_def status_ok_cong [of st' st] stake_inv_cong [of st' st])

lemma commit_checkpoint_same_stakes:
  "commit_checkpoint ext ch st = Inr (m, st') \<Longrightarrow> same_stakes st st'"
  by (auto simp: same_stakes_def flush_committed_def elim!: commit_checkpoint_Inr)

text \<open>What a submission does: the vote, and then nothing or a checkpoint that is committed.\<close>

lemma submit_checkpoint_state_Inr:
  assumes "submit_checkpoint_state ext env ch st = Inr (m, st')"
  obtains c vt st1 where
    "submit_vote (checkpoint_key ext) ch (check_epoch (check_content ch)) (caller env)
       (stake_or_zero (caller env) st) (total_stake st) (bottomup_checkpoint_voting st) = Inr (c, vt)"
    "st1 = st\<lparr>bottomup_checkpoint_voting := vt\<rparr>"
    "case c of
       Some d \<Rightarrow> commit_checkpoint ext d st1 = Inr (m, st')
     | None \<Rightarrow>
         (case get_next_executable_vote vt of
            Inr (Some d) \<Rightarrow> commit_checkpoint ext d st1 = Inr (m, st')
          | Inr None \<Rightarrow> m = None \<and> st' = st1
          | Inl _ \<Rightarrow> False)"
proof -
  from assms obtain c vt where v: "submit_vote (checkpoint_key ext) ch (check_epoch (check_content ch)) (caller env)
       (stake_or_zero (caller env) st) (total_stake st) (bottomup_checkpoint_voting st) = Inr (c, vt)"
    by (auto simp: submit_checkpoint_state_def Let_def)
  show ?thesis
    by (rule that [OF v refl], use assms v in \<open>simp add: submit_checkpoint_state_def Let_def split: option.splits\<close>)
      (auto split: sum.splits option.splits)
qed

lemma submit_checkpoint_state_inv:
  assumes inv: "subnet_inv ext st" and s: "submit_checkpoint_state ext env ch st = Inr (m, st')"
  shows "subnet_inv ext st'" and "same_stakes st st'"
proof -
  from s obtain c vt st1 where v: "submit_vote (checkpoint_key ext) ch (check_epoch (check_content ch)) (caller env)
       (stake_or_zero (caller env) st) (total_stake st) (bottomup_checkpoint_voting st) = Inr (c, vt)"
    and st1: "st1 = st\<lparr>bottomup_checkpoint_voting := vt\<rparr>"
    and "case c of Some d \<Rightarrow> commit_checkpoint ext d st1 = Inr (m, st')
       | None \<Rightarrow> (case get_next_executable_vote vt of
            Inr (Some d) \<Rightarrow> commit_checkpoint ext d st1 = Inr (m, st')
          | Inr None \<Rightarrow> m = None \<and> st' = st1 | Inl _ \<Rightarrow> False)"
    by (rule submit_checkpoint_state_Inr)
  then have cases: "(\<exists>d. commit_checkpoint ext d st1 = Inr (m, st')) \<or> st' = st1"
    by (auto split: option.splits sum.splits)
  have "chain_ok ext st1 = chain_ok ext st"
    by (rule chain_ok_cong) (simp_all add: st1 submit_vote_frame [OF v])
  then have chain: "chain_ok ext st'"
    using cases inv commit_checkpoint_chain by (auto simp: subnet_inv_def)
  have "same_stakes st st1" by (simp add: same_stakes_def st1)
  then show same: "same_stakes st st'"
    using cases by (auto simp: same_stakes_def dest!: commit_checkpoint_same_stakes)
  show "subnet_inv ext st'"
    using inv chain same_stakes_inv [OF same] by (simp add: subnet_inv_def)
qed

lemma update_net_addr_Some:
  "update_net_addr a n vs = Some vs' \<Longrightarrow>
     map (\<lambda>v. (val_addr v, val_weight v)) vs' = map (\<lambda>v. (val_addr v, val_weight v)) vs"
  by (induction a n vs arbitrary: vs' rule: update_net_addr.induct) (auto split: if_splits)

lemma set_net_addr_inv:
  assumes inv: "subnet_inv ext st" and u: "update_net_addr a n (validators (validator_set st)) = Some vs"
  shows "subnet_inv ext (st\<lparr>validator_set := (validator_set st)\<lparr>validators := vs\<rparr>\<rparr>)"
proof -
  let ?st = "st\<lparr>validator_set := (validator_set st)\<lparr>validators := vs\<rparr>\<rparr>"
  let ?f = "\<lambda>v :: 'a validator. (val_addr v, val_weight v)"
  note e = update_net_addr_Some [OF u]
  have "map fst (map ?f vs) = map fst (map ?f (validators (validator_set st)))" by (simp only: e)
  then have addrs: "val_addrs (validator_set ?st) = val_addrs (validator_set st)"
    by (simp add: val_addrs_def comp_def)
  have "(\<forall>p \<in> set (map ?f vs). stakes st (fst p) = Some (snd p)) \<longleftrightarrow>
      (\<forall>p \<in> set (map ?f (validators (validator_set st))). stakes st (fst p) = Some (snd p))"
    by (simp only: e)
  then have "validators_ok ?st = validators_ok st"
    unfolding validators_ok_def addrs by (simp add: stake_or_zero_def get_stake_def)
  moreover have "chain_ok ext ?st = chain_ok ext st" by (rule chain_ok_cong) simp_all
  ultimately show ?thesis
    using inv status_ok_cong [of ?st st] by (simp add: subnet_inv_def stake_inv_def stakes_ok_def)
qed

section \<open>Every handler keeps the invariant\<close>

lemma send_req_drop_keeps:
  "sender_keeps P sender \<Longrightarrow> send_req_drop sender r w = Inr w' \<Longrightarrow> P (wstate w) \<Longrightarrow> P (wstate w')"
  by (auto simp: send_req_drop_def dest: sender_keepsD)

lemma send_opt_keeps:
  "sender_keeps P sender \<Longrightarrow> send_opt sender m w = Inr w' \<Longrightarrow> P (wstate w) \<Longrightarrow> P (wstate w')"
  by (auto simp: send_opt_def split: option.splits dest: send_req_drop_keeps)

lemma send_loop_keeps:
  assumes "sender_keeps P sender" and "fold_res (\<lambda>v. send_req_drop sender (f v)) vs w = Inr w'"
    and "P (wstate w)"
  shows "P (wstate w')"
  by (rule fold_res_invariant [OF _ assms(2), where P = "\<lambda>w. P (wstate w)"])
    (use assms(1,3) in \<open>auto dest: send_req_drop_keeps\<close>)

text \<open>The handlers as a change of the state followed by sends.\<close>

lemma join_Inr:
  assumes "join ext sender env n w = Inr w'"
  obtains m st where "caller_signable env" "value_received env \<noteq> 0"
    "join_state ext env n (wstate w) = Inr (m, st)" "send_opt sender m (w\<lparr>wstate := st\<rparr>) = Inr w'"
  using assms by (auto simp: join_def split: if_splits)

lemma leave_Inr:
  assumes "leave ext sender env w = Inr w'"
  obtains (unpaid) v st where "caller_signable env" "leave_state ext env (wstate w) = Inr ((v, None), st)"
      "w' = w\<lparr>wstate := st\<rparr>"
  | (paid) v p st w1 where "caller_signable env" "leave_state ext env (wstate w) = Inr ((v, Some p), st)"
      "send_req_drop sender p (w\<lparr>wstate := st\<rparr>) = Inr w1"
      "send_req_drop sender (cross_actor_payload (caller env) METHOD_SEND NoBlock v) w1 = Inr w'"
proof -
  from assms obtain v m st where "caller_signable env" and s: "leave_state ext env (wstate w) = Inr ((v, m), st)"
    by (auto simp: leave_def)
  with assms show ?thesis
    by (cases m) (auto simp: leave_def intro: that)
qed

lemma kill_subnet_Inr:
  assumes "kill_subnet ext sender env w = Inr w'"
  obtains m st where "caller_signable env" "wbalance w = 0" "kill_state ext (wstate w) = Inr (m, st)"
    "send_opt sender m (w\<lparr>wstate := st\<rparr>) = Inr w'"
  using assms by (auto simp: kill_subnet_def split: if_splits)

lemma submit_checkpoint_Inr:
  assumes "submit_checkpoint ext sender env ch0 w = Inr w'"
  obtains ch m st where "ch = enforce_f0_source (resolve_address env) ch0" "caller_signable env"
    "is_validator (caller env) (wstate w)" "verify_checkpoint env ch (wstate w) = Inr ()"
    "submit_checkpoint_state ext env ch (wstate w) = Inr (m, st)" "send_opt sender m (w\<lparr>wstate := st\<rparr>) = Inr w'"
  using assms by (auto simp: submit_checkpoint_def Let_def split: if_splits)

lemma reward_Inr:
  assumes "reward sender env w = Inr w'"
  obtains vs where "vs = validators (validator_set (wstate w))" "caller env = ipc_gateway_addr (wstate w)"
    "value_received env \<noteq> 0" "vs \<noteq> []"
    "fold_res (\<lambda>v. send_req_drop sender (cross_actor_payload (val_addr v) METHOD_SEND NoBlock
       (value_received env div int (length vs)))) vs w = Inr w'"
  using assms by (auto simp: reward_def Let_def split: if_splits)

lemma set_validator_net_addr_Inr:
  assumes "set_validator_net_addr env n w = Inr w'"
  obtains vs where "caller_signable env"
    "update_net_addr (caller env) n (validators (validator_set (wstate w))) = Some vs"
    "w' = w\<lparr>wstate := (wstate w)\<lparr>validator_set := (validator_set (wstate w))\<lparr>validators := vs\<rparr>\<rparr>\<rparr>"
  using assms by (auto simp: set_validator_net_addr_def split: option.splits)

lemma subnet_invoke_inv:
  assumes inv: "subnet_inv ext (wstate w)" and nonneg: "0 \<le> value_received env"
    and keeps: "sender_keeps (subnet_inv ext) sender"
    and call: "subnet_invoke ext sender env c w = Inr w'"
  shows "subnet_inv ext (wstate w')"
proof (cases c)
  case (Join n)
  from call [unfolded Join subnet_invoke.simps] show ?thesis
    using join_state_inv [OF inv nonneg] send_opt_keeps [OF keeps] by (auto elim!: join_Inr)
next
  case Leave
  from call [unfolded Leave subnet_invoke.simps] show ?thesis
  proof (cases rule: leave_Inr)
    case (unpaid v st)
    then show ?thesis using leave_state_inv [OF inv] by simp
  next
    case (paid v p st w1)
    have "subnet_inv ext (wstate w1)"
      using send_req_drop_keeps [OF keeps paid(3)] leave_state_inv [OF inv paid(2)] by simp
    then show ?thesis using send_req_drop_keeps [OF keeps paid(4)] by simp
  qed
next
  case KillSubnet
  from call [unfolded KillSubnet subnet_invoke.simps] show ?thesis
    using kill_state_inv [OF inv] send_opt_keeps [OF keeps] by (auto elim!: kill_subnet_Inr)
next
  case (SubmitCheckpoint ch)
  from call [unfolded SubmitCheckpoint subnet_invoke.simps] show ?thesis
  proof (cases rule: submit_checkpoint_Inr)
    case (1 ch m st)
    have "subnet_inv ext st" by (rule submit_checkpoint_state_inv(1) [OF inv 1(5)])
    then show ?thesis using send_opt_keeps [OF keeps 1(6)] by simp
  qed
next
  case (SetValidatorNetAddr n)
  from call [unfolded SetValidatorNetAddr subnet_invoke.simps] show ?thesis
    using set_net_addr_inv [OF inv] by (auto elim!: set_validator_net_addr_Inr)
next
  case Reward
  from call [unfolded Reward subnet_invoke.simps] show ?thesis
    using send_loop_keeps [OF keeps] inv by (auto elim!: reward_Inr)
qed

lemma subnet_step_inv:
  assumes "subnet_step ext sender w e w'" and keeps: "sender_keeps (subnet_inv ext) sender"
    and "subnet_inv ext (wstate w)"
  shows "subnet_inv ext (wstate w')"
  using assms(1)
proof cases
  case (subnet_message env call)
  then show ?thesis
    using subnet_invoke_inv [OF _ subnet_message(2) keeps subnet_message(3)] assms(3) by simp
qed

lemma subnet_run_inv:
  assumes "run (subnet_step ext sender) w evs w'" and "sender_keeps (subnet_inv ext) sender"
    and "subnet_inv ext (wstate w)"
  shows "subnet_inv ext (wstate w')"
  by (rule run_invariant [OF assms(1), where P = "\<lambda>w. subnet_inv ext (wstate w)"])
    (use assms(2,3) subnet_step_inv in blast)+

end
