(* ===== verification/Subnet_System.thy ===== *)
theory Subnet_System
  imports Gateway_View Subnet_Inv
begin

text \<open>
  A subnet actor and the gateway it registers with, composed as the runtime composes them: a send of
  the subnet actor to the gateway runs the gateway's handler, whose own sends may pay the subnet actor
  back or call its \<open>Reward\<close> method. All other actors accept what they are paid; the payments are logged.
\<close>

section \<open>Two actors in one world\<close>

record 'a site =
  gw_addr :: 'a
  sa_addr :: 'a

record ('a, 'c) parent_side =
  gw_st :: "('a, 'c) gateway"
  gw_bal :: token_amount
  pay_log :: "('a \<times> token_amount) list"

record ('a, 'c) child_side =
  sub_st :: "('a, 'c) subnet_actor_state"
  sub_bal :: token_amount
  child_log :: "('a \<times> token_amount) list"

type_synonym ('a, 'c) system = "('a, 'c, ('a, 'c) parent_side) sa_world"

definition to_gateway :: "('a, 'c) system \<Rightarrow> ('a, 'c, ('a, 'c) child_side) gw_world" where
  "to_gateway w =
     \<lparr>wstate = gw_st (wrest w), wbalance = gw_bal (wrest w),
      wrest = \<lparr>sub_st = wstate w, sub_bal = wbalance w, child_log = pay_log (wrest w)\<rparr>\<rparr>"

definition to_subnet :: "('a, 'c, ('a, 'c) child_side) gw_world \<Rightarrow> ('a, 'c) system" where
  "to_subnet g =
     \<lparr>wstate = sub_st (wrest g), wbalance = sub_bal (wrest g),
      wrest = \<lparr>gw_st = wstate g, gw_bal = wbalance g, pay_log = child_log (wrest g)\<rparr>\<rparr>"

lemma to_subnet_simps [simp]:
  "wstate (to_subnet g) = sub_st (wrest g)" "wbalance (to_subnet g) = sub_bal (wrest g)"
  "gw_st (wrest (to_subnet g)) = wstate g" "gw_bal (wrest (to_subnet g)) = wbalance g"
  by (simp_all add: to_subnet_def)

lemma to_gateway_simps [simp]:
  "wstate (to_gateway w) = gw_st (wrest w)" "wbalance (to_gateway w) = gw_bal (wrest w)"
  "sub_st (wrest (to_gateway w)) = wstate w" "sub_bal (wrest (to_gateway w)) = wbalance w"
  by (simp_all add: to_gateway_def)

text \<open>The environment of a message that one actor sends to another while handling a message.\<close>

definition nested_env :: "'a \<Rightarrow> 'a \<Rightarrow> token_amount \<Rightarrow> 'a msg_env \<Rightarrow> 'a msg_env" where
  "nested_env from_addr to_addr v env =
     \<lparr>caller = from_addr, receiver = to_addr, value_received = v, curr_epoch = curr_epoch env,
      caller_signable = False, resolve_address = resolve_address env\<rparr>"

lemma nested_env_simps [simp]:
  "caller (nested_env a b v env) = a" "receiver (nested_env a b v env) = b"
  "value_received (nested_env a b v env) = v" "resolve_address (nested_env a b v env) = resolve_address env"
  "caller_signable (nested_env a b v env) = False"
  by (simp_all add: nested_env_def)

section \<open>The senders\<close>

text \<open>A payment to an actor outside the two.\<close>

definition pay_out :: "('a, 'p, 's, ('a \<times> token_amount) list) sender" where
  "pay_out r w =
     (if sr_value r < 0 \<or> wbalance w < sr_value r then Inl (ActorError USR_UNSPECIFIED)
      else Inr (None, w\<lparr>wbalance := wbalance w - sr_value r, wrest := wrest w @ [(sr_to r, sr_value r)]\<rparr>))"

text \<open>The sends of the gateway.\<close>

definition gw_send ::
    "('a, 'c) externs \<Rightarrow> 'a site \<Rightarrow> 'a msg_env \<Rightarrow> ('a, 'c, ('a, 'c) child_side) gw_sender" where
  "gw_send ext site env r g =
     (if sr_value r < 0 \<or> wbalance g < sr_value r then Inl (ActorError USR_UNSPECIFIED)
      else
        let g1 = g\<lparr>wbalance := wbalance g - sr_value r\<rparr>;
            env' = nested_env (gw_addr site) (sa_addr site) (sr_value r) env;
            sw = credited env' \<lparr>wstate = sub_st (wrest g), wbalance = sub_bal (wrest g), wrest = child_log (wrest g)\<rparr>;
            put = (\<lambda>sw. g1\<lparr>wrest := \<lparr>sub_st = wstate sw, sub_bal = wbalance sw, child_log = wrest sw\<rparr>\<rparr>)
        in if sr_to r = sa_addr site
           then if sr_method r = METHOD_SEND then Inr (None, put sw)
                else if sr_method r = SUBNET_ACTOR_REWARD_METHOD ext
                then and_then (reward pay_out env' sw) (\<lambda>sw'. Inr (None, put sw'))
                else Inl (ActorError USR_UNHANDLED_MESSAGE)
           else Inr (None, g1\<lparr>wrest := (wrest g)\<lparr>child_log := child_log (wrest g) @ [(sr_to r, sr_value r)]\<rparr>\<rparr>))"

text \<open>The method numbers that the gateway dispatches for subnet actors.\<close>

definition gateway_call_of ::
    "('a, 'c) externs \<Rightarrow> u64 \<Rightarrow> ('a, 'c) actor_params \<Rightarrow> ('a, 'c) gateway_call option" where
  "gateway_call_of ext m p =
     (if m = method_hash ext ''Register'' then Some Register
      else if m = method_hash ext ''AddStake'' then Some AddStake
      else if m = method_hash ext ''ReleaseStake''
      then (case p of AmountParams v \<Rightarrow> Some (ReleaseStake v) | _ \<Rightarrow> None)
      else if m = method_hash ext ''Kill'' then Some Kill
      else if m = method_hash ext ''CommitChildCheckpoint''
      then (case p of CheckpointParams ch \<Rightarrow> Some (CommitChildCheckpoint ch) | _ \<Rightarrow> None)
      else None)"

text \<open>The sends of the subnet actor. Its users are not the gateway, so a plain send leaves the two.\<close>

definition sa_send ::
    "('a, 'c) externs \<Rightarrow> 'a site \<Rightarrow> 'a msg_env \<Rightarrow> ('a, 'c, ('a, 'c) parent_side) sa_sender" where
  "sa_send ext site env r w =
     (if sr_value r < 0 \<or> wbalance w < sr_value r then Inl (ActorError USR_UNSPECIFIED)
      else
        let w1 = w\<lparr>wbalance := wbalance w - sr_value r\<rparr>;
            env' = nested_env (sa_addr site) (gw_addr site) (sr_value r) env
        in if sr_to r \<noteq> gw_addr site
           then Inr (None, w1\<lparr>wrest := (wrest w)\<lparr>pay_log := pay_log (wrest w) @ [(sr_to r, sr_value r)]\<rparr>\<rparr>)
           else case gateway_call_of ext (sr_method r) (sr_params r) of
                  None \<Rightarrow> Inl (ActorError USR_UNHANDLED_MESSAGE)
                | Some call \<Rightarrow>
                    and_then (gateway_invoke ext (gw_send ext site env) env' call (credited env' (to_gateway w1)))
                      (\<lambda>g. Inr (None, to_subnet g)))"

section \<open>Steps\<close>

text \<open>A message of a user to the subnet actor, or of anyone else but the subnet actor to the gateway.\<close>

datatype ('a, 'c) system_call =
    ToSubnet "('a, 'c) subnet_call"
  | ToGateway "('a, 'c) gateway_call"

inductive system_step ::
    "('a, 'c) externs \<Rightarrow> 'a site \<Rightarrow> ('a, 'c) system \<Rightarrow> 'a msg_env \<times> ('a, 'c) system_call \<Rightarrow>
     ('a, 'c) system \<Rightarrow> bool"
  for ext :: "('a, 'c) externs" and site :: "'a site" where
  to_subnet_actor: "0 \<le> value_received env \<Longrightarrow> caller env \<noteq> gw_addr site \<Longrightarrow>
     resolve_address env (sa_addr site) = Some (sa_addr site) \<Longrightarrow>
     subnet_invoke ext (sa_send ext site env) env call (credited env w) = Inr w' \<Longrightarrow>
     system_step ext site w (env, ToSubnet call) w'"
| to_gateway_actor: "0 \<le> value_received env \<Longrightarrow> caller env \<noteq> sa_addr site \<Longrightarrow> caller_is_id env \<Longrightarrow>
     gateway_invoke ext (gw_send ext site env) env call (credited env (to_gateway w)) = Inr g \<Longrightarrow>
     system_step ext site w (env, ToGateway call) (to_subnet g)"

inductive_cases to_subnetE: "system_step ext site w (env, ToSubnet call) w'"
inductive_cases to_gatewayE: "system_step ext site w (env, ToGateway call) w'"

section \<open>Facts about the senders\<close>

lemma pay_out_keeps: "pay_out r w = Inr (b, w') \<Longrightarrow> wstate w' = wstate w \<and> wbalance w' = wbalance w - sr_value r"
  by (auto simp: pay_out_def split: if_splits)

lemma send_req_drop_Inr: "send_req_drop sender r w = Inr w' \<longleftrightarrow> (\<exists>b. sender r w = Inr (b, w'))"
  by (auto simp: send_req_drop_def)

text \<open>Rewarding the validators keeps the state, and the subnet actor does not spend more than it received.\<close>

lemma pay_loop:
  assumes "fold_res (\<lambda>v. send_req_drop pay_out (cross_actor_payload (f v) METHOD_SEND NoBlock a)) vs w = Inr w'"
  shows "wstate w' = wstate w \<and> wbalance w' = wbalance w - int (length vs) * a"
  using assms
proof (induction vs arbitrary: w)
  case (Cons v vs)
  then obtain w1 where "send_req_drop pay_out (cross_actor_payload (f v) METHOD_SEND NoBlock a) w = Inr w1"
    and "fold_res (\<lambda>v. send_req_drop pay_out (cross_actor_payload (f v) METHOD_SEND NoBlock a)) vs w1 = Inr w'"
    by auto
  with Cons.IH [of w1] show ?case
    by (auto simp: send_req_drop_Inr cross_actor_payload_def algebra_simps dest!: pay_out_keeps)
qed simp

lemma reward_pays:
  assumes "reward pay_out env w = Inr w'"
  shows "wstate w' = wstate w"
    and "wbalance w' = wbalance w - value_received env + value_received env mod int (length (validators (validator_set (wstate w))))"
proof -
  let ?n = "int (length (validators (validator_set (wstate w))))"
  from assms have l: "fold_res (\<lambda>v. send_req_drop pay_out (cross_actor_payload (val_addr v) METHOD_SEND NoBlock
       (value_received env div ?n))) (validators (validator_set (wstate w))) w = Inr w'"
    by (auto elim: reward_Inr)
  have "?n * (value_received env div ?n) = value_received env - value_received env mod ?n"
    by (simp add: minus_mod_eq_mult_div)
  with pay_loop [OF l] show "wstate w' = wstate w"
    "wbalance w' = wbalance w - value_received env + value_received env mod ?n" by simp_all
qed

lemma gw_send_pays: "sender_pays (gw_send ext site env)"
  by (auto simp: sender_pays_def gw_send_def Let_def split: if_splits)

text \<open>Whatever the gateway sends, the subnet actor keeps its state and loses nothing.\<close>

definition child_kept :: "('a, 'c) child_side \<Rightarrow> ('a, 'c) child_side \<Rightarrow> bool" where
  "child_kept x y \<longleftrightarrow> sub_st y = sub_st x \<and> sub_bal x \<le> sub_bal y"

lemma nested_reward:
  fixes env :: "'a msg_env" and w :: "(('a, 'c) subnet_actor_state, ('a \<times> token_amount) list) world"
  assumes "reward pay_out env (credited env w) = Inr w'" and "0 \<le> value_received env"
  shows "wstate w' = wstate w \<and> wbalance w \<le> wbalance w'"
proof -
  have "validators (validator_set (wstate w)) \<noteq> []" using assms(1) by (auto elim: reward_Inr)
  then have "0 \<le> value_received env mod int (length (validators (validator_set (wstate w))))" by simp
  with reward_pays [OF assms(1)] show ?thesis by simp
qed

lemma gw_send_child:
  assumes "gw_send ext site env r g = Inr (b, g')"
  shows "child_kept (wrest g) (wrest g')"
  using assms
  by (auto simp: gw_send_def child_kept_def Let_def split: if_splits dest!: nested_reward)

text \<open>So any message of the gateway keeps the state of the subnet actor and does not cost it anything.\<close>

lemma gateway_call_child:
  assumes "gateway_invoke ext (gw_send ext site env) env' call g = Inr g'"
  shows "child_kept (wrest g) (wrest g')"
  by (rule gateway_invoke_rest [OF _ assms]) (use gw_send_child in \<open>fastforce simp: child_kept_def\<close>)+

text \<open>Paying the subnet actor back credits it exactly the amount.\<close>

lemma pay_back:
  assumes "send_value (gw_send ext site env) (sa_addr site) METHOD_SEND v g = Inr g'"
  shows "wrest g' = (wrest g)\<lparr>sub_bal := sub_bal (wrest g) + v\<rparr>"
  using assms by (auto simp: send_value_def gw_send_def Let_def split: if_splits)

lemma sa_send_gateway:
  assumes "sa_send ext site env (cross_actor_payload (gw_addr site) m p v) w = Inr (b, w')"
    and "gateway_call_of ext m p = Some call"
  obtains g where "0 \<le> v" "v \<le> wbalance w" "w' = to_subnet g"
    "gateway_invoke ext (gw_send ext site env) (nested_env (sa_addr site) (gw_addr site) v env) call
       (credited (nested_env (sa_addr site) (gw_addr site) v env) (to_gateway (w\<lparr>wbalance := wbalance w - v\<rparr>))) = Inr g"
  using assms by (auto simp: sa_send_def cross_actor_payload_def Let_def split: if_splits)

lemma sa_send_user:
  assumes "sa_send ext site env (cross_actor_payload a METHOD_SEND p v) w = Inr (b, w')" and "a \<noteq> gw_addr site"
  shows "wstate w' = wstate w" and "wbalance w' = wbalance w - v" and "gw_st (wrest w') = gw_st (wrest w)"
    and "v \<le> wbalance w" and "gw_bal (wrest w') = gw_bal (wrest w)"
    and "pay_log (wrest w') = pay_log (wrest w) @ [(a, v)]"
  using assms by (auto simp: sa_send_def cross_actor_payload_def Let_def split: if_splits)

text \<open>The method numbers of the calls differ: FRC-42 hashes of different names.\<close>

definition distinct_methods :: "('a, 'c) externs \<Rightarrow> bool" where
  "distinct_methods ext \<longleftrightarrow>
     distinct (map (method_hash ext)
       [''Register'', ''AddStake'', ''ReleaseStake'', ''Kill'', ''CommitChildCheckpoint''])"

lemma gateway_call_of_simps:
  assumes "distinct_methods ext"
  shows "gateway_call_of ext (method_hash ext ''Register'') p = Some Register"
    and "gateway_call_of ext (method_hash ext ''AddStake'') p = Some AddStake"
    and "gateway_call_of ext (method_hash ext ''ReleaseStake'') (AmountParams v) = Some (ReleaseStake v)"
    and "gateway_call_of ext (method_hash ext ''Kill'') p = Some Kill"
    and "gateway_call_of ext (method_hash ext ''CommitChildCheckpoint'') (CheckpointParams ch) =
      Some (CommitChildCheckpoint ch)"
  using assms unfolding distinct_methods_def by (auto simp: gateway_call_of_def)

section \<open>Agreement of the two actors\<close>

text \<open>What the gateway should hold on the subnet, read off the state of the subnet actor.\<close>

definition last_committed :: "('a, 'c) subnet_actor_state \<Rightarrow> ('a, 'c) bottom_up_checkpoint option" where
  "last_committed st = committed_checkpoints st (last_voting_executed_epoch (bottomup_checkpoint_voting st))"

definition expected_view :: "('a, 'c) subnet_actor_state \<Rightarrow> ('a, 'c) subnet_view option" where
  "expected_view st =
     (case actor_status st of
        Instantiated \<Rightarrow> None
      | Active \<Rightarrow> Some (total_stake st, Gateway_State.Active, last_committed st)
      | Inactive \<Rightarrow> Some (total_stake st, Gateway_State.Inactive, last_committed st)
      | Terminating \<Rightarrow> None
      | Killed \<Rightarrow> None)"

text \<open>Before registration the stakes are still with the subnet actor.\<close>

definition unregistered_stake :: "('a, 'c) subnet_actor_state \<Rightarrow> token_amount" where
  "unregistered_stake st = (if actor_status st = Instantiated then total_stake st else 0)"

definition dust :: "('a, 'c) system \<Rightarrow> token_amount" where
  "dust w = wbalance w - unregistered_stake (wstate w)"

definition sub_key :: "'a site \<Rightarrow> ('a, 'c) system \<Rightarrow> 'a subnet_id" where
  "sub_key site w = new_from_parent (network_name (gw_st (wrest w))) (sa_addr site)"

definition agree :: "'a site \<Rightarrow> ('a, 'c) system \<Rightarrow> bool" where
  "agree site w \<longleftrightarrow>
     view (gw_st (wrest w)) (sub_key site w) = expected_view (wstate w) \<and>
     (actor_status (wstate w) = Instantiated \<longrightarrow> last_committed (wstate w) = None) \<and>
     (actor_status (wstate w) = Killed \<longrightarrow> total_stake (wstate w) = 0)"

definition sys_inv :: "('a, 'c) externs \<Rightarrow> 'a site \<Rightarrow> ('a, 'c) system \<Rightarrow> bool" where
  "sys_inv ext site w \<longleftrightarrow>
     subnet_inv ext (wstate w) \<and> gateway_inv ext (gw_st (wrest w)) \<and>
     ipc_gateway_addr (wstate w) = gw_addr site \<and>
     min_stake (gw_st (wrest w)) = MIN_COLLATERAL_AMOUNT \<and> agree site w"

lemma sys_invD:
  assumes "sys_inv ext site w"
  shows "subnet_inv ext (wstate w)" and "gateway_inv ext (gw_st (wrest w))"
    and "ipc_gateway_addr (wstate w) = gw_addr site"
    and "min_stake (gw_st (wrest w)) = MIN_COLLATERAL_AMOUNT"
    and "view (gw_st (wrest w)) (sub_key site w) = expected_view (wstate w)"
    and "actor_status (wstate w) = Instantiated \<Longrightarrow> last_committed (wstate w) = None"
    and "actor_status (wstate w) = Killed \<Longrightarrow> total_stake (wstate w) = 0"
  using assms by (simp_all add: sys_inv_def agree_def)

text \<open>A change of the gateway that leaves the view of the subnet and the net alone.\<close>

lemma sys_inv_gateway_step:
  assumes inv: "sys_inv ext site w" and st: "wstate w' = wstate w"
    and g: "gateway_inv ext (gw_st (wrest w'))" and net: "same_net (gw_st (wrest w)) (gw_st (wrest w'))"
    and v: "view (gw_st (wrest w')) (sub_key site w) = view (gw_st (wrest w)) (sub_key site w)"
  shows "sys_inv ext site w'"
proof -
  have k: "sub_key site w' = sub_key site w" using net by (simp add: sub_key_def same_net_def)
  show ?thesis
    using inv g net v unfolding sys_inv_def agree_def k st by (simp add: same_net_def)
qed

text \<open>A message of anyone else to the gateway.\<close>

lemma other_call_inv:
  assumes inv: "sys_inv ext site w" and other: "caller env \<noteq> sa_addr site" and id: "caller_is_id env"
    and call: "gateway_invoke ext (gw_send ext site env) env call (credited env (to_gateway w)) = Inr g"
  shows "sys_inv ext site (to_subnet g)" and "dust w \<le> dust (to_subnet g)"
    and "wstate (to_subnet g) = wstate w"
proof -
  let ?g = "credited env (to_gateway w)"
  have gi: "gateway_inv ext (wstate ?g)" using sys_invD(2) [OF inv] by simp
  have "gateway_inv ext (wstate g)"
    by (rule gateway_invoke_inv [OF call id sender_pays_keeps [OF gw_send_pays] gi])
  moreover have o: "others_kept (own_id env (wstate ?g)) (wstate ?g) (wstate g)"
    by (rule gateway_invoke_others [OF call gi id gw_send_pays])
  moreover have ck: "child_kept (wrest ?g) (wrest g)" by (rule gateway_call_child [OF call])
  moreover have "sub_key site w \<noteq> own_id env (wstate ?g)"
    using other by (simp add: sub_key_def new_from_parent_def new_subnet_id_def)
  ultimately show "sys_inv ext site (to_subnet g)"
    by (intro sys_inv_gateway_step [OF inv]) (simp_all add: others_kept_def child_kept_def)
  show "dust w \<le> dust (to_subnet g)" "wstate (to_subnet g) = wstate w"
    using ck by (simp_all add: child_kept_def dust_def)
qed

section \<open>Messages of users\<close>

text \<open>The subnet actor after a transaction, with a request pending: it calls the gateway for its subnet.\<close>

definition own_env :: "'a site \<Rightarrow> 'a msg_env \<Rightarrow> token_amount \<Rightarrow> 'a msg_env" where
  "own_env site env v = nested_env (sa_addr site) (gw_addr site) v env"

definition own_world ::
    "'a site \<Rightarrow> 'a msg_env \<Rightarrow> token_amount \<Rightarrow> ('a, 'c) subnet_actor_state \<Rightarrow> ('a, 'c) system \<Rightarrow>
     ('a, 'c, ('a, 'c) child_side) gw_world" where
  "own_world site env v st w =
     credited (own_env site env v) (to_gateway (w\<lparr>wstate := st, wbalance := wbalance w - v\<rparr>))"

lemma own_env_simps [simp]:
  "caller (own_env site env v) = sa_addr site" "value_received (own_env site env v) = v"
  by (simp_all add: own_env_def)

lemma own_env_id:
  "resolve_address env (sa_addr site) = Some (sa_addr site) \<Longrightarrow> caller_is_id (own_env site env v)"
  by (simp add: own_env_def caller_is_id_def)

lemma own_call_facts:
  assumes inv: "sys_inv ext site w"
  shows "gateway_inv ext (wstate (own_world site env v st w))"
    and "own_id (own_env site env v) (wstate (own_world site env v st w)) = sub_key site w"
    and "view (wstate (own_world site env v st w)) (sub_key site w) = expected_view (wstate w)"
    and "min_stake (wstate (own_world site env v st w)) = MIN_COLLATERAL_AMOUNT"
    and "wrest (own_world site env v st w) = \<lparr>sub_st = st, sub_bal = wbalance w - v, child_log = pay_log (wrest w)\<rparr>"
    and "wstate (own_world site env v st w) = gw_st (wrest w)"
  using sys_invD [OF inv]
  by (simp_all add: own_world_def own_env_def sub_key_def to_gateway_def)

lemma own_call:
  assumes inv: "sys_inv ext site w" and r: "resolve_address env (sa_addr site) = Some (sa_addr site)"
    and s: "send_req_drop (sa_send ext site env) (cross_actor_payload (gw_addr site) m p v) (w\<lparr>wstate := st\<rparr>) = Inr w'"
    and c: "gateway_call_of ext m p = Some call"
  shows "\<exists>g. w' = to_subnet g \<and> gateway_inv ext (wstate g) \<and> 0 \<le> v \<and> v \<le> wbalance w \<and>
    gateway_invoke ext (gw_send ext site env) (own_env site env v) call (own_world site env v st w) = Inr g"
proof -
  from s obtain b where "sa_send ext site env (cross_actor_payload (gw_addr site) m p v) (w\<lparr>wstate := st\<rparr>) = Inr (b, w')"
    by (auto simp: send_req_drop_Inr)
  from this c obtain g where "0 \<le> v" "v \<le> wbalance w" "w' = to_subnet g"
    and g: "gateway_invoke ext (gw_send ext site env) (own_env site env v) call (own_world site env v st w) = Inr g"
    by (rule sa_send_gateway) (simp add: own_world_def own_env_def)
  moreover have "gateway_inv ext (wstate g)"
    using gateway_invoke_inv [OF g own_env_id [OF r] sender_pays_keeps [OF gw_send_pays]]
      own_call_facts(1) [OF inv] by blast
  ultimately show ?thesis by blast
qed

text \<open>After such a call the invariant is restored when the new state matches what the gateway now holds.\<close>

lemma sys_inv_own_step:
  assumes inv: "sys_inv ext site w" and s: "subnet_inv ext (wstate w')"
    and gw: "ipc_gateway_addr (wstate w') = gw_addr site"
    and g: "gateway_inv ext (gw_st (wrest w'))" and net: "same_net (gw_st (wrest w)) (gw_st (wrest w'))"
    and v: "view (gw_st (wrest w')) (sub_key site w) = expected_view (wstate w')"
    and "actor_status (wstate w') = Instantiated \<Longrightarrow> last_committed (wstate w') = None"
    and "actor_status (wstate w') = Killed \<Longrightarrow> total_stake (wstate w') = 0"
  shows "sys_inv ext site w'"
proof -
  have "sub_key site w' = sub_key site w" using net by (simp add: sub_key_def same_net_def)
  with assms show ?thesis by (simp add: sys_inv_def agree_def same_net_def)
qed

lemma chain_part_last_committed:
  "chain_part st' = chain_part st \<Longrightarrow>
     last_committed st' = last_committed st \<and> ipc_gateway_addr st' = ipc_gateway_addr st"
  by (simp add: chain_part_def last_committed_def)

lemma join_state_facts:
  assumes j: "join_state ext env n st = Inr (m, st')"
  shows "last_committed st' = last_committed st" and "ipc_gateway_addr st' = ipc_gateway_addr st"
    and "total_stake st' = total_stake st + value_received env"
    and "actor_status st' = (case actor_status st of
        Instantiated \<Rightarrow> if MIN_COLLATERAL_AMOUNT \<le> total_stake st' then Active else Instantiated
      | Active \<Rightarrow> if total_stake st' < MIN_COLLATERAL_AMOUNT then Inactive else Active
      | Inactive \<Rightarrow> if MIN_COLLATERAL_AMOUNT \<le> total_stake st' then Active else Inactive
      | Terminating \<Rightarrow> if total_stake st' = 0 then Killed else Terminating
      | Killed \<Rightarrow> Killed)"
    and "m = (if actor_status st = Instantiated
          then if MIN_COLLATERAL_AMOUNT \<le> total_stake st'
               then Some (cross_actor_payload (ipc_gateway_addr st) (method_hash ext ''Register'')
                      NoBlock (total_stake st'))
               else None
          else Some (cross_actor_payload (ipc_gateway_addr st) (method_hash ext ''AddStake'')
                 NoBlock (value_received env)))"
proof -
  from j obtain st1 where a: "add_validator_stake (caller env) n (value_received env) st = Inr st1"
    and st': "st' = mutate_state st1"
    and m: "m = (if actor_status st = Instantiated
          then if MIN_COLLATERAL_AMOUNT \<le> total_stake st1
               then Some (cross_actor_payload (ipc_gateway_addr st) (method_hash ext ''Register'')
                      NoBlock (total_stake st1))
               else None
          else Some (cross_actor_payload (ipc_gateway_addr st) (method_hash ext ''AddStake'')
                 NoBlock (value_received env)))" by (rule join_state_Inr)
  have "chain_part st' = chain_part st" by (simp add: st' chain_part_stakes(3) chain_part_stakes(1) [OF a])
  from chain_part_last_committed [OF this]
  show "last_committed st' = last_committed st" "ipc_gateway_addr st' = ipc_gateway_addr st" by simp_all
  show "total_stake st' = total_stake st + value_received env"
    using a by (auto simp: st' elim: add_validator_stake_Inr)
  show "actor_status st' = (case actor_status st of
        Instantiated \<Rightarrow> if MIN_COLLATERAL_AMOUNT \<le> total_stake st' then Active else Instantiated
      | Active \<Rightarrow> if total_stake st' < MIN_COLLATERAL_AMOUNT then Inactive else Active
      | Inactive \<Rightarrow> if MIN_COLLATERAL_AMOUNT \<le> total_stake st' then Active else Inactive
      | Terminating \<Rightarrow> if total_stake st' = 0 then Killed else Terminating
      | Killed \<Rightarrow> Killed)"
    unfolding st' actor_status_mutate add_validator_stake_status [OF a] by simp
  show "m = (if actor_status st = Instantiated
          then if MIN_COLLATERAL_AMOUNT \<le> total_stake st'
               then Some (cross_actor_payload (ipc_gateway_addr st) (method_hash ext ''Register'')
                      NoBlock (total_stake st'))
               else None
          else Some (cross_actor_payload (ipc_gateway_addr st) (method_hash ext ''AddStake'')
                 NoBlock (value_received env)))" by (simp add: m st')
qed

text \<open>A join that registers the subnet, and one that adds to its collateral.\<close>

lemma join_registers:
  assumes inv: "sys_inv ext site w" and d: "distinct_methods ext" and nonneg: "0 \<le> value_received env"
    and r: "resolve_address env (sa_addr site) = Some (sa_addr site)"
    and js: "join_state ext env n (wstate w) = Inr (m, st)"
    and send: "send_opt (sa_send ext site env) (Some (cross_actor_payload (gw_addr site) (method_hash ext ''Register'') NoBlock (total_stake st)))
      (w\<lparr>wstate := st\<rparr>) = Inr w'"
    and init: "actor_status (wstate w) = Instantiated" "MIN_COLLATERAL_AMOUNT \<le> total_stake st"
  shows "sys_inv ext site w' \<and> dust w - value_received env \<le> dust w'"
proof -
  note f = join_state_facts [OF js] and I = sys_invD [OF inv]
  have si: "subnet_inv ext st" by (rule join_state_inv [OF I(1) nonneg js])
  let ?v = "value_received env" and ?s = "wstate w" and ?k = "sub_key site w"
  let ?t = "total_stake st"
  from send have "send_req_drop (sa_send ext site env)
      (cross_actor_payload (gw_addr site) (method_hash ext ''Register'') NoBlock ?t) (w\<lparr>wstate := st\<rparr>) = Inr w'"
    by (simp add: send_opt_def)
  from own_call [OF inv r this gateway_call_of_simps(1) [OF d]] obtain g shid where w': "w' = to_subnet g"
    and gi: "gateway_inv ext (wstate g)"
    and call: "register (own_env site env ?t) (own_world site env ?t st w) = Inr (shid, g)" by auto
  note o = own_call_facts [OF inv, of env ?t st]
  note rv = register_view [OF call own_env_id [OF r], unfolded o(2)]
  have st: "actor_status st = Active" using f(4) init by simp
  have rest: "wstate w' = st" "wbalance w' = wbalance w - ?t" using rv(6) o(5) by (simp_all add: w')
  have g: "gw_st (wrest w') = wstate g" by (simp add: w')
  have "view (wstate g) ?k = expected_view st"
    using rv(3) f(1) I(6) [OF init(1)] st by (simp add: expected_view_def)
  then have "sys_inv ext site w'"
    using rv(4) gi si f I st unfolding o(6) by (intro sys_inv_own_step [OF inv]) (simp_all add: rest g)
  then show ?thesis using f(3) st init(1) by (simp add: dust_def unregistered_stake_def rest)
qed

lemma join_adds_stake:
  assumes inv: "sys_inv ext site w" and d: "distinct_methods ext" and nonneg: "0 \<le> value_received env"
    and r: "resolve_address env (sa_addr site) = Some (sa_addr site)"
    and js: "join_state ext env n (wstate w) = Inr (m, st)"
    and send: "send_opt (sa_send ext site env) (Some (cross_actor_payload (gw_addr site) (method_hash ext ''AddStake'') NoBlock (value_received env)))
      (w\<lparr>wstate := st\<rparr>) = Inr w'"
  shows "sys_inv ext site w' \<and> dust w - value_received env \<le> dust w'"
proof -
  note f = join_state_facts [OF js] and I = sys_invD [OF inv]
  have si: "subnet_inv ext st" by (rule join_state_inv [OF I(1) nonneg js])
  let ?v = "value_received env" and ?s = "wstate w" and ?k = "sub_key site w"
  from send have "send_req_drop (sa_send ext site env)
      (cross_actor_payload (gw_addr site) (method_hash ext ''AddStake'') NoBlock ?v) (w\<lparr>wstate := st\<rparr>) = Inr w'"
    by (simp add: send_opt_def)
  from own_call [OF inv r this gateway_call_of_simps(2) [OF d]] obtain g u where w': "w' = to_subnet g"
    and gi: "gateway_inv ext (wstate g)"
    and call: "add_stake (own_env site env ?v) (own_world site env ?v st w) = Inr (u, g)" by auto
  note o = own_call_facts [OF inv, of env ?v st]
  note av = add_stake_view [OF call own_env_id [OF r] o(1), unfolded o(2),
      unfolded o(3) status_for_def o(4), unfolded o(5,6) own_env_simps]
  from av obtain s b p where view: "expected_view ?s = Some (s, b, p)"
    and view': "view (wstate g) ?k = Some (s + ?v, if s + ?v < MIN_COLLATERAL_AMOUNT then Gateway_State.Inactive else Gateway_State.Active, p)"
    and net: "same_net (gw_st (wrest w)) (wstate g)"
    and rest0: "wrest g = \<lparr>sub_st = st, sub_bal = wbalance w - ?v, child_log = pay_log (wrest w)\<rparr>"
    by auto
  have rest: "wstate w' = st" "wbalance w' = wbalance w - ?v" using rest0 by (simp_all add: w')
  have g: "gw_st (wrest w') = wstate g" by (simp add: w')
  have s: "s = total_stake ?s" "p = last_committed ?s" "actor_status ?s = Active \<or> actor_status ?s = Inactive"
    using view by (simp_all add: expected_view_def split: subnet_status.splits)
  then have st: "actor_status st = (if total_stake st < MIN_COLLATERAL_AMOUNT then Inactive else Active)"
    using f(4) by auto
  have "view (wstate g) ?k = expected_view st"
    using view' s(1,2) f(1,3) st by (simp add: expected_view_def)
  then have "sys_inv ext site w'"
    using net gi si f I st by (intro sys_inv_own_step [OF inv]) (simp_all add: rest g split: if_splits)
  then show ?thesis using st s(3) by (auto simp: dust_def unregistered_stake_def rest)
qed

lemma join_sys:
  assumes inv: "sys_inv ext site w" and d: "distinct_methods ext" and nonneg: "0 \<le> value_received env"
    and r: "resolve_address env (sa_addr site) = Some (sa_addr site)"
    and j: "join ext (sa_send ext site env) env n w = Inr w'"
  shows "sys_inv ext site w' \<and> dust w - value_received env \<le> dust w'"
proof -
  from j obtain m st where js: "join_state ext env n (wstate w) = Inr (m, st)"
    and send: "send_opt (sa_send ext site env) m (w\<lparr>wstate := st\<rparr>) = Inr w'" by (rule join_Inr)
  note f = join_state_facts [OF js] and I = sys_invD [OF inv]
  have si: "subnet_inv ext st" by (rule join_state_inv [OF I(1) nonneg js])
  let ?v = "value_received env" and ?s = "wstate w" and ?k = "sub_key site w"
  consider (wait) "actor_status ?s = Instantiated" "m = None" "total_stake st < MIN_COLLATERAL_AMOUNT"
    | (reg) "actor_status ?s = Instantiated" "MIN_COLLATERAL_AMOUNT \<le> total_stake st"
        "m = Some (cross_actor_payload (gw_addr site) (method_hash ext ''Register'') NoBlock (total_stake st))"
    | (add) "actor_status ?s \<noteq> Instantiated"
        "m = Some (cross_actor_payload (gw_addr site) (method_hash ext ''AddStake'') NoBlock ?v)"
    using f(5) I(3) by (fastforce split: if_splits)
  then show ?thesis
  proof cases
    case wait
    then have w': "w' = w\<lparr>wstate := st\<rparr>" using send by (simp add: send_opt_def)
    have st: "actor_status st = Instantiated" using f(4) wait by simp
    have "sys_inv ext site w'"
      by (rule sys_inv_own_step [OF inv]) (use si f I st wait in \<open>simp_all add: w' expected_view_def\<close>)
    then show ?thesis using f(3) st wait by (simp add: w' dust_def unregistered_stake_def)
  next
    case reg
    show ?thesis by (rule join_registers [OF inv d nonneg r js send [unfolded reg(3)] reg(1,2)])
  next
    case add
    show ?thesis by (rule join_adds_stake [OF inv d nonneg r js send [unfolded add(2)]])
  qed
qed

lemma leave_state_facts:
  assumes l: "leave_state ext env st = Inr ((v, m), st')" and s: "status_ok st"
  shows "last_committed st' = last_committed st" and "ipc_gateway_addr st' = ipc_gateway_addr st"
    and "total_stake st' = total_stake st - v" and "v \<noteq> 0" and "stakes st (caller env) = Some v"
    and "actor_status st' = (case actor_status st of
        Instantiated \<Rightarrow> if MIN_COLLATERAL_AMOUNT \<le> total_stake st' then Active else Instantiated
      | Active \<Rightarrow> if total_stake st' < MIN_COLLATERAL_AMOUNT then Inactive else Active
      | Inactive \<Rightarrow> if MIN_COLLATERAL_AMOUNT \<le> total_stake st' then Active else Inactive
      | Terminating \<Rightarrow> if total_stake st' = 0 then Killed else Terminating
      | Killed \<Rightarrow> Killed)"
    and "m = Some (cross_actor_payload (ipc_gateway_addr st) (method_hash ext ''ReleaseStake'') (AmountParams v) 0)"
proof -
  from l obtain st1 where own: "stakes st (caller env) = Some v" and v: "v \<noteq> 0"
    and r: "rm_stake (caller env) v st = Inr (v, st1)" and st': "st' = mutate_state st1"
    and m: "m = (if actor_status st \<noteq> Terminating
          then Some (cross_actor_payload (ipc_gateway_addr st) (method_hash ext ''ReleaseStake'')
                 (AmountParams v) 0)
          else None)" by (rule leave_state_Inr)
  have "chain_part st' = chain_part st" by (simp add: st' chain_part_stakes(3) chain_part_stakes(2) [OF r])
  from chain_part_last_committed [OF this]
  show "last_committed st' = last_committed st" "ipc_gateway_addr st' = ipc_gateway_addr st" by simp_all
  show "total_stake st' = total_stake st - v" using r by (auto simp: st' elim: rm_stake_Inr)
  show "v \<noteq> 0" "stakes st (caller env) = Some v" by (rule v own)+
  show "actor_status st' = (case actor_status st of
        Instantiated \<Rightarrow> if MIN_COLLATERAL_AMOUNT \<le> total_stake st' then Active else Instantiated
      | Active \<Rightarrow> if total_stake st' < MIN_COLLATERAL_AMOUNT then Inactive else Active
      | Inactive \<Rightarrow> if MIN_COLLATERAL_AMOUNT \<le> total_stake st' then Active else Inactive
      | Terminating \<Rightarrow> if total_stake st' = 0 then Killed else Terminating
      | Killed \<Rightarrow> Killed)"
    unfolding st' actor_status_mutate rm_stake_status [OF r] by simp
  show "m = Some (cross_actor_payload (ipc_gateway_addr st) (method_hash ext ''ReleaseStake'') (AmountParams v) 0)"
    using m not_terminating [OF s] by simp
qed

text \<open>Leaving works only while the subnet is registered, and moves exactly the stake through to the caller.\<close>

lemma leave_sys:
  assumes inv: "sys_inv ext site w" and d: "distinct_methods ext" and user: "caller env \<noteq> gw_addr site"
    and r: "resolve_address env (sa_addr site) = Some (sa_addr site)"
    and l: "leave ext (sa_send ext site env) env w = Inr w'"
  shows "sys_inv ext site w' \<and> wbalance w' = wbalance w \<and>
    (actor_status (wstate w) = Active \<or> actor_status (wstate w) = Inactive) \<and>
    (actor_status (wstate w') = Active \<or> actor_status (wstate w') = Inactive) \<and>
    (\<exists>v. stakes (wstate w) (caller env) = Some v \<and> 0 < v \<and>
       total_stake (wstate w') = total_stake (wstate w) - v \<and>
       gw_bal (wrest w') = gw_bal (wrest w) - v \<and>
       pay_log (wrest w') = pay_log (wrest w) @ [(caller env, v)])"
proof -
  note I = sys_invD [OF inv]
  have so: "status_ok (wstate w)" using I(1) by (simp add: subnet_inv_def)
  from l obtain v p st w1 where ls: "leave_state ext env (wstate w) = Inr ((v, Some p), st)"
    and s1: "send_req_drop (sa_send ext site env) p (w\<lparr>wstate := st\<rparr>) = Inr w1"
    and s2: "send_req_drop (sa_send ext site env) (cross_actor_payload (caller env) METHOD_SEND NoBlock v) w1 = Inr w'"
    by (cases rule: leave_Inr) (auto dest: leave_state_facts(7) [OF _ so])
  note f = leave_state_facts [OF ls so] and si = leave_state_inv [OF I(1) ls]
  let ?s = "wstate w" and ?k = "sub_key site w"
  from s1 f(7) I(3) have "send_req_drop (sa_send ext site env)
      (cross_actor_payload (gw_addr site) (method_hash ext ''ReleaseStake'') (AmountParams v) 0) (w\<lparr>wstate := st\<rparr>) = Inr w1"
    by simp
  from own_call [OF inv r this gateway_call_of_simps(3) [OF d]] obtain g u where w1: "w1 = to_subnet g"
    and gi: "gateway_inv ext (wstate g)"
    and call: "release_stake (gw_send ext site env) (own_env site env 0) v (own_world site env 0 st w) = Inr (u, g)"
    by auto
  note o = own_call_facts [OF inv, of env 0 st]
  note rv = release_stake_view [OF call own_env_id [OF r] o(1) gw_send_pays, unfolded o(2),
      unfolded o(3) status_for_def o(4), unfolded o(6) own_env_simps]
  from rv obtain t b p st1 where view: "expected_view ?s = Some (t, b, p)" and v: "0 < v"
    and view': "view (wstate g) ?k = Some (t - v, if t - v < MIN_COLLATERAL_AMOUNT then Gateway_State.Inactive else Gateway_State.Active, p)"
    and net: "same_net (gw_st (wrest w)) (wstate g)"
    and ret: "send_value (gw_send ext site env) (sa_addr site) METHOD_SEND v ((own_world site env 0 st w)\<lparr>wstate := st1\<rparr>) = Inr g"
    by auto
  have rest1: "wrest g = \<lparr>sub_st = st, sub_bal = wbalance w + v, child_log = pay_log (wrest w)\<rparr>"
    using pay_back [OF ret] o(5) by simp
  have bal1: "wbalance g = gw_bal (wrest w) - v"
    using send_value_pays(2) [OF ret gw_send_pays] by (simp add: own_world_def)
  from s2 obtain b' where "sa_send ext site env (cross_actor_payload (caller env) METHOD_SEND NoBlock v) w1 = Inr (b', w')"
    by (auto simp: send_req_drop_Inr)
  note u = sa_send_user [OF this user]
  have rest: "wstate w' = st" "wbalance w' = wbalance w" "gw_st (wrest w') = wstate g"
    "gw_bal (wrest w') = gw_bal (wrest w) - v" "pay_log (wrest w') = pay_log (wrest w) @ [(caller env, v)]"
    using u rest1 bal1 by (simp_all add: w1 to_subnet_def)
  have s: "t = total_stake ?s" "p = last_committed ?s" "actor_status ?s = Active \<or> actor_status ?s = Inactive"
    using view by (simp_all add: expected_view_def split: subnet_status.splits)
  then have st: "actor_status st = (if total_stake st < MIN_COLLATERAL_AMOUNT then Inactive else Active)"
    using f(6) by auto
  have "view (wstate g) ?k = expected_view st"
    using view' s(1,2) f(1,3) st by (simp add: expected_view_def)
  then have "sys_inv ext site w'"
    using net gi si f I st by (intro sys_inv_own_step [OF inv]) (simp_all add: rest split: if_splits)
  then show ?thesis using st s(3) f v by (simp add: rest)
qed

lemma kill_sys:
  assumes inv: "sys_inv ext site w" and d: "distinct_methods ext"
    and r: "resolve_address env (sa_addr site) = Some (sa_addr site)"
    and k: "kill_subnet ext (sa_send ext site env) env w = Inr w'"
  shows "sys_inv ext site w' \<and> wbalance w = 0 \<and> wbalance w' = 0 \<and> actor_status (wstate w) = Inactive \<and>
    actor_status (wstate w') = Killed \<and> view (gw_st (wrest w')) (sub_key site w) = None"
proof -
  note I = sys_invD [OF inv]
  from k obtain m st where bal: "wbalance w = 0" and ks: "kill_state ext (wstate w) = Inr (m, st)"
    and send: "send_opt (sa_send ext site env) m (w\<lparr>wstate := st\<rparr>) = Inr w'" by (rule kill_subnet_Inr)
  note f = kill_state_Inr [OF ks] and si = kill_state_inv [OF I(1) ks]
  let ?s = "wstate w" and ?k = "sub_key site w"
  from send f(5) I(3) have "send_req_drop (sa_send ext site env)
      (cross_actor_payload (gw_addr site) (method_hash ext ''Kill'') NoBlock 0) (w\<lparr>wstate := st\<rparr>) = Inr w'"
    by (simp add: send_opt_def)
  from own_call [OF inv r this gateway_call_of_simps(4) [OF d]] obtain g u where w': "w' = to_subnet g"
    and gi: "gateway_inv ext (wstate g)"
    and call: "kill (gw_send ext site env) (own_env site env 0) (own_world site env 0 st w) = Inr (u, g)"
    by auto
  note o = own_call_facts [OF inv, of env 0 st]
  note kv = kill_view [OF call own_env_id [OF r] gw_send_pays, unfolded o(2), unfolded o(3), unfolded o(6) own_env_simps]
  from kv obtain t b p st1 where view: "expected_view ?s = Some (t, b, p)"
    and view': "view (wstate g) ?k = None" and net: "same_net (gw_st (wrest w)) (wstate g)"
    and ret: "send_value (gw_send ext site env) (sa_addr site) METHOD_SEND t ((own_world site env 0 st w)\<lparr>wstate := st1\<rparr>) = Inr g"
    by auto
  have status: "actor_status ?s = Inactive"
    using view I(1) f(2) by (auto simp: expected_view_def subnet_inv_def status_ok_def MIN_COLLATERAL_AMOUNT_def
        split: subnet_status.splits)
  with view f(2) have t: "t = 0" by (simp add: expected_view_def)
  have "wrest g = \<lparr>sub_st = st, sub_bal = 0, child_log = pay_log (wrest w)\<rparr>"
    using pay_back [OF ret] o(5) by (simp add: t bal)
  then have rest: "wstate w' = st" "wbalance w' = 0" "gw_st (wrest w') = wstate g" by (simp_all add: w')
  have "sys_inv ext site w'"
    using net gi si f I view' by (intro sys_inv_own_step [OF inv]) (simp_all add: rest expected_view_def)
  then show ?thesis using bal status view' f(4) by (simp add: rest)
qed

section \<open>Checkpoints in the system\<close>

lemma submit_checkpoint_state_commits:
  assumes "submit_checkpoint_state ext env ch st = Inr (m, st')"
  shows "(m = None \<and> last_committed st' = last_committed st) \<or>
    (\<exists>c. m = Some (cross_actor_payload (ipc_gateway_addr st) (method_hash ext ''CommitChildCheckpoint'')
        (CheckpointParams c) 0) \<and> last_committed st' = Some c \<and>
        prev_check (check_content c) = previous_executed_checkpoint_cid st)"
proof -
  from assms obtain c vt st1 where v: "submit_vote (checkpoint_key ext) ch (check_epoch (check_content ch)) (caller env)
       (stake_or_zero (caller env) st) (total_stake st) (bottomup_checkpoint_voting st) = Inr (c, vt)"
    and st1: "st1 = st\<lparr>bottomup_checkpoint_voting := vt\<rparr>"
    and "case c of Some d \<Rightarrow> commit_checkpoint ext d st1 = Inr (m, st')
       | None \<Rightarrow> (case get_next_executable_vote vt of
            Inr (Some d) \<Rightarrow> commit_checkpoint ext d st1 = Inr (m, st')
          | Inr None \<Rightarrow> m = None \<and> st' = st1 | Inl _ \<Rightarrow> False)"
    by (rule submit_checkpoint_state_Inr)
  then have "(\<exists>d. commit_checkpoint ext d st1 = Inr (m, st')) \<or> (m = None \<and> st' = st1)"
    by (auto split: option.splits sum.splits)
  moreover have "last_committed st1 = last_committed st"
    by (simp add: last_committed_def st1 submit_vote_frame [OF v])
  moreover have "(m = None \<and> last_committed st' = last_committed st1) \<or>
    (\<exists>c. m = Some (cross_actor_payload (ipc_gateway_addr st) (method_hash ext ''CommitChildCheckpoint'')
        (CheckpointParams c) 0) \<and> last_committed st' = Some c \<and>
        prev_check (check_content c) = previous_executed_checkpoint_cid st)"
    if "commit_checkpoint ext d st1 = Inr (m, st')" for d
    using that
  proof (cases rule: commit_checkpoint_Inr)
    case skipped
    then show ?thesis by (simp add: last_committed_def)
  next
    case (committed vt')
    then show ?thesis
      using mark_epoch_executed_Inr(2) [OF committed(2)] by (simp add: last_committed_def flush_committed_def st1)
  qed
  ultimately show ?thesis by auto
qed

lemma submit_checkpoint_sys:
  assumes inv: "sys_inv ext site w" and d: "distinct_methods ext"
    and r: "resolve_address env (sa_addr site) = Some (sa_addr site)"
    and s: "submit_checkpoint ext (sa_send ext site env) env ch0 w = Inr w'"
  shows "sys_inv ext site w' \<and> dust w \<le> dust w'"
proof -
  note I = sys_invD [OF inv]
  from s obtain ch m st where ver: "verify_checkpoint env ch (wstate w) = Inr ()"
    and ss: "submit_checkpoint_state ext env ch (wstate w) = Inr (m, st)"
    and send: "send_opt (sa_send ext site env) m (w\<lparr>wstate := st\<rparr>) = Inr w'"
    by (rule submit_checkpoint_Inr)
  note si = submit_checkpoint_state_inv [OF I(1) ss]
  let ?s = "wstate w" and ?k = "sub_key site w"
  have act: "actor_status ?s = Active" using ver by (simp add: verify_checkpoint_def split: if_splits)
  have st: "actor_status st = Active" "total_stake st = total_stake ?s" "ipc_gateway_addr st = gw_addr site"
    using si(2) act I(3) by (simp_all add: same_stakes_def)
  from submit_checkpoint_state_commits [OF ss] show ?thesis
  proof (elim disjE exE conjE)
    assume m: "m = None" and l: "last_committed st = last_committed ?s"
    have w': "w' = w\<lparr>wstate := st\<rparr>" using send by (simp add: m send_opt_def)
    have "sys_inv ext site w'"
      by (rule sys_inv_own_step [OF inv]) (use si(1) I st l act in \<open>simp_all add: w' expected_view_def\<close>)
    then show ?thesis using st act by (simp add: w' dust_def unregistered_stake_def)
  next
    fix c
    assume m: "m = Some (cross_actor_payload (ipc_gateway_addr ?s) (method_hash ext ''CommitChildCheckpoint'')
        (CheckpointParams c) 0)" and l: "last_committed st = Some c"
    from send m I(3) have "send_req_drop (sa_send ext site env)
      (cross_actor_payload (gw_addr site) (method_hash ext ''CommitChildCheckpoint'') (CheckpointParams c) 0) (w\<lparr>wstate := st\<rparr>) = Inr w'"
      by (simp add: send_opt_def)
    from own_call [OF inv r this gateway_call_of_simps(5) [OF d]] obtain g u where w': "w' = to_subnet g"
      and gi: "gateway_inv ext (wstate g)"
      and inv': "gateway_invoke ext (gw_send ext site env) (own_env site env 0) (CommitChildCheckpoint c) (own_world site env 0 st w) = Inr g"
      and call: "commit_child_check ext (gw_send ext site env) (own_env site env 0) c (own_world site env 0 st w) = Inr (u, g)"
      by auto
    note o = own_call_facts [OF inv, of env 0 st]
    note cv = commit_child_check_view [OF call own_env_id [OF r] o(1) gw_send_pays, unfolded o(2), unfolded o(3),
        unfolded o(6) own_env_simps]
    from cv obtain t p where view: "expected_view ?s = Some (t, Gateway_State.Active, p)"
      and view': "view (wstate g) ?k = Some (t, Gateway_State.Active, Some c)"
      and net: "same_net (gw_st (wrest w)) (wstate g)"
      by auto
    have ck: "sub_st (wrest g) = st" "wbalance w \<le> sub_bal (wrest g)"
      using gateway_call_child [OF inv'] o(5) by (simp_all add: child_kept_def)
    have rest: "wstate w' = st" "gw_st (wrest w') = wstate g" "wbalance w \<le> wbalance w'"
      using ck by (simp_all add: w')
    have "t = total_stake ?s" using view act by (simp add: expected_view_def)
    then have "view (wstate g) ?k = expected_view st" using view' st l by (simp add: expected_view_def)
    then have "sys_inv ext site w'"
      using net gi si(1) I st by (intro sys_inv_own_step [OF inv]) (simp_all add: rest)
    then show ?thesis using st act rest by (simp add: dust_def unregistered_stake_def)
  qed
qed

end
