(* ===== verification/Subnet_Props.thy ===== *)
theory Subnet_Props
  imports Subnet_System Gateway_Collateral
begin

text \<open>
  The properties of the subnet actor: of the actor alone, in front of any sender that keeps its
  invariant, and of the actor together with its gateway.
\<close>

section \<open>Every message keeps the system invariant\<close>

lemma user_call_inv:
  assumes inv: "sys_inv ext site w" and d: "distinct_methods ext" and nonneg: "0 \<le> value_received env"
    and user: "caller env \<noteq> gw_addr site" and r: "resolve_address env (sa_addr site) = Some (sa_addr site)"
    and call: "subnet_invoke ext (sa_send ext site env) env c w = Inr w'"
  shows "sys_inv ext site w' \<and> dust w - value_received env \<le> dust w'"
proof (cases c)
  case (Join n)
  with call join_sys [OF inv d nonneg r] show ?thesis by simp
next
  case Leave
  with call leave_sys [OF inv d user r] nonneg show ?thesis by (auto simp: dust_def unregistered_stake_def)
next
  case KillSubnet
  with call kill_sys [OF inv d r] nonneg show ?thesis by (auto simp: dust_def unregistered_stake_def)
next
  case (SubmitCheckpoint ch)
  with call submit_checkpoint_sys [OF inv d r] nonneg show ?thesis by force
next
  case (SetValidatorNetAddr n)
  with call obtain vs where u: "update_net_addr (caller env) n (validators (validator_set (wstate w))) = Some vs"
    and w': "w' = w\<lparr>wstate := (wstate w)\<lparr>validator_set := (validator_set (wstate w))\<lparr>validators := vs\<rparr>\<rparr>\<rparr>"
    by (auto elim: set_validator_net_addr_Inr)
  have e: "expected_view ((wstate w)\<lparr>validator_set := vs'\<rparr>) = expected_view (wstate w)" for vs'
    by (simp add: expected_view_def last_committed_def split: subnet_status.split)
  have "sys_inv ext site w'"
    using sys_invD [OF inv] set_net_addr_inv [OF sys_invD(1) [OF inv] u]
    by (intro sys_inv_own_step [OF inv]) (simp_all add: w' e, simp add: last_committed_def)
  then show ?thesis using nonneg by (simp add: w' dust_def unregistered_stake_def)
next
  case Reward
  with call user sys_invD(3) [OF inv] show ?thesis by (auto elim: reward_Inr)
qed

lemma system_step_inv:
  assumes "system_step ext site w e w'" and d: "distinct_methods ext" and inv: "sys_inv ext site w"
  shows "sys_inv ext site w' \<and> dust w \<le> dust w'"
  using assms(1)
proof cases
  case (to_subnet_actor env call)
  have "sys_inv ext site (credited env w)" "dust (credited env w) = dust w + value_received env"
    using inv by (simp_all add: sys_inv_def agree_def sub_key_def dust_def)
  with user_call_inv [OF _ d to_subnet_actor(2,3,4,5)] show ?thesis by fastforce
next
  case (to_gateway_actor env call g)
  then show ?thesis using other_call_inv [OF inv to_gateway_actor(4,5,6)] by simp
qed

lemma system_run_inv:
  assumes "run (system_step ext site) w evs w'" and d: "distinct_methods ext" and inv: "sys_inv ext site w"
  shows "sys_inv ext site w' \<and> dust w \<le> dust w'"
  using run_invariant [OF assms(1), where P = "\<lambda>u. sys_inv ext site u \<and> dust w \<le> dust u"] inv
    system_step_inv [OF _ d] by fastforce

text \<open>A freshly constructed subnet actor under a gateway that does not know it yet.\<close>

definition fresh_system :: "('a, 'c) externs \<Rightarrow> 'a site \<Rightarrow> ('a, 'c) system \<Rightarrow> bool" where
  "fresh_system ext site w \<longleftrightarrow>
     (\<exists>(env :: 'a msg_env) params. subnet_constructor ext env params = Inr (wstate w) \<and> gateway_addr params = gw_addr site) \<and>
     gateway_inv ext (gw_st (wrest w)) \<and> min_stake (gw_st (wrest w)) = MIN_COLLATERAL_AMOUNT \<and>
     subnets (gw_st (wrest w)) (sub_key site w) = None \<and> 0 \<le> wbalance w"

lemma fresh_system_inv:
  fixes site :: "'a site"
  assumes "fresh_system ext site w"
  shows "sys_inv ext site w" and "0 \<le> dust w"
proof -
  obtain env :: "'a msg_env" and params where "new_subnet_actor ext env params 0 = wstate w"
    and g: "gateway_addr params = gw_addr site"
    using assms by (auto simp: fresh_system_def subnet_constructor_def)
  note st = this(1) [symmetric]
  have "actor_status (wstate w) = Instantiated" "last_committed (wstate w) = None"
    "ipc_gateway_addr (wstate w) = gw_addr site" "total_stake (wstate w) = 0"
    by (simp_all add: st new_subnet_actor_def Let_def last_committed_def g)
  then show "sys_inv ext site w" "0 \<le> dust w"
    using assms new_subnet_actor_inv [of ext env params 0]
    by (simp_all add: sys_inv_def agree_def fresh_system_def expected_view_def view_def dust_def
        unregistered_stake_def st)
qed

section \<open>A sample system\<close>

definition sample_hash :: "string \<Rightarrow> u64" where
  "sample_hash s =
     (if s = ''Register'' then 2 else if s = ''AddStake'' then 3 else if s = ''ReleaseStake'' then 4
      else if s = ''Kill'' then 5 else if s = ''CommitChildCheckpoint'' then 6 else 7)"

definition subnet_ext :: "(nat, nat) externs" where
  "subnet_ext = sample_ext\<lparr>method_hash := sample_hash\<rparr>"

definition sample_site :: "nat site" where
  "sample_site = \<lparr>gw_addr = 64, sa_addr = 7\<rparr>"

definition sample_params :: "nat construct_params" where
  "sample_params = \<lparr>parent_net = \<lparr>root = 1, children = []\<rparr>, subnet_name = ''s'', gateway_addr = 64,
     consensus_kind = Mir, min_stake_param = 0, min_validators_param = 1, bottomup_period_param = 10,
     topdown_period_param = 10, genesis_param = []\<rparr>"

definition user_env :: "nat \<Rightarrow> token_amount \<Rightarrow> nat msg_env" where
  "user_env a v = \<lparr>caller = a, receiver = 7, value_received = v, curr_epoch = 25, caller_signable = True,
     resolve_address = Some\<rparr>"

definition sample_system :: "(nat, nat) system" where
  "sample_system = \<lparr>wstate = new_subnet_actor subnet_ext (sample_env 1 0 False) sample_params 0, wbalance = 0,
     wrest = \<lparr>gw_st = sample_gateway\<lparr>min_stake := MIN_COLLATERAL_AMOUNT\<rparr>, gw_bal = 0, pay_log = []\<rparr>\<rparr>"

lemma distinct_subnet_ext: "distinct_methods subnet_ext"
  by (simp add: distinct_methods_def subnet_ext_def sample_hash_def)

lemma sample_system_fresh: "fresh_system subnet_ext sample_site sample_system"
proof -
  have "subnet_constructor subnet_ext (sample_env 1 0 False) sample_params = Inr (wstate sample_system)"
    by (simp add: subnet_constructor_def validate_caller_is_def sample_env_def subnet_ext_def sample_ext_def
        sample_system_def)
  then have "\<exists>(env :: nat msg_env) params. subnet_constructor subnet_ext env params = Inr (wstate sample_system) \<and>
      gateway_addr params = gw_addr sample_site"
    by (intro exI conjI) (assumption, simp add: sample_params_def sample_site_def)
  moreover have "gateway_inv subnet_ext (gw_st (wrest sample_system))"
    by (simp add: sample_system_def sample_gateway_def gateway_inv_def subnets_ok_def checks_ok_def postbox_ok_def
        well_keyed_def MIN_COLLATERAL_AMOUNT_def)
  ultimately show ?thesis
    by (simp add: fresh_system_def) (simp add: sample_system_def sample_gateway_def)
qed

text \<open>Unfolds a handler of the subnet actor in the sample system down to a state.\<close>

lemmas subnet_eval = join_def join_state_def leave_def leave_state_def kill_subnet_def kill_state_def
  send_opt_def send_req_drop_def cross_actor_payload_def add_validator_stake_def stake_or_zero_def get_stake_def
  is_validator_def push_def update_weight_def rm_def bump_configuration_def u64_incr_def mutate_state_def
  rm_stake_def LEAVING_COEFF_def div_floor_def sa_send_def gateway_call_of_def credited_def to_gateway_def
  to_subnet_def nested_env_def transaction_def validate_caller_signable_def MIN_COLLATERAL_AMOUNT_def

lemmas submit_eval = submit_checkpoint_def submit_checkpoint_state_def verify_checkpoint_def
  is_next_executable_epoch_def enforce_f0_source_def bottom_up_key_def check_cid_def check_data_form_def
  commit_checkpoint_def ensure_checkpoint_chained_def mark_epoch_executed_def remove_epoch_from_queue_def
  flush_committed_def voting_eval get_next_executable_vote_def set_first_def set_round_def

lemmas sample_system_defs = sample_system_def subnet_ext_def sample_hash_def sample_site_def sample_params_def
  user_env_def sample_defs new_subnet_actor_def DEFAULT_CHECKPOINT_PERIOD_def empty_validator_set_def

lemma sample_join:
  "\<exists>w'. run (system_step subnet_ext sample_site) sample_system
     [(user_env 33 (3 * 10 ^ 18), ToSubnet (Join ''n''))] w' \<and>
     actor_status (wstate w') = Active \<and> total_stake (wstate w') = 3 * 10 ^ 18"
proof -
  have "\<exists>w'. subnet_invoke subnet_ext (sa_send subnet_ext sample_site (user_env 33 (3 * 10 ^ 18))) (user_env 33 (3 * 10 ^ 18))
     (Join ''n'') (credited (user_env 33 (3 * 10 ^ 18)) sample_system) = Inr w' \<and>
     actor_status (wstate w') = Active \<and> total_stake (wstate w') = 3 * 10 ^ 18"
    by (simp add: subnet_eval sample_system_defs f0_id_def new_subnet_id_def register_def get_subnet_def
        new_from_parent_def register_subnet_def fresh_subnet_def set_subnet_def Let_def)
  then show ?thesis
    by (auto intro!: run_cons run_nil to_subnet_actor simp: user_env_def sample_site_def)
qed

text \<open>Messages of users one after the other.\<close>

definition user_step ::
    "('a, 'c) externs \<Rightarrow> 'a site \<Rightarrow> 'a msg_env \<times> ('a, 'c) subnet_call \<Rightarrow> ('a, 'c) system \<Rightarrow> ('a, 'c) system res" where
  "user_step ext site e w = subnet_invoke ext (sa_send ext site (fst e)) (fst e) (snd e) (credited (fst e) w)"

lemma user_steps_run:
  assumes "fold_res (user_step ext site) es w = Inr w'"
    and "\<forall>e \<in> set es. 0 \<le> value_received (fst e) \<and> caller (fst e) \<noteq> gw_addr site \<and>
      resolve_address (fst e) (sa_addr site) = Some (sa_addr site)"
  shows "run (system_step ext site) w (map (\<lambda>(env, c). (env, ToSubnet c)) es) w'"
  using assms
proof (induction es arbitrary: w)
  case Nil
  then show ?case by (simp add: run_nil)
next
  case (Cons e es)
  from Cons.prems(1) obtain w1 where w1: "user_step ext site e w = Inr w1" "fold_res (user_step ext site) es w1 = Inr w'"
    by auto
  have "system_step ext site w (fst e, ToSubnet (snd e)) w1"
    using Cons.prems(2) w1(1) by (intro to_subnet_actor) (simp_all add: user_step_def)
  with Cons.IH [OF w1(2)] Cons.prems(2) show ?case
    by (auto intro: run_cons simp: case_prod_beta)
qed

definition sample_bottomup :: "chain_epoch \<Rightarrow> nat \<Rightarrow> (nat, nat) bottom_up_checkpoint" where
  "sample_bottomup e prev =
     \<lparr>check_content = \<lparr>check_source = \<lparr>root = 1, children = [7]\<rparr>, check_proof = [], check_epoch = e,
        prev_check = prev, check_children = [], check_batch = default_batch\<rparr>, check_sig = []\<rparr>"

section \<open>The actor and its gateway\<close>

text \<open>
  C5: a subnet actor and the gateway it registers with never drift apart. After any messages of users to
  the actor and of anyone else to the gateway, the gateway knows the subnet exactly from its
  registration until it is killed, holds the same collateral, the same last checkpoint and the same
  status, and before registration the actor still holds all the stakes itself.
\<close>

theorem actor_and_gateway_agree:
  assumes "fresh_system ext site w" and "distinct_methods ext" and "run (system_step ext site) w evs w'"
  shows "case subnets (gw_st (wrest w')) (new_from_parent (network_name (gw_st (wrest w'))) (sa_addr site)) of
      None \<Rightarrow> actor_status (wstate w') \<in> {Instantiated, Killed} \<and> unregistered_stake (wstate w') \<le> wbalance w'
    | Some sub \<Rightarrow>
        stake sub = total_stake (wstate w') \<and> prev_checkpoint sub = last_committed (wstate w') \<and>
        (sub_status sub, actor_status (wstate w'))
          \<in> {(Gateway_State.Active, Active), (Gateway_State.Inactive, Inactive)}"
proof -
  from system_run_inv [OF assms(3,2) fresh_system_inv(1) [OF assms(1)]] fresh_system_inv(2) [OF assms(1)]
  have inv: "sys_inv ext site w'" and d: "0 \<le> dust w'" by auto
  from sys_invD(1,5) [OF inv] d show ?thesis
    by (auto simp: view_def sub_key_def expected_view_def dust_def subnet_inv_def status_ok_def
        split: option.splits subnet_status.splits)
qed

theorem actor_and_gateway_agree_witness:
  "\<exists>w' :: (nat, nat) system. total_stake (wstate w') = 3 * 10 ^ 18 \<and> actor_status (wstate w') = Active \<and>
     (case subnets (gw_st (wrest w')) (new_from_parent (network_name (gw_st (wrest w'))) (sa_addr sample_site)) of
      None \<Rightarrow> actor_status (wstate w') \<in> {Instantiated, Killed} \<and> unregistered_stake (wstate w') \<le> wbalance w'
    | Some sub \<Rightarrow>
        stake sub = total_stake (wstate w') \<and> prev_checkpoint sub = last_committed (wstate w') \<and>
        (sub_status sub, actor_status (wstate w'))
          \<in> {(Gateway_State.Active, Active), (Gateway_State.Inactive, Inactive)})"
proof -
  from sample_join obtain w' where "run (system_step subnet_ext sample_site) sample_system
     [(user_env 33 (3 * 10 ^ 18), ToSubnet (Join ''n''))] w'" "actor_status (wstate w') = Active"
    "total_stake (wstate w') = 3 * 10 ^ 18" by blast
  with actor_and_gateway_agree [OF sample_system_fresh distinct_subnet_ext this(1)] show ?thesis by blast
qed


lemma sample_leave:
  "\<exists>w1 w2. run (system_step subnet_ext sample_site) sample_system
     [(user_env 33 (3 * 10 ^ 18), ToSubnet (Join ''n''))] w1 \<and>
     leave subnet_ext (sa_send subnet_ext sample_site (user_env 33 0)) (user_env 33 0) w1 = Inr w2"
proof -
  have "\<exists>w1. user_step subnet_ext sample_site (user_env 33 (3 * 10 ^ 18), Join ''n'') sample_system = Inr w1 \<and>
     (\<exists>w2. leave subnet_ext (sa_send subnet_ext sample_site (user_env 33 0)) (user_env 33 0) w1 = Inr w2)"
    by (simp add: user_step_def subnet_eval sample_system_defs f0_id_def new_subnet_id_def register_def get_subnet_def
        new_from_parent_def register_subnet_def fresh_subnet_def set_subnet_def Let_def release_stake_def
        add_stake_to_def flush_subnet_def send_value_def gw_send_def METHOD_SEND_def)
  then obtain w1 w2 where "user_step subnet_ext sample_site (user_env 33 (3 * 10 ^ 18), Join ''n'') sample_system = Inr w1"
    and w2: "leave subnet_ext (sa_send subnet_ext sample_site (user_env 33 0)) (user_env 33 0) w1 = Inr w2" by blast
  then have "fold_res (user_step subnet_ext sample_site) [(user_env 33 (3 * 10 ^ 18), Join ''n'')] sample_system = Inr w1"
    by simp
  from user_steps_run [OF this] have "run (system_step subnet_ext sample_site) sample_system
     [(user_env 33 (3 * 10 ^ 18), ToSubnet (Join ''n''))] w1"
    by (simp add: user_env_def sample_site_def)
  with w2 show ?thesis by blast
qed


text \<open>
  Before the subnet is registered nobody gets a stake back: \<open>Leave\<close> asks the gateway to release
  collateral that the gateway does not hold, so the message fails, whoever calls it.
\<close>

theorem leave_before_registration_fails:
  assumes "fresh_system ext site w" and "distinct_methods ext" and "run (system_step ext site) w evs w1"
    and "actor_status (wstate w1) = Instantiated"
    and "caller env \<noteq> gw_addr site" and "resolve_address env (sa_addr site) = Some (sa_addr site)"
  shows "\<exists>e. leave ext (sa_send ext site env) env w1 = Inl e"
proof (cases "leave ext (sa_send ext site env) env w1")
  case (Inr w2)
  from system_run_inv [OF assms(3,2) fresh_system_inv(1) [OF assms(1)]]
  have "sys_inv ext site w1" by simp
  from leave_sys [OF this assms(2,5,6) Inr] assms(4) show ?thesis by simp
qed simp

lemma sample_small_join:
  "\<exists>w1. run (system_step subnet_ext sample_site) sample_system
     [(user_env 33 (10 ^ 17), ToSubnet (Join ''n''))] w1 \<and>
     actor_status (wstate w1) = Instantiated \<and> stakes (wstate w1) 33 = Some (10 ^ 17)"
proof -
  have "\<exists>w1. fold_res (user_step subnet_ext sample_site) [(user_env 33 (10 ^ 17), Join ''n'')] sample_system = Inr w1 \<and>
      actor_status (wstate w1) = Instantiated \<and> stakes (wstate w1) 33 = Some (10 ^ 17)"
    by (simp add: user_step_def subnet_eval sample_system_defs Let_def)
  then obtain w1 where f: "fold_res (user_step subnet_ext sample_site) [(user_env 33 (10 ^ 17), Join ''n'')] sample_system = Inr w1"
    and w1: "actor_status (wstate w1) = Instantiated" "stakes (wstate w1) 33 = Some (10 ^ 17)" by blast
  from user_steps_run [OF f] w1 show ?thesis by (auto simp: user_env_def sample_site_def)
qed

theorem leave_before_registration_fails_witness:
  "\<exists>w1 e. stakes (wstate w1) 33 = Some (10 ^ 17) \<and>
     leave subnet_ext (sa_send subnet_ext sample_site (user_env 33 0)) (user_env 33 0) w1 = Inl e"
proof -
  from sample_small_join obtain w1 where r: "run (system_step subnet_ext sample_site) sample_system
     [(user_env 33 (10 ^ 17), ToSubnet (Join ''n''))] w1" and i: "actor_status (wstate w1) = Instantiated"
    and s: "stakes (wstate w1) 33 = Some (10 ^ 17)" by blast
  have "caller (user_env 33 0) \<noteq> gw_addr sample_site"
    "resolve_address (user_env 33 0) (sa_addr sample_site) = Some (sa_addr sample_site)"
    by (simp_all add: user_env_def sample_site_def)
  from leave_before_registration_fails [OF sample_system_fresh distinct_subnet_ext r i this] s show ?thesis by blast
qed

section \<open>Funds that stay behind\<close>

text \<open>
  C36: once the subnet actor holds a token beyond the stakes, as the remainder of a reward or the value
  attached to any message but a join leaves it, \<open>Kill\<close> fails for ever: no message of anyone takes
  that token out again, and killing requires an empty balance.
\<close>

theorem leftover_token_blocks_kill:
  assumes "fresh_system ext site w" and "distinct_methods ext" and "run (system_step ext site) w evs1 w1"
    and "unregistered_stake (wstate w1) < wbalance w1" and "run (system_step ext site) w1 evs2 w2"
    and "0 \<le> value_received env" and "caller_signable env"
  shows "kill_subnet ext (sa_send ext site env) env (credited env w2) = Inl (ActorError USR_ILLEGAL_STATE)"
proof -
  from system_run_inv [OF assms(3,2) fresh_system_inv(1) [OF assms(1)]]
  have inv1: "sys_inv ext site w1" by simp
  from system_run_inv [OF assms(5,2) inv1] have inv: "sys_inv ext site w2" and d: "dust w1 \<le> dust w2" by auto
  have "0 \<le> total_stake (wstate w2)"
    using sys_invD(1) [OF inv] by (auto simp: subnet_inv_def stake_inv_def stakes_ok_def table_sum_def
        intro!: sum_nonneg)
  then have "0 \<le> unregistered_stake (wstate w2)" by (simp add: unregistered_stake_def)
  with d assms(4,6) have "wbalance (credited env w2) \<noteq> 0" by (simp add: dust_def)
  with assms(7) show ?thesis by (simp add: kill_subnet_def validate_caller_signable_def)
qed

lemma sample_gift:
  "\<exists>w1. run (system_step subnet_ext sample_site) sample_system
     [(user_env 33 (3 * 10 ^ 18), ToSubnet (Join ''n'')), (user_env 33 1, ToSubnet (SetValidatorNetAddr ''m''))] w1 \<and>
     unregistered_stake (wstate w1) < wbalance w1"
proof -
  have "\<exists>w1. fold_res (user_step subnet_ext sample_site) [(user_env 33 (3 * 10 ^ 18), Join ''n''),
        (user_env 33 1, SetValidatorNetAddr ''m'')] sample_system = Inr w1 \<and>
      unregistered_stake (wstate w1) < wbalance w1"
    by (simp add: user_step_def subnet_eval sample_system_defs f0_id_def new_subnet_id_def register_def get_subnet_def
        new_from_parent_def register_subnet_def fresh_subnet_def set_subnet_def Let_def set_validator_net_addr_def
        unregistered_stake_def)
  then obtain w1 where f: "fold_res (user_step subnet_ext sample_site) [(user_env 33 (3 * 10 ^ 18), Join ''n''),
        (user_env 33 1, SetValidatorNetAddr ''m'')] sample_system = Inr w1"
    and w1: "unregistered_stake (wstate w1) < wbalance w1" by blast
  from user_steps_run [OF f] w1 show ?thesis by (auto simp: user_env_def sample_site_def)
qed

theorem leftover_token_blocks_kill_witness:
  "\<exists>w1. unregistered_stake (wstate w1) < wbalance w1 \<and>
     kill_subnet subnet_ext (sa_send subnet_ext sample_site (user_env 33 0)) (user_env 33 0)
       (credited (user_env 33 0) w1) = Inl (ActorError USR_ILLEGAL_STATE)"
proof -
  from sample_gift obtain w1 where r: "run (system_step subnet_ext sample_site) sample_system
     [(user_env 33 (3 * 10 ^ 18), ToSubnet (Join ''n'')), (user_env 33 1, ToSubnet (SetValidatorNetAddr ''m''))] w1"
    and u: "unregistered_stake (wstate w1) < wbalance w1" by blast
  have "0 \<le> value_received (user_env 33 0)" "caller_signable (user_env 33 0)" by (simp_all add: user_env_def)
  from leftover_token_blocks_kill [OF sample_system_fresh distinct_subnet_ext r u run_nil this] u show ?thesis by blast
qed

section \<open>The actor alone\<close>

text \<open>
  C14: in every state the subnet actor reaches, whatever the actors it sends to do as long as they call it
  back through its handlers only, the total is the sum of the stakes, the validators are exactly the
  members with the minimum stake, each once and weighted by its stake, and the subnet is active
  exactly when it was not killed and the total covers the minimum collateral.
\<close>

theorem stake_tables_consistent:
  assumes "subnet_constructor ext env0 params = Inr (wstate w)" and "run (subnet_step ext sender) w evs w'"
    and "sender_keeps (subnet_inv ext) sender"
  shows "total_stake (wstate w') = (\<Sum>a \<in> dom (stakes (wstate w')). stake_or_zero a (wstate w')) \<and>
     distinct (val_addrs (validator_set (wstate w'))) \<and>
     set (val_addrs (validator_set (wstate w'))) =
       {a. min_validator_stake (wstate w') \<le> stake_or_zero a (wstate w')} \<and>
     (\<forall>v \<in> set (validators (validator_set (wstate w'))). val_weight v = stake_or_zero (val_addr v) (wstate w')) \<and>
     (actor_status (wstate w') = Active \<longleftrightarrow>
        actor_status (wstate w') \<noteq> Killed \<and> MIN_COLLATERAL_AMOUNT \<le> total_stake (wstate w'))"
proof -
  have "subnet_inv ext (wstate w)"
    using assms(1) new_subnet_actor_inv [of ext env0 params 0] by (auto simp: subnet_constructor_def)
  from subnet_run_inv [OF assms(2,3) this] have i: "stake_inv (wstate w')" "status_ok (wstate w')"
    by (simp_all add: subnet_inv_def)
  have "(\<Sum>a \<in> dom (stakes (wstate w')). stake_or_zero a (wstate w')) = table_sum (\<lambda>s. s) (stakes (wstate w'))"
    unfolding table_sum_def by (rule sum.cong) (auto simp: stake_or_zero_def get_stake_def)
  moreover have "\<forall>v \<in> set (validators (validator_set (wstate w'))). val_weight v = stake_or_zero (val_addr v) (wstate w')"
    using i(1) by (simp add: stake_inv_def validators_ok_def stake_or_zero_def get_stake_def)
  ultimately show ?thesis
    using i by (auto simp: stake_inv_def stakes_ok_def validators_ok_def status_ok_def split: subnet_status.splits)
qed

text \<open>A sender that accepts everything, and the steps of the actor with it.\<close>

definition accept_send :: "('a, 'p, 's, 'x) sender" where
  "accept_send r w = Inr (None, w)"

lemma accept_send_keeps: "sender_keeps P accept_send"
  by (simp add: sender_keeps_def accept_send_def)

definition sample_actor :: "((nat, nat) subnet_actor_state, unit) world" where
  "sample_actor = \<lparr>wstate = new_subnet_actor subnet_ext (sample_env 1 0 False) sample_params 0, wbalance = 0, wrest = ()\<rparr>"

lemma sample_actor_constructed:
  "subnet_constructor subnet_ext (sample_env 1 0 False) sample_params = Inr (wstate sample_actor)"
  by (simp add: subnet_constructor_def validate_caller_is_def sample_env_def subnet_ext_def sample_ext_def
      sample_actor_def)

lemma subnet_fold_run:
  assumes "fold_res (\<lambda>e w. subnet_invoke ext sender (fst e) (snd e) (credited (fst e) w)) es w = Inr w'"
    and "\<forall>e \<in> set es. 0 \<le> value_received (fst e)"
  shows "run (subnet_step ext sender) w es w'"
  using assms
proof (induction es arbitrary: w)
  case Nil
  then show ?case by (simp add: run_nil)
next
  case (Cons e es)
  from Cons.prems(1) obtain w1 where w1: "subnet_invoke ext sender (fst e) (snd e) (credited (fst e) w) = Inr w1"
    "fold_res (\<lambda>e w. subnet_invoke ext sender (fst e) (snd e) (credited (fst e) w)) es w1 = Inr w'" by auto
  have "subnet_step ext sender w (fst e, snd e) w1" using Cons.prems(2) w1(1) by (intro subnet_message) simp_all
  with Cons.IH [OF w1(2)] Cons.prems(2) show ?case by (auto intro: run_cons)
qed

lemma sample_actor_run:
  "\<exists>w'. run (subnet_step subnet_ext accept_send) sample_actor
     [(user_env 33 (3 * 10 ^ 18), Join ''n''), (user_env 34 (10 ^ 17), Join ''m''),
      (user_env 33 0, SubmitCheckpoint (sample_bottomup 10 0))] w' \<and>
     total_stake (wstate w') = 31 * 10 ^ 17 \<and> committed_checkpoints (wstate w') 10 \<noteq> None"
proof -
  have "\<exists>w'. fold_res (\<lambda>e w. subnet_invoke subnet_ext accept_send (fst e) (snd e) (credited (fst e) w))
     [(user_env 33 (3 * 10 ^ 18), Join ''n''), (user_env 34 (10 ^ 17), Join ''m''),
      (user_env 33 0, SubmitCheckpoint (sample_bottomup 10 0))] sample_actor = Inr w' \<and>
     total_stake (wstate w') = 31 * 10 ^ 17 \<and> committed_checkpoints (wstate w') 10 \<noteq> None"
    by (simp add: subnet_eval submit_eval sample_system_defs sample_actor_def accept_send_def Let_def f0_id_def
        new_subnet_id_def new_from_parent_def sample_bottomup_def default_batch_def)
  then obtain w' where f: "fold_res (\<lambda>e w. subnet_invoke subnet_ext accept_send (fst e) (snd e) (credited (fst e) w))
     [(user_env 33 (3 * 10 ^ 18), Join ''n''), (user_env 34 (10 ^ 17), Join ''m''),
      (user_env 33 0, SubmitCheckpoint (sample_bottomup 10 0))] sample_actor = Inr w'"
    and w': "total_stake (wstate w') = 31 * 10 ^ 17" "committed_checkpoints (wstate w') 10 \<noteq> None" by blast
  from subnet_fold_run [OF f] w' show ?thesis by (auto simp: user_env_def)
qed

theorem stake_tables_consistent_witness:
  "\<exists>w' :: ((nat, nat) subnet_actor_state, unit) world. total_stake (wstate w') = 31 * 10 ^ 17 \<and>
     total_stake (wstate w') = (\<Sum>a \<in> dom (stakes (wstate w')). stake_or_zero a (wstate w')) \<and>
     set (val_addrs (validator_set (wstate w'))) =
       {a. min_validator_stake (wstate w') \<le> stake_or_zero a (wstate w')}"
proof -
  from sample_actor_run obtain w' where r: "run (subnet_step subnet_ext accept_send) sample_actor
     [(user_env 33 (3 * 10 ^ 18), Join ''n''), (user_env 34 (10 ^ 17), Join ''m''),
      (user_env 33 0, SubmitCheckpoint (sample_bottomup 10 0))] w'" and t: "total_stake (wstate w') = 31 * 10 ^ 17" by blast
  from stake_tables_consistent [OF sample_actor_constructed r accept_send_keeps] t show ?thesis
    by (intro exI [of _ w']) (simp add: MIN_COLLATERAL_AMOUNT_def)
qed

text \<open>
  C10: the committed checkpoints form one chain without gaps. There is one for every epoch of the grid up
  to the last executed one and none elsewhere, each is stored under its own epoch and names the cid of
  the checkpoint one period before (the genesis cid in front of the first one), and the next one has
  to name the last.
\<close>

theorem committed_checkpoints_chained:
  assumes "subnet_constructor ext env0 params = Inr (wstate w)" and "run (subnet_step ext sender) w evs w'"
    and "sender_keeps (subnet_inv ext) sender"
  defines "vt \<equiv> bottomup_checkpoint_voting (wstate w')" and "committed \<equiv> committed_checkpoints (wstate w')"
  shows "0 < submission_period vt \<and>
     dom committed = {e. genesis_epoch vt < e \<and> e \<le> last_voting_executed_epoch vt \<and>
       submission_period vt dvd e - genesis_epoch vt} \<and>
     (\<forall>e ch. committed e = Some ch \<longrightarrow> check_epoch (check_content ch) = e \<and>
        prev_check (check_content ch) =
          (case committed (e - submission_period vt) of
             Some prev \<Rightarrow> check_cid (check_hash ext) prev | None \<Rightarrow> genesis_cid ext)) \<and>
     previous_executed_checkpoint_cid (wstate w') =
       (case committed (last_voting_executed_epoch vt) of
          Some prev \<Rightarrow> check_cid (check_hash ext) prev | None \<Rightarrow> genesis_cid ext)"
proof -
  have "subnet_inv ext (wstate w)"
    using assms(1) new_subnet_actor_inv [of ext env0 params 0] by (auto simp: subnet_constructor_def)
  from subnet_run_inv [OF assms(2,3) this] have "chain_ok ext (wstate w')" by (simp add: subnet_inv_def)
  note c = chain_okD [OF this, folded vt_def committed_def, unfolded prev_cid_at_def, folded committed_def]
  have "dom committed = {e. genesis_epoch vt < e \<and> e \<le> last_voting_executed_epoch vt \<and>
      submission_period vt dvd e - genesis_epoch vt}"
    using c(4) by (auto simp: dom_def)
  with c(1,5,6) show ?thesis by blast
qed

theorem committed_checkpoints_chained_witness:
  "\<exists>w' :: ((nat, nat) subnet_actor_state, unit) world. committed_checkpoints (wstate w') 10 \<noteq> None \<and>
     dom (committed_checkpoints (wstate w')) =
       (let vt = bottomup_checkpoint_voting (wstate w')
        in {e. genesis_epoch vt < e \<and> e \<le> last_voting_executed_epoch vt \<and>
             submission_period vt dvd e - genesis_epoch vt})"
proof -
  from sample_actor_run obtain w' where r: "run (subnet_step subnet_ext accept_send) sample_actor
     [(user_env 33 (3 * 10 ^ 18), Join ''n''), (user_env 34 (10 ^ 17), Join ''m''),
      (user_env 33 0, SubmitCheckpoint (sample_bottomup 10 0))] w'"
    and t: "committed_checkpoints (wstate w') 10 \<noteq> None" by blast
  from committed_checkpoints_chained [OF sample_actor_constructed r accept_send_keeps] t show ?thesis
    unfolding Let_def by blast
qed

section \<open>One stake, several votes\<close>


section \<open>Rewards\<close>

text \<open>
  A reward of the gateway is split evenly: every validator is paid the same whole amount, in the order
  of the set, what does not divide stays with the actor, and nothing is accepted from anyone else.
\<close>

theorem reward_splits_evenly:
  assumes "reward pay_out env w = Inr w'"
  defines "vs \<equiv> validators (validator_set (wstate w))"
  shows "caller env = ipc_gateway_addr (wstate w) \<and> vs \<noteq> [] \<and> wstate w' = wstate w \<and>
     wrest w' = wrest w @ map (\<lambda>v. (val_addr v, value_received env div int (length vs))) vs \<and>
     wbalance w' = wbalance w - value_received env + value_received env mod int (length vs)"
proof -
  have loop: "wrest w2 = wrest w1 @ map (\<lambda>v. (val_addr v, a)) us"
    if "fold_res (\<lambda>v. send_req_drop pay_out (cross_actor_payload (val_addr v) METHOD_SEND NoBlock a)) us w1 = Inr w2"
    for us a w1 w2
    using that
    by (induction us arbitrary: w1) (auto simp: send_req_drop_def pay_out_def cross_actor_payload_def split: if_splits)
  from assms(1) show ?thesis
    using reward_pays [OF assms(1)] unfolding vs_def by (auto elim!: reward_Inr dest!: loop)
qed

theorem reward_splits_evenly_witness:
  "\<exists>w'. reward pay_out ((user_env 64 7)\<lparr>receiver := 7\<rparr>)
     \<lparr>wstate = (wstate sample_actor)\<lparr>validator_set := \<lparr>validators =
        [\<lparr>val_addr = 33, val_net_addr = ''n'', val_weight = 1\<rparr>, \<lparr>val_addr = 34, val_net_addr = ''m'', val_weight = 1\<rparr>],
        configuration_number = 2\<rparr>\<rparr>, wbalance = 7, wrest = []\<rparr> = Inr w' \<and>
     wrest w' = [(33, 3), (34, 3)] \<and> wbalance w' = 1"
proof -
  let ?w = "\<lparr>wstate = (wstate sample_actor)\<lparr>validator_set := \<lparr>validators =
        [\<lparr>val_addr = 33, val_net_addr = ''n'', val_weight = 1\<rparr>, \<lparr>val_addr = 34, val_net_addr = ''m'', val_weight = 1\<rparr>],
        configuration_number = 2\<rparr>\<rparr>, wbalance = 7, wrest = []\<rparr> :: ((nat, nat) subnet_actor_state, (nat \<times> token_amount) list) world"
  obtain w' where r: "reward pay_out ((user_env 64 7)\<lparr>receiver := 7\<rparr>) ?w = Inr w'"
    by (simp add: reward_def sample_actor_def sample_system_defs Let_def validate_caller_is_def pay_out_def
        send_req_drop_def cross_actor_payload_def div_floor_def)
  from reward_splits_evenly [OF r] r show ?thesis by (simp add: user_env_def) 
qed

end
