(* ===== verification/Atomic_Exec.thy ===== *)
theory Atomic_Exec
  imports Gateway
begin

text \<open>
  The coordinator of atomic executions (\<open>atomic-exec/src/{lib,state,types}.rs\<close>): a registry of
  pre-commitments per execution, and the handlers that collect them, send the commits once they are
  complete, and roll a participant back that revokes.
\<close>

section \<open>Types\<close>

type_synonym atomic_exec_id = raw_bytes

record 'a pre_commit_params =
  pc_actors :: "'a ipc_address list"
  pc_exec_id :: atomic_exec_id
  pc_commit :: u64

record 'a revoke_params =
  rv_actors :: "'a ipc_address list"
  rv_exec_id :: atomic_exec_id
  rv_rollback :: u64

text \<open>
  The functions of the linked crates: the hash, the CBOR forms of the parameters, the text form of an
  address, the all-zero BLS address, and the method numbers of FRC-42.
\<close>

record 'a coord_externs =
  blake2b256 :: "raw_bytes \<Rightarrow> raw_bytes"
  cbor_actors :: "'a ipc_address list \<Rightarrow> raw_bytes"
  ser_pre_commit :: "'a pre_commit_params \<Rightarrow> raw_bytes"
  de_pre_commit :: "raw_bytes \<Rightarrow> 'a pre_commit_params res"
  ser_revoke :: "'a revoke_params \<Rightarrow> raw_bytes"
  de_revoke :: "raw_bytes \<Rightarrow> 'a revoke_params res"
  show_address :: "'a \<Rightarrow> string"
  zero_bls :: 'a
  method_number :: "string \<Rightarrow> u64"
  init_actor :: 'a

section \<open>The state\<close>

type_synonym registry_key = raw_bytes

type_synonym registry_entry = "string \<rightharpoonup> u64"

record 'a coordinator =
  registry :: "registry_key \<rightharpoonup> registry_entry"
  coord_gateway :: 'a

definition new_coordinator :: "'a \<Rightarrow> 'a coordinator" where
  "new_coordinator gw = \<lparr>registry = Map.empty, coord_gateway = gw\<rparr>"

text \<open>The hash is fed the execution id and then the participants.\<close>

definition registry_key_of ::
    "('a, 'm) coord_externs_scheme \<Rightarrow> atomic_exec_id \<Rightarrow> 'a ipc_address list \<Rightarrow> registry_key" where
  "registry_key_of ext exec_id actors = blake2b256 ext (exec_id @ cbor_actors ext actors)"

definition modify_atomic_exec ::
    "('a, 'm) coord_externs_scheme \<Rightarrow> atomic_exec_id \<Rightarrow> 'a ipc_address list \<Rightarrow>
     (registry_entry \<Rightarrow> ('r \<times> registry_entry) res) \<Rightarrow> 'a coordinator \<Rightarrow> ('r \<times> 'a coordinator) res" where
  "modify_atomic_exec ext exec_id actors f st =
     (let k = registry_key_of ext exec_id actors;
          entry = (case registry st k of None \<Rightarrow> Map.empty | Some e \<Rightarrow> e)
      in and_then (f entry) (\<lambda>(r, entry').
         Inr (r, st\<lparr>registry := (registry st)(k \<mapsto> entry')\<rparr>)))"

definition rm_atomic_exec ::
    "('a, 'm) coord_externs_scheme \<Rightarrow> atomic_exec_id \<Rightarrow> 'a ipc_address list \<Rightarrow>
     'a coordinator \<Rightarrow> (unit \<times> 'a coordinator) res" where
  "rm_atomic_exec ext exec_id actors st =
     Inr ((), st\<lparr>registry := (registry st)(registry_key_of ext exec_id actors := None)\<rparr>)"

section \<open>Messages\<close>

definition IPC_ADDR_PLACEHOLDER :: "('a, 'm) coord_externs_scheme \<Rightarrow> 'a ipc_address" where
  "IPC_ADDR_PLACEHOLDER ext = new_ipc_address UNDEF (zero_bls ext)"

text \<open>The cross-net message all three senders of the protocol build, and its way to the gateway.\<close>

definition exec_msg ::
    "('a, 'm) coord_externs_scheme \<Rightarrow> 'a ipc_address \<Rightarrow> u64 \<Rightarrow> raw_bytes \<Rightarrow> 'a cross_msg" where
  "exec_msg ext to_addr m params =
     \<lparr>msg = \<lparr>msg_from = IPC_ADDR_PLACEHOLDER ext, msg_to = to_addr, msg_method = m,
             msg_params = params, msg_value = 0, msg_nonce = 0\<rparr>,
      wrapped = True\<rparr>"

definition send_cross_req ::
    "('a, 'm) coord_externs_scheme \<Rightarrow> 'a \<Rightarrow> 'a cross_msg \<Rightarrow> ('a, 'a cross_msg) send_req" where
  "send_cross_req ext gw cm =
     \<lparr>sr_to = gw, sr_method = method_number ext ''SendCross'', sr_params = cm, sr_value = 0\<rparr>"

definition send_cross_msg ::
    "('a, 'm) coord_externs_scheme \<Rightarrow> ('a, 'a cross_msg, 's, 'x) sender \<Rightarrow> 'a \<Rightarrow> 'a cross_msg \<Rightarrow>
     ('s, 'x) world \<Rightarrow> ('s, 'x) world res" where
  "send_cross_msg ext sender gw cm w = and_then (sender (send_cross_req ext gw cm) w) (\<lambda>(_, w'). Inr w')"

section \<open>The handlers\<close>

definition coord_constructor ::
    "('a, 'm) coord_externs_scheme \<Rightarrow> ('a, 'n) msg_env_scheme \<Rightarrow> 'a \<Rightarrow> 'a coordinator res" where
  "coord_constructor ext env gw =
     and_then (validate_caller_is (init_actor ext) env) (\<lambda>_. Inr (new_coordinator gw))"

text \<open>The check for missing pre-commitments, and the commits; indexing a missing entry panics.\<close>

definition all_committed ::
    "('a, 'm) coord_externs_scheme \<Rightarrow> 'a ipc_address list \<Rightarrow> registry_entry \<Rightarrow> bool" where
  "all_committed ext actors entry \<longleftrightarrow>
     list_all (\<lambda>a. entry (ipc_to_string (show_address ext) a) \<noteq> None) actors"

fun commit_msgs ::
    "('a, 'm) coord_externs_scheme \<Rightarrow> atomic_exec_id \<Rightarrow> registry_entry \<Rightarrow> 'a ipc_address list \<Rightarrow>
     'a cross_msg list res" where
  "commit_msgs ext exec_id entry [] = Inr []"
| "commit_msgs ext exec_id entry (a # as) =
     and_then (ok_or Panic (entry (ipc_to_string (show_address ext) a))) (\<lambda>m.
     and_then (commit_msgs ext exec_id entry as) (\<lambda>ms. Inr (exec_msg ext a m exec_id # ms)))"

definition record_commit ::
    "('a, 'm) coord_externs_scheme \<Rightarrow> 'a ipc_address \<Rightarrow> 'a pre_commit_params \<Rightarrow> registry_entry \<Rightarrow>
     ('a cross_msg list option \<times> registry_entry) res" where
  "record_commit ext from_addr params entry =
     (let entry' = entry(ipc_to_string (show_address ext) from_addr \<mapsto> pc_commit params)
      in if \<not> all_committed ext (pc_actors params) entry' then Inr (None, entry')
         else and_then (commit_msgs ext (pc_exec_id params) entry' (pc_actors params))
                (\<lambda>ms. Inr (Some ms, entry')))"

definition pre_commit ::
    "('a, 'm) coord_externs_scheme \<Rightarrow> ('a, 'a cross_msg, 'a coordinator, 'x) sender \<Rightarrow>
     ('a, 'n) msg_env_scheme \<Rightarrow> 'a cross_msg \<Rightarrow> ('a coordinator, 'x) world \<Rightarrow>
     (bool \<times> ('a coordinator, 'x) world) res" where
  "pre_commit ext sender env cm w =
     (let gw = coord_gateway (wstate w); from_addr = msg_from (msg cm)
      in and_then (validate_caller_is gw env) (\<lambda>_.
         and_then (de_pre_commit ext (msg_params (msg cm))) (\<lambda>params.
         if from_addr \<notin> set (pc_actors params) then Inl (ActorError USR_ILLEGAL_ARGUMENT)
         else
           and_then (transaction (\<lambda>st. map_err (downcast_default USR_ILLEGAL_STATE)
             (modify_atomic_exec ext (pc_exec_id params) (pc_actors params)
                (record_commit ext from_addr params) st)) w) (\<lambda>(msgs, w1).
           case msgs of
             None \<Rightarrow> Inr (False, w1)
           | Some ms \<Rightarrow>
               and_then (fold_res (send_cross_msg ext sender gw) ms w1) (\<lambda>w2.
               and_then (transaction (\<lambda>st. map_err (downcast_default USR_ILLEGAL_STATE)
                 (rm_atomic_exec ext (pc_exec_id params) (pc_actors params) st)) w2) (\<lambda>(_, w3).
               Inr (True, w3)))))))"

definition revoke ::
    "('a, 'm) coord_externs_scheme \<Rightarrow> ('a, 'a cross_msg, 'a coordinator, 'x) sender \<Rightarrow>
     ('a, 'n) msg_env_scheme \<Rightarrow> 'a cross_msg \<Rightarrow> ('a coordinator, 'x) world \<Rightarrow>
     (unit \<times> ('a coordinator, 'x) world) res" where
  "revoke ext sender env cm w =
     (let gw = coord_gateway (wstate w); from_addr = msg_from (msg cm)
      in and_then (validate_caller_is gw env) (\<lambda>_.
         and_then (de_revoke ext (msg_params (msg cm))) (\<lambda>params.
         if from_addr \<notin> set (rv_actors params) then Inl (ActorError USR_ILLEGAL_ARGUMENT)
         else
           and_then (transaction (\<lambda>st. map_err (downcast_default USR_ILLEGAL_STATE)
             (modify_atomic_exec ext (rv_exec_id params) (rv_actors params)
                (\<lambda>entry. Inr (Some (exec_msg ext from_addr (rv_rollback params) (rv_exec_id params)),
                              entry(ipc_to_string (show_address ext) from_addr := None))) st)) w) (\<lambda>(m, w1).
           case m of
             None \<Rightarrow> Inr ((), w1)
           | Some cm' \<Rightarrow> and_then (send_cross_msg ext sender gw cm' w1) (\<lambda>w2. Inr ((), w2))))))"

section \<open>Dispatch\<close>

datatype 'a coord_call =
    PreCommit "'a cross_msg"
  | Revoke "'a cross_msg"

text \<open>The result of a message: whether it completed an execution.\<close>

fun coord_invoke ::
    "('a, 'm) coord_externs_scheme \<Rightarrow> ('a, 'a cross_msg, 'a coordinator, 'x) sender \<Rightarrow>
     ('a, 'n) msg_env_scheme \<Rightarrow> 'a coord_call \<Rightarrow> ('a coordinator, 'x) world \<Rightarrow>
     (bool \<times> ('a coordinator, 'x) world) res" where
  "coord_invoke ext sender env (PreCommit cm) w = pre_commit ext sender env cm w"
| "coord_invoke ext sender env (Revoke cm) w =
     and_then (revoke ext sender env cm w) (\<lambda>(_, w'). Inr (False, w'))"

end
