(* ===== verification/Atomic_Primitives.thy ===== *)
theory Atomic_Primitives
  imports Atomic_Exec
begin

text \<open>
  The primitives of an executing actor (\<open>atomic-exec/primitives/src/lib.rs\<close>): pieces of state that can
  be locked, and the registry of the executions the actor takes part in. The blockstore is an argument,
  as the two operations of the encoding crate that get and put a value by its CID.
\<close>

section \<open>Lockable state\<close>

text \<open>The trait \<open>LockableState\<close> as a record of its methods.\<close>

record ('s, 'c) lockable =
  lock_state :: "'s \<Rightarrow> 's res"
  unlock_state :: "'s \<Rightarrow> 's res"
  is_locked :: "'s \<Rightarrow> bool"
  state_cid :: "'s \<Rightarrow> 'c"

datatype 't atomic_input_state = AtomicInputState (locked: bool) (content: 't)

definition new_input_state :: "'t \<Rightarrow> 't atomic_input_state" where
  "new_input_state s = AtomicInputState False s"

definition get_mut :: "'t atomic_input_state \<Rightarrow> 't res" where
  "get_mut a = (if locked a then Inl Anyhow else Inr (content a))"

text \<open>\<open>modify\<close> runs the closure on the content, which returns a result and the changed content.\<close>

definition modify :: "('t \<Rightarrow> ('r \<times> 't) res) \<Rightarrow> 't atomic_input_state \<Rightarrow> ('r \<times> 't atomic_input_state) res" where
  "modify f a = and_then (get_mut a) (\<lambda>s. and_then (f s) (\<lambda>(r, s'). Inr (r, AtomicInputState (locked a) s')))"

definition set_content :: "'t \<Rightarrow> 't atomic_input_state \<Rightarrow> 't atomic_input_state res" where
  "set_content s a = and_then (modify (\<lambda>_. Inr ((), s)) a) (\<lambda>(_, a'). Inr a')"

definition lock_input :: "'t atomic_input_state \<Rightarrow> 't atomic_input_state res" where
  "lock_input a = (if locked a then Inl Anyhow else Inr (AtomicInputState True (content a)))"

definition unlock_input :: "'t atomic_input_state \<Rightarrow> 't atomic_input_state res" where
  "unlock_input a = (if locked a then Inr (AtomicInputState False (content a)) else Inl Anyhow)"

definition input_lockable :: "('t atomic_input_state \<Rightarrow> 'c) \<Rightarrow> ('t atomic_input_state, 'c) lockable" where
  "input_lockable cid =
     \<lparr>lock_state = lock_input, unlock_state = unlock_input, is_locked = locked, state_cid = cid\<rparr>"

text \<open>\<open>bs.get_cbor\<close> and \<open>bs.put_cbor\<close> of values of one type; putting returns the CID and the store after it.\<close>

record ('bs, 't, 'c) cbor_store =
  get_cbor :: "'c \<Rightarrow> 'bs \<Rightarrow> 't option res"
  put_cbor :: "'t \<Rightarrow> 'bs \<Rightarrow> ('c \<times> 'bs) res"

definition load_input ::
    "('bs, 't atomic_input_state, 'c) cbor_store \<Rightarrow> 'c \<Rightarrow> 'bs \<Rightarrow> 't atomic_input_state option res" where
  "load_input S c bs = and_then (get_cbor S c bs) (\<lambda>r. Inr r)"

definition flush_input ::
    "('bs, 't atomic_input_state, 'c) cbor_store \<Rightarrow> 't atomic_input_state \<Rightarrow> 'bs \<Rightarrow> ('c \<times> 'bs) res" where
  "flush_input S a bs = and_then (put_cbor S a bs) (\<lambda>(c, bs'). Inr (c, bs'))"

text \<open>
  What the crates document: a value is put under its CID, the hash of its CBOR form, and is then got back.
  A piece of state is thus flushed under the CID that \<open>prepare_atomic_exec\<close> compares.
\<close>

definition stores_by_cid :: "('t \<Rightarrow> 'c) \<Rightarrow> ('bs, 't, 'c) cbor_store \<Rightarrow> bool" where
  "stores_by_cid cid S \<longleftrightarrow>
     (\<forall>a bs c bs'. put_cbor S a bs = Inr (c, bs') \<longrightarrow> c = cid a \<and> get_cbor S c bs' = Inr (Some a))"

lemma load_flushed_input:
  assumes "stores_by_cid cid S" and "flush_input S a bs = Inr (c, bs')"
  shows "c = state_cid (input_lockable cid) a" and "load_input S c bs' = Inr (Some a)"
  using assms by (auto simp: stores_by_cid_def flush_input_def load_input_def input_lockable_def)

text \<open>The derived order compares the flag and then the content.\<close>

instantiation atomic_input_state :: (linorder) linorder
begin

definition less_eq_atomic_input_state :: "'a atomic_input_state \<Rightarrow> 'a atomic_input_state \<Rightarrow> bool" where
  "less_eq_atomic_input_state a b \<longleftrightarrow>
     locked a < locked b \<or> (locked a = locked b \<and> content a \<le> content b)"

definition less_atomic_input_state :: "'a atomic_input_state \<Rightarrow> 'a atomic_input_state \<Rightarrow> bool" where
  "less_atomic_input_state a b \<longleftrightarrow>
     locked a < locked b \<or> (locked a = locked b \<and> content a < content b)"

instance
  by standard
    (auto simp: less_eq_atomic_input_state_def less_atomic_input_state_def atomic_input_state.expand)

end

section \<open>The registry\<close>

type_synonym atomic_input_id = raw_bytes

text \<open>The functions of the linked crates, beyond those of the coordinator.\<close>

record ('a, 'c) exec_externs = "'a coord_externs" +
  cbor_nonce :: "u64 \<Rightarrow> raw_bytes"
  cbor_cid :: "'c \<Rightarrow> raw_bytes"
  cbor_inputs :: "('a ipc_address \<times> atomic_input_id) list \<Rightarrow> raw_bytes"

record 'c atomic_input_entry =
  unlocked_state_cids :: "'c list"
  entry_input :: raw_bytes

record 'c exec_registry =
  exec_nonce :: u64
  input_ids :: "atomic_input_id \<rightharpoonup> 'c atomic_input_entry"
  exec_ids :: "atomic_exec_id \<rightharpoonup> raw_bytes"

definition new_exec_registry :: "'c exec_registry" where
  "new_exec_registry = \<lparr>exec_nonce = 0, input_ids = Map.empty, exec_ids = Map.empty\<rparr>"

definition load_registry ::
    "('bs, 'c exec_registry, 'c) cbor_store \<Rightarrow> 'c \<Rightarrow> 'bs \<Rightarrow> 'c exec_registry option res" where
  "load_registry S c bs = get_cbor S c bs"

definition flush_registry ::
    "('bs, 'c exec_registry, 'c) cbor_store \<Rightarrow> 'c exec_registry \<Rightarrow> 'bs \<Rightarrow> ('c \<times> 'bs) res" where
  "flush_registry S reg bs = and_then (put_cbor S reg bs) (\<lambda>(c, bs'). Inr (c, bs'))"

lemma load_flushed_registry:
  "stores_by_cid cid S \<Longrightarrow> flush_registry S reg bs = Inr (c, bs') \<Longrightarrow> load_registry S c bs' = Inr (Some reg)"
  by (auto simp: stores_by_cid_def flush_registry_def load_registry_def)

definition new_input_id ::
    "('a, 'c, 'm) exec_externs_scheme \<Rightarrow> 'c list \<Rightarrow> raw_bytes \<Rightarrow> 'c exec_registry \<Rightarrow>
     (atomic_input_id \<times> 'c exec_registry) res" where
  "new_input_id ext cids input reg =
     and_then (u64_incr (exec_nonce reg)) (\<lambda>n.
     Inr (blake2b256 ext (cbor_nonce ext (exec_nonce reg) @ concat (map (cbor_cid ext) cids) @ input),
          reg\<lparr>exec_nonce := n\<rparr>))"

definition compute_exec_id ::
    "('a, 'c, 'm) exec_externs_scheme \<Rightarrow> ('a ipc_address \<times> atomic_input_id) list \<Rightarrow> atomic_exec_id" where
  "compute_exec_id ext ids = blake2b256 ext (cbor_inputs ext ids)"

text \<open>The fold of \<open>init_atomic_exec\<close>: lock every piece of state, or take the CIDs of the unlocked ones.\<close>

fun lock_or_capture ::
    "('s, 'c) lockable \<Rightarrow> bool \<Rightarrow> 's list \<Rightarrow> 'c list \<Rightarrow> ('c list \<times> 's list) res" where
  "lock_or_capture L lk [] v = Inr (v, [])"
| "lock_or_capture L lk (s # ss) v =
     (if lk then
        and_then (lock_state L s) (\<lambda>s'.
        and_then (lock_or_capture L lk ss v) (\<lambda>(v', ss'). Inr (v', s' # ss')))
      else
        and_then (lock_or_capture L lk ss (if \<not> is_locked L s then v @ [state_cid L s] else v))
          (\<lambda>(v', ss'). Inr (v', s # ss')))"

text \<open>\<open>input\<close> is the serialized input, or the error of serializing it.\<close>

definition init_atomic_exec ::
    "('a, 'c, 'm) exec_externs_scheme \<Rightarrow> ('s, 'c) lockable \<Rightarrow> 's list \<Rightarrow> raw_bytes res \<Rightarrow> bool \<Rightarrow>
     'c exec_registry \<Rightarrow> ((atomic_input_id \<times> 's list) \<times> 'c exec_registry) res" where
  "init_atomic_exec ext L ss input lk reg =
     and_then (lock_or_capture L lk ss []) (\<lambda>(cids, ss').
     and_then input (\<lambda>inp.
     and_then (new_input_id ext cids inp reg) (\<lambda>(input_id, reg1).
     if input_ids reg1 input_id \<noteq> None then Inl Panic
     else Inr ((input_id, ss'),
               reg1\<lparr>input_ids := (input_ids reg1)(input_id \<mapsto>
                 \<lparr>unlocked_state_cids = cids, entry_input = inp\<rparr>)\<rparr>))))"

definition atomic_input ::
    "(raw_bytes \<Rightarrow> 'i res) \<Rightarrow> atomic_input_id \<Rightarrow> 'c exec_registry \<Rightarrow> 'i option res" where
  "atomic_input de input_id reg =
     (case input_ids reg input_id of
        None \<Rightarrow> Inr None
      | Some e \<Rightarrow> and_then (de (entry_input e)) (\<lambda>i. Inr (Some i)))"

text \<open>\<open>s.unlock().unwrap()\<close> over the pieces, of those that are locked or of all of them.\<close>

fun unlock_where :: "('s, 'c) lockable \<Rightarrow> ('s \<Rightarrow> bool) \<Rightarrow> 's list \<Rightarrow> 's list res" where
  "unlock_where L P [] = Inr []"
| "unlock_where L P (s # ss) =
     and_then (if P s then map_err (\<lambda>_. Panic) (unlock_state L s) else Inr s) (\<lambda>s'.
     and_then (unlock_where L P ss) (\<lambda>ss'. Inr (s' # ss')))"

definition cancel_atomic_exec ::
    "('s, 'c) lockable \<Rightarrow> atomic_input_id \<Rightarrow> 's list \<Rightarrow> 'c exec_registry \<Rightarrow> ('s list \<times> 'c exec_registry) res" where
  "cancel_atomic_exec L input_id ss reg =
     (case input_ids reg input_id of
        None \<Rightarrow> Inl Anyhow
      | Some _ \<Rightarrow>
          and_then (unlock_where L (is_locked L) ss) (\<lambda>ss'.
          Inr (ss', reg\<lparr>input_ids := (input_ids reg)(input_id := None)\<rparr>)))"

text \<open>
  The lazy comparison of \<open>prepare_atomic_exec\<close>: each unlocked piece is locked as its CID is taken,
  and the iteration stops at the first difference; the flag says whether there was none.
\<close>

fun lock_unchanged :: "('s, 'c) lockable \<Rightarrow> 's list \<Rightarrow> 'c list \<Rightarrow> (bool \<times> 's list) res" where
  "lock_unchanged L [] cids = Inr (cids = [], [])"
| "lock_unchanged L (s # ss) cids =
     (if is_locked L s
      then and_then (lock_unchanged L ss cids) (\<lambda>(b, ss'). Inr (b, s # ss'))
      else
        let cid = state_cid L s
        in and_then (map_err (\<lambda>_. Panic) (lock_state L s)) (\<lambda>s'.
           case cids of
             [] \<Rightarrow> Inr (False, s' # ss)
           | c # cs \<Rightarrow>
               if cid \<noteq> c then Inr (False, s' # ss)
               else and_then (lock_unchanged L ss cs) (\<lambda>(b, ss'). Inr (b, s' # ss'))))"

definition prepare_atomic_exec ::
    "('a, 'c, 'm) exec_externs_scheme \<Rightarrow> ('s, 'c) lockable \<Rightarrow> atomic_input_id \<Rightarrow>
     ('a ipc_address \<times> atomic_input_id) list \<Rightarrow> 's list \<Rightarrow> raw_bytes res \<Rightarrow> 'c exec_registry \<Rightarrow>
     ((atomic_exec_id \<times> 's list) \<times> 'c exec_registry) res" where
  "prepare_atomic_exec ext L own_id ids ss output reg =
     (case input_ids reg own_id of
        None \<Rightarrow> Inl Anyhow
      | Some e \<Rightarrow>
          and_then (lock_unchanged L ss (unlocked_state_cids e)) (\<lambda>(same, ss').
          if \<not> same then Inl Anyhow
          else
            let exec_id = compute_exec_id ext ids
            in and_then output (\<lambda>out.
               if exec_ids reg exec_id \<noteq> None then Inl Panic
               else Inr ((exec_id, ss'),
                         reg\<lparr>input_ids := (input_ids reg)(own_id := None),
                             exec_ids := (exec_ids reg)(exec_id \<mapsto> out)\<rparr>))))"

definition atomic_output ::
    "(raw_bytes \<Rightarrow> 'o res) \<Rightarrow> atomic_exec_id \<Rightarrow> 'c exec_registry \<Rightarrow> 'o option res" where
  "atomic_output de exec_id reg =
     (case exec_ids reg exec_id of
        None \<Rightarrow> Inr None
      | Some out \<Rightarrow> and_then (de out) (\<lambda>o'. Inr (Some o')))"

definition finish_atomic_exec ::
    "('s, 'c) lockable \<Rightarrow> atomic_exec_id \<Rightarrow> 's list \<Rightarrow> 'c exec_registry \<Rightarrow> ('s list \<times> 'c exec_registry) res" where
  "finish_atomic_exec L exec_id ss reg =
     (case exec_ids reg exec_id of
        None \<Rightarrow> Inl Anyhow
      | Some _ \<Rightarrow>
          and_then (unlock_where L (\<lambda>_. True) ss) (\<lambda>ss'.
          Inr (ss', reg\<lparr>exec_ids := (exec_ids reg)(exec_id := None)\<rparr>)))"

end
