(* ===== verification/Token.thy ===== *)
theory Token
  imports Atomic_Primitives "HOL-Library.AList"
begin

text \<open>
  The fungible token example (\<open>atomic-exec/examples/fungible-token/src/{state,lib}.rs\<close>): a ledger of
  lockable balances, transfers, and atomic transfers over the primitives and a coordinator. An actor
  id is a \<open>u64\<close>; its varint form, the key of the balance HAMT, determines it.
\<close>

section \<open>Types\<close>

type_synonym actor_id = u64

type_synonym account_state = "token_amount atomic_input_state"

record 'a atomic_transfer =
  xfer_coordinator :: "'a ipc_address"
  xfer_from :: actor_id
  xfer_to :: actor_id
  xfer_amount :: token_amount

text \<open>\<open>id_of\<close> is \<open>Address::id\<close>, \<open>parse_addr\<close> is \<open>Address::from_str\<close>, both of the address crate.\<close>

record ('a, 'c) token_externs = "('a, 'c) exec_externs" +
  ser_transfer :: "'a atomic_transfer \<Rightarrow> raw_bytes res"
  de_transfer :: "raw_bytes \<Rightarrow> 'a atomic_transfer res"
  account_cid :: "account_state \<Rightarrow> 'c"
  id_of :: "'a \<Rightarrow> actor_id option"
  parse_addr :: "string \<Rightarrow> 'a option"

record ('a, 'c) token_state =
  tok_gateway :: 'a
  tok_ipc_address :: "'a ipc_address"
  tok_name :: string
  tok_symbol :: string
  tok_total :: token_amount
  balances :: "actor_id \<rightharpoonup> account_state"
  atomic_registry :: "'c exec_registry"

abbreviation account_lockable :: "('a, 'c, 'm) token_externs_scheme \<Rightarrow> (account_state, 'c) lockable" where
  "account_lockable ext \<equiv> input_lockable (account_cid ext)"

section \<open>Construction\<close>

text \<open>The loop over the initial balances: the running total and the table, an error on a duplicate.\<close>

fun add_balances ::
    "(actor_id \<times> token_amount) list \<Rightarrow> token_amount \<times> (actor_id \<rightharpoonup> account_state) \<Rightarrow>
     (token_amount \<times> (actor_id \<rightharpoonup> account_state)) res" where
  "add_balances [] acc = Inr acc"
| "add_balances ((a, b) # bs) (tot, m) =
     (if m a \<noteq> None then Inl Anyhow
      else add_balances bs (tot + b, m(a \<mapsto> new_input_state b)))"

definition new_token ::
    "'a \<Rightarrow> 'a ipc_address \<Rightarrow> string \<Rightarrow> string \<Rightarrow> (actor_id \<times> token_amount) list \<Rightarrow> ('a, 'c) token_state res" where
  "new_token gw addr name symbol bs =
     and_then (add_balances bs (0, Map.empty)) (\<lambda>(tot, m).
     Inr \<lparr>tok_gateway = gw, tok_ipc_address = addr, tok_name = name, tok_symbol = symbol,
          tok_total = tot, balances = m, atomic_registry = new_exec_registry\<rparr>)"

section \<open>Accounts and transfers\<close>

definition account :: "(actor_id \<rightharpoonup> account_state) \<Rightarrow> actor_id \<Rightarrow> account_state" where
  "account m a = (case m a of Some s \<Rightarrow> s | None \<Rightarrow> new_input_state 0)"

definition balance_of :: "actor_id \<Rightarrow> ('a, 'c) token_state \<Rightarrow> token_amount" where
  "balance_of a st = (case balances st a of Some s \<Rightarrow> content s | None \<Rightarrow> 0)"

text \<open>Both accounts are read before either is written, and the recipient is written last.\<close>

definition do_transfer ::
    "actor_id \<Rightarrow> actor_id \<Rightarrow> token_amount \<Rightarrow> (actor_id \<rightharpoonup> account_state) \<Rightarrow>
     ((token_amount \<times> token_amount) \<times> (actor_id \<rightharpoonup> account_state)) res" where
  "do_transfer a b amount m =
     (let from_state = account m a; to_state = account m b
      in if content from_state < amount then Inl Anyhow
         else
           and_then (modify (\<lambda>x. Inr ((), x - amount)) from_state) (\<lambda>(_, from_state').
           and_then (modify (\<lambda>x. Inr ((), x + amount)) to_state) (\<lambda>(_, to_state').
           Inr ((content from_state', content to_state'),
                m(a \<mapsto> from_state', b \<mapsto> to_state')))))"

definition transfer ::
    "actor_id \<Rightarrow> actor_id \<Rightarrow> token_amount \<Rightarrow> ('a, 'c) token_state \<Rightarrow>
     ((token_amount \<times> token_amount) \<times> ('a, 'c) token_state) res" where
  "transfer a b amount st =
     and_then (do_transfer a b amount (balances st)) (\<lambda>(r, m). Inr (r, st\<lparr>balances := m\<rparr>))"

section \<open>Atomic transfers\<close>

text \<open>The iterator over the sender's state has one element.\<close>

definition init_atomic_transfer ::
    "('a, 'c, 'm) token_externs_scheme \<Rightarrow> 'a ipc_address \<Rightarrow> actor_id \<Rightarrow> actor_id \<Rightarrow> token_amount \<Rightarrow>
     ('a, 'c) token_state \<Rightarrow> (atomic_input_id \<times> ('a, 'c) token_state) res" where
  "init_atomic_transfer ext coordinator a b amount st =
     (let from_state = account (balances st) a
      in if content from_state < amount then Inl Anyhow
         else
           and_then (init_atomic_exec ext (account_lockable ext) [from_state]
             (ser_transfer ext \<lparr>xfer_coordinator = coordinator, xfer_from = a, xfer_to = b, xfer_amount = amount\<rparr>)
             True (atomic_registry st)) (\<lambda>((input_id, ss), reg).
           Inr (input_id, st\<lparr>balances := (balances st)(a \<mapsto> hd ss), atomic_registry := reg\<rparr>)))"

definition cancel_atomic_transfer ::
    "('a, 'c, 'm) token_externs_scheme \<Rightarrow> actor_id \<Rightarrow> atomic_input_id \<Rightarrow> ('a, 'c) token_state \<Rightarrow>
     (unit \<times> ('a, 'c) token_state) res" where
  "cancel_atomic_transfer ext a input_id st =
     and_then (atomic_input (de_transfer ext) input_id (atomic_registry st)) (\<lambda>i.
     and_then (ok_or Anyhow i) (\<lambda>t.
     if a \<noteq> xfer_from t then Inl Anyhow
     else
       and_then (cancel_atomic_exec (account_lockable ext) input_id [account (balances st) a] (atomic_registry st))
         (\<lambda>(ss, reg). Inr ((), st\<lparr>balances := (balances st)(a \<mapsto> hd ss), atomic_registry := reg\<rparr>))))"

definition prep_atomic_transfer ::
    "('a, 'c, 'm) token_externs_scheme \<Rightarrow> actor_id \<Rightarrow> ('a ipc_address \<times> atomic_input_id) list \<Rightarrow>
     ('a, 'c) token_state \<Rightarrow> (('a ipc_address \<times> atomic_exec_id) \<times> ('a, 'c) token_state) res" where
  "prep_atomic_transfer ext a ids st =
     and_then (ok_or Anyhow (map_option (\<lambda>p. case p of (_, i) \<Rightarrow> i)
       (find (\<lambda>p. case p of (x, _) \<Rightarrow> x = tok_ipc_address st) ids))) (\<lambda>own_id.
     and_then (atomic_input (de_transfer ext) own_id (atomic_registry st)) (\<lambda>i.
     and_then (ok_or Anyhow i) (\<lambda>t.
     if a \<noteq> xfer_from t then Inl Anyhow
     else
       and_then (prepare_atomic_exec ext (account_lockable ext) own_id ids [account (balances st) a]
         (ser_transfer ext t) (atomic_registry st)) (\<lambda>((exec_id, ss), reg).
       Inr ((xfer_coordinator t, exec_id),
            st\<lparr>balances := (balances st)(a \<mapsto> hd ss), atomic_registry := reg\<rparr>)))))"

definition atomic_transfer_coordinator ::
    "('a, 'c, 'm) token_externs_scheme \<Rightarrow> atomic_exec_id \<Rightarrow> ('a, 'c) token_state \<Rightarrow> 'a atomic_transfer res" where
  "atomic_transfer_coordinator ext exec_id st =
     and_then (atomic_output (de_transfer ext) exec_id (atomic_registry st)) (\<lambda>o'. ok_or Anyhow o')"

definition finish_atomic_transfer ::
    "('a, 'c, 'm) token_externs_scheme \<Rightarrow> 'a ipc_address \<Rightarrow> atomic_exec_id \<Rightarrow> bool \<Rightarrow>
     ('a, 'c) token_state \<Rightarrow> (unit \<times> ('a, 'c) token_state) res" where
  "finish_atomic_transfer ext coordinator exec_id commit st =
     and_then (atomic_output (de_transfer ext) exec_id (atomic_registry st)) (\<lambda>o'.
     and_then (ok_or Anyhow o') (\<lambda>t.
     if coordinator \<noteq> xfer_coordinator t then Inl Anyhow
     else
       and_then (finish_atomic_exec (account_lockable ext) exec_id
           [account (balances st) (xfer_from t)] (atomic_registry st)) (\<lambda>(ss, reg).
       let m = (balances st)(xfer_from t \<mapsto> hd ss)
       in and_then (if commit
                    then and_then (do_transfer (xfer_from t) (xfer_to t) (xfer_amount t) m) (\<lambda>(_, m'). Inr m')
                    else Inr m)
            (\<lambda>m'. Inr ((), st\<lparr>balances := m', atomic_registry := reg\<rparr>)))))"

definition commit_atomic_transfer ::
    "('a, 'c, 'm) token_externs_scheme \<Rightarrow> 'a ipc_address \<Rightarrow> atomic_exec_id \<Rightarrow>
     ('a, 'c) token_state \<Rightarrow> (unit \<times> ('a, 'c) token_state) res" where
  "commit_atomic_transfer ext coordinator exec_id st = finish_atomic_transfer ext coordinator exec_id True st"

definition rollback_atomic_transfer ::
    "('a, 'c, 'm) token_externs_scheme \<Rightarrow> 'a ipc_address \<Rightarrow> atomic_exec_id \<Rightarrow>
     ('a, 'c) token_state \<Rightarrow> (unit \<times> ('a, 'c) token_state) res" where
  "rollback_atomic_transfer ext coordinator exec_id st = finish_atomic_transfer ext coordinator exec_id False st"

end
