(* ===== verification/Token_Actor.thy ===== *)
theory Token_Actor
  imports Token
begin

text \<open>
  The handlers of the token actor (\<open>atomic-exec/examples/fungible-token/src/lib.rs\<close>).
\<close>

type_synonym ('a, 'c, 'x) tok_world = "(('a, 'c) token_state, 'x) world"

type_synonym ('a, 'c, 'x) tok_sender = "('a, 'a cross_msg, ('a, 'c) token_state, 'x) sender"

section \<open>Parameters\<close>

record 'a token_params =
  tp_gateway :: 'a
  tp_subnet_id :: "'a subnet_id"
  tp_name :: string
  tp_symbol :: string
  tp_balances :: "(string \<times> token_amount) list"

record 'a transfer_params =
  tr_to :: 'a
  tr_amount :: token_amount

record transfer_return =
  from_balance :: token_amount
  to_balance :: token_amount

record 'a init_transfer_params =
  in_coordinator :: "'a ipc_address"
  in_transfer :: "'a transfer_params"

record 'a abort_params =
  ab_actors :: "'a ipc_address list"
  ab_exec_id :: atomic_exec_id

text \<open>\<open>caller().id().unwrap()\<close>, and the id of an address that is resolved first.\<close>

definition caller_id :: "('a, 'c, 'm) token_externs_scheme \<Rightarrow> ('a, 'n) msg_env_scheme \<Rightarrow> actor_id res" where
  "caller_id ext env = ok_or Panic (id_of ext (caller env))"

definition resolved_id ::
    "('a, 'c, 'm) token_externs_scheme \<Rightarrow> ('a, 'n) msg_env_scheme \<Rightarrow> 'a \<Rightarrow> actor_id res" where
  "resolved_id ext env a =
     and_then (ok_or (ActorError USR_ILLEGAL_ARGUMENT) (resolve_address env a)) (\<lambda>r. ok_or Panic (id_of ext r))"

section \<open>The ledger\<close>

text \<open>
  The balances arrive in a hash map keyed by the text of an address, and are collected into one keyed
  by the id; a list stands for a hash map in the order it is iterated.
\<close>

fun resolve_balances ::
    "('a, 'c, 'm) token_externs_scheme \<Rightarrow> ('a, 'n) msg_env_scheme \<Rightarrow> (string \<times> token_amount) list \<Rightarrow>
     (actor_id \<times> token_amount) list \<Rightarrow> (actor_id \<times> token_amount) list res" where
  "resolve_balances ext env [] m = Inr m"
| "resolve_balances ext env ((s, b) # bs) m =
     and_then (ok_or (ActorError USR_ILLEGAL_ARGUMENT) (parse_addr ext s)) (\<lambda>a.
     and_then (resolved_id ext env a) (\<lambda>i.
     resolve_balances ext env bs (AList.update i b m)))"

definition token_constructor ::
    "('a, 'c, 'm) token_externs_scheme \<Rightarrow> ('a, 'n) msg_env_scheme \<Rightarrow> 'a token_params \<Rightarrow>
     ('a, 'c) token_state res" where
  "token_constructor ext env params =
     and_then (validate_caller_is (init_actor ext) env) (\<lambda>_.
     and_then (resolve_balances ext env (tp_balances params) []) (\<lambda>bs.
     map_err (downcast_default USR_ILLEGAL_STATE)
       (new_token (tp_gateway params) (new_ipc_address (tp_subnet_id params) (receiver env))
          (tp_name params) (tp_symbol params) bs)))"

definition token_balance ::
    "('a, 'c, 'm) token_externs_scheme \<Rightarrow> ('a, 'n) msg_env_scheme \<Rightarrow> 'a \<Rightarrow>
     ('a, 'c, 'x) tok_world \<Rightarrow> token_amount res" where
  "token_balance ext env a w = and_then (resolved_id ext env a) (\<lambda>i. Inr (balance_of i (wstate w)))"

definition token_transfer ::
    "('a, 'c, 'm) token_externs_scheme \<Rightarrow> ('a, 'n) msg_env_scheme \<Rightarrow> 'a transfer_params \<Rightarrow>
     ('a, 'c, 'x) tok_world \<Rightarrow> (transfer_return \<times> ('a, 'c, 'x) tok_world) res" where
  "token_transfer ext env params w =
     and_then (caller_id ext env) (\<lambda>from_id.
     and_then (resolved_id ext env (tr_to params)) (\<lambda>to_id.
     and_then (transaction (\<lambda>st. map_err (downcast_default USR_UNSPECIFIED)
         (transfer from_id to_id (tr_amount params) st)) w) (\<lambda>((fb, tb), w').
     Inr (\<lparr>from_balance = fb, to_balance = tb\<rparr>, w'))))"

section \<open>Atomic transfers\<close>

definition token_init_transfer ::
    "('a, 'c, 'm) token_externs_scheme \<Rightarrow> ('a, 'n) msg_env_scheme \<Rightarrow> 'a init_transfer_params \<Rightarrow>
     ('a, 'c, 'x) tok_world \<Rightarrow> (atomic_input_id \<times> ('a, 'c, 'x) tok_world) res" where
  "token_init_transfer ext env params w =
     and_then (caller_id ext env) (\<lambda>from_id.
     and_then (resolved_id ext env (tr_to (in_transfer params))) (\<lambda>to_id.
     transaction (\<lambda>st. map_err (downcast_default USR_UNSPECIFIED)
       (init_atomic_transfer ext (in_coordinator params) from_id to_id (tr_amount (in_transfer params)) st)) w))"

definition token_cancel_transfer ::
    "('a, 'c, 'm) token_externs_scheme \<Rightarrow> ('a, 'n) msg_env_scheme \<Rightarrow> atomic_input_id \<Rightarrow>
     ('a, 'c, 'x) tok_world \<Rightarrow> (unit \<times> ('a, 'c, 'x) tok_world) res" where
  "token_cancel_transfer ext env input_id w =
     and_then (caller_id ext env) (\<lambda>from_id.
     transaction (\<lambda>st. map_err (downcast_default USR_UNSPECIFIED)
       (cancel_atomic_transfer ext from_id input_id st)) w)"

definition token_prepare_transfer ::
    "('a, 'c, 'm) token_externs_scheme \<Rightarrow> ('a, 'c, 'x) tok_sender \<Rightarrow> ('a, 'n) msg_env_scheme \<Rightarrow>
     ('a ipc_address \<times> atomic_input_id) list \<Rightarrow> ('a, 'c, 'x) tok_world \<Rightarrow>
     (atomic_exec_id \<times> ('a, 'c, 'x) tok_world) res" where
  "token_prepare_transfer ext sender env ids w =
     and_then (caller_id ext env) (\<lambda>from_id.
     let gw = tok_gateway (wstate w)
     in and_then (transaction (\<lambda>st. map_err (downcast_default USR_UNSPECIFIED)
          (prep_atomic_transfer ext from_id ids st)) w) (\<lambda>((coordinator, exec_id), w1).
        let m = exec_msg ext coordinator (method_number ext ''PreCommit'')
                  (ser_pre_commit ext \<lparr>pc_actors = map (\<lambda>p. case p of (a, _) \<Rightarrow> a) ids, pc_exec_id = exec_id,
                     pc_commit = method_number ext ''CommitAtomicTransfer''\<rparr>)
        in and_then (send_cross_msg ext sender gw m w1) (\<lambda>w2. Inr (exec_id, w2))))"

definition token_commit_transfer ::
    "('a, 'c, 'm) token_externs_scheme \<Rightarrow> ('a, 'n) msg_env_scheme \<Rightarrow> 'a cross_msg \<Rightarrow>
     ('a, 'c, 'x) tok_world \<Rightarrow> (unit \<times> ('a, 'c, 'x) tok_world) res" where
  "token_commit_transfer ext env cm w =
     and_then (validate_caller_is (tok_gateway (wstate w)) env) (\<lambda>_.
     transaction (\<lambda>st. map_err (downcast_default USR_UNSPECIFIED)
       (commit_atomic_transfer ext (msg_from (msg cm)) (msg_params (msg cm)) st)) w)"

definition token_abort_transfer ::
    "('a, 'c, 'm) token_externs_scheme \<Rightarrow> ('a, 'c, 'x) tok_sender \<Rightarrow> ('a, 'n) msg_env_scheme \<Rightarrow>
     'a abort_params \<Rightarrow> ('a, 'c, 'x) tok_world \<Rightarrow> (unit \<times> ('a, 'c, 'x) tok_world) res" where
  "token_abort_transfer ext sender env params w =
     and_then (caller_id ext env) (\<lambda>from_id.
     and_then (map_err (downcast_default USR_UNSPECIFIED)
       (atomic_transfer_coordinator ext (ab_exec_id params) (wstate w))) (\<lambda>t.
     if from_id \<noteq> xfer_from t then Inl (ActorError USR_FORBIDDEN)
     else
       let m = exec_msg ext (xfer_coordinator t) (method_number ext ''Revoke'')
                 (ser_revoke ext \<lparr>rv_actors = ab_actors params, rv_exec_id = ab_exec_id params,
                    rv_rollback = method_number ext ''RollbackAtomicTransfer''\<rparr>)
       in and_then (send_cross_msg ext sender (tok_gateway (wstate w)) m w) (\<lambda>w1. Inr ((), w1))))"

definition token_rollback_transfer ::
    "('a, 'c, 'm) token_externs_scheme \<Rightarrow> ('a, 'n) msg_env_scheme \<Rightarrow> 'a cross_msg \<Rightarrow>
     ('a, 'c, 'x) tok_world \<Rightarrow> (unit \<times> ('a, 'c, 'x) tok_world) res" where
  "token_rollback_transfer ext env cm w =
     and_then (validate_caller_is (tok_gateway (wstate w)) env) (\<lambda>_.
     transaction (\<lambda>st. map_err (downcast_default USR_UNSPECIFIED)
       (rollback_atomic_transfer ext (msg_from (msg cm)) (msg_params (msg cm)) st)) w)"

section \<open>Dispatch\<close>

datatype 'a token_call =
    Name
  | Symbol
  | TotalSupply
  | Balance 'a
  | Transfer "'a transfer_params"
  | InitAtomicTransfer "'a init_transfer_params"
  | PrepareAtomicTransfer "('a ipc_address \<times> atomic_input_id) list"
  | CancelAtomicTransfer atomic_input_id
  | CommitAtomicTransfer "'a cross_msg"
  | AbortAtomicTransfer "'a abort_params"
  | RollbackAtomicTransfer "'a cross_msg"

datatype token_answer =
    Text string
  | Amount token_amount
  | Balances transfer_return
  | Bytes raw_bytes
  | NoAnswer

fun token_invoke ::
    "('a, 'c, 'm) token_externs_scheme \<Rightarrow> ('a, 'c, 'x) tok_sender \<Rightarrow> ('a, 'n) msg_env_scheme \<Rightarrow>
     'a token_call \<Rightarrow> ('a, 'c, 'x) tok_world \<Rightarrow> (token_answer \<times> ('a, 'c, 'x) tok_world) res" where
  "token_invoke ext sender env Name w = Inr (Text (tok_name (wstate w)), w)"
| "token_invoke ext sender env Symbol w = Inr (Text (tok_symbol (wstate w)), w)"
| "token_invoke ext sender env TotalSupply w = Inr (Amount (tok_total (wstate w)), w)"
| "token_invoke ext sender env (Balance a) w =
     and_then (token_balance ext env a w) (\<lambda>b. Inr (Amount b, w))"
| "token_invoke ext sender env (Transfer p) w =
     and_then (token_transfer ext env p w) (\<lambda>(r, w'). Inr (Balances r, w'))"
| "token_invoke ext sender env (InitAtomicTransfer p) w =
     and_then (token_init_transfer ext env p w) (\<lambda>(i, w'). Inr (Bytes i, w'))"
| "token_invoke ext sender env (PrepareAtomicTransfer ids) w =
     and_then (token_prepare_transfer ext sender env ids w) (\<lambda>(i, w'). Inr (Bytes i, w'))"
| "token_invoke ext sender env (CancelAtomicTransfer i) w =
     and_then (token_cancel_transfer ext env i w) (\<lambda>(_, w'). Inr (NoAnswer, w'))"
| "token_invoke ext sender env (CommitAtomicTransfer cm) w =
     and_then (token_commit_transfer ext env cm w) (\<lambda>(_, w'). Inr (NoAnswer, w'))"
| "token_invoke ext sender env (AbortAtomicTransfer p) w =
     and_then (token_abort_transfer ext sender env p w) (\<lambda>(_, w'). Inr (NoAnswer, w'))"
| "token_invoke ext sender env (RollbackAtomicTransfer cm) w =
     and_then (token_rollback_transfer ext env cm w) (\<lambda>(_, w'). Inr (NoAnswer, w'))"

inductive token_step ::
    "('a, 'c, 'm) token_externs_scheme \<Rightarrow> ('a, 'c, 'x) tok_sender \<Rightarrow> ('a, 'c, 'x) tok_world \<Rightarrow>
     'a msg_env \<times> 'a token_call \<times> token_answer \<Rightarrow> ('a, 'c, 'x) tok_world \<Rightarrow> bool"
  for ext :: "('a, 'c, 'm) token_externs_scheme" and sender :: "('a, 'c, 'x) tok_sender" where
  token_message: "0 \<le> value_received env \<Longrightarrow>
     token_invoke ext sender env call (credited env w) = Inr (r, w') \<Longrightarrow>
     token_step ext sender w (env, call, r) w'"

inductive_cases token_stepE: "token_step ext sender w (env, call, r) w'"

inductive_simps token_step_simps: "token_step ext sender w (env, call, r) w'"

fun_cases token_invoke_TransferE: "token_invoke ext sender env (Transfer p) w = Inr (r, w')"
fun_cases token_invoke_BalanceE: "token_invoke ext sender env (Balance a) w = Inr (r, w')"

end
