(* ===== verification/Exec_Registry.thy ===== *)
theory Exec_Registry
  imports Atomic_Primitives
begin

text \<open>
  What the primitives guarantee: the contract of lockable state, discharged by \<open>AtomicInputState\<close>, and
  the life of an execution in the registry.
\<close>

section \<open>The contract of lockable state\<close>

text \<open>
  What the registry expects of the trait: an unlocked piece can be locked and a locked one cannot, and
  the other way round, and locking and unlocking undo each other.
\<close>

locale lockable_state =
  fixes L :: "('s, 'c) lockable"
  assumes lock_ok: "\<not> is_locked L s \<Longrightarrow> \<exists>s'. lock_state L s = Inr s'"
    and lock_refused: "is_locked L s \<Longrightarrow> \<exists>e. lock_state L s = Inl e"
    and lock_unlock: "lock_state L s = Inr s' \<Longrightarrow> is_locked L s' \<and> unlock_state L s' = Inr s"
    and unlock_ok: "is_locked L s \<Longrightarrow> \<exists>s'. unlock_state L s = Inr s' \<and> lock_state L s' = Inr s"
    and unlock_refused: "\<not> is_locked L s \<Longrightarrow> \<exists>e. unlock_state L s = Inl e"
begin

lemma lock_Inr: "lock_state L s = Inr s' \<Longrightarrow> \<not> is_locked L s \<and> is_locked L s' \<and> unlock_state L s' = Inr s"
  using lock_refused [of s] lock_unlock [of s s'] by auto

lemma unlock_Inr: "unlock_state L s = Inr s' \<Longrightarrow> is_locked L s \<and> \<not> is_locked L s' \<and> lock_state L s' = Inr s"
  using unlock_refused [of s] unlock_ok [of s] lock_Inr [of s' s] by auto

text \<open>Locking everything, and capturing the CIDs of what is unlocked.\<close>

lemma lock_all:
  "lock_or_capture L True ss v = Inr (v', ss') \<longleftrightarrow>
     v' = v \<and> list_all2 (\<lambda>s s'. lock_state L s = Inr s') ss ss'"
proof (induction ss arbitrary: ss')
  case (Cons s ss)
  then show ?case by (cases ss') auto
qed auto

lemma capture_all:
  "lock_or_capture L False ss v = Inr (v @ map (state_cid L) (filter (\<lambda>s. \<not> is_locked L s) ss), ss)"
  by (induction ss arbitrary: v) simp_all

text \<open>Unlocking what was locked gives the pieces back.\<close>

lemma unlock_all:
  "list_all2 (\<lambda>s s'. lock_state L s = Inr s') ss ss' \<Longrightarrow>
     (\<And>s'. is_locked L s' \<Longrightarrow> P s') \<Longrightarrow> unlock_where L P ss' = Inr ss"
  by (induction rule: list_all2_induct) (auto dest: lock_Inr)

lemma unlock_locked_total: "\<exists>ss'. unlock_where L (is_locked L) ss = Inr ss' \<and> list_all (\<lambda>s. \<not> is_locked L s) ss'"
proof (induction ss)
  case (Cons s ss)
  show ?case
  proof (cases "is_locked L s")
    case True
    then obtain s' where "unlock_state L s = Inr s'" using unlock_ok by blast
    with True Cons unlock_Inr show ?thesis by auto
  next
    case False
    with Cons show ?thesis by auto
  qed
qed simp

text \<open>
  The lazy comparison never panics. When it finds no difference, the unlocked pieces have the captured
  CIDs, and afterwards every piece is locked and, unlocked again, what it was.
\<close>

lemma lock_unchanged_total: "\<exists>b ss'. lock_unchanged L ss cids = Inr (b, ss')"
proof (induction ss arbitrary: cids)
  case (Cons s ss)
  show ?case
  proof (cases "is_locked L s")
    case True
    with Cons [of cids] show ?thesis by auto
  next
    case False
    then obtain s' where "lock_state L s = Inr s'" using lock_ok by blast
    with False Cons show ?thesis by (cases cids) (force simp: Let_def)+
  qed
qed simp

lemma lock_unchanged_same:
  "lock_unchanged L ss cids = Inr (b, ss') \<Longrightarrow>
     (b \<longleftrightarrow> cids = map (state_cid L) (filter (\<lambda>s. \<not> is_locked L s) ss)) \<and>
     (b \<longrightarrow> list_all2 (\<lambda>s s'. is_locked L s \<and> s' = s \<or> lock_state L s = Inr s') ss ss')"
proof (induction ss arbitrary: cids ss')
  case (Cons s ss)
  show ?case
  proof (cases "is_locked L s")
    case True
    with Cons.prems obtain ss1 where "lock_unchanged L ss cids = Inr (b, ss1)" "ss' = s # ss1" by auto
    with Cons.IH [OF this(1)] True show ?thesis by simp
  next
    case False
    then obtain s' where s': "lock_state L s = Inr s'" using lock_ok by blast
    show ?thesis
    proof (cases cids)
      case Nil
      with Cons.prems False s' show ?thesis by simp
    next
      case (Cons c cs)
      with Cons.prems False s' Cons.IH [of cs] show ?thesis by (auto simp: Let_def split: if_splits)
    qed
  qed
qed auto

end

lemma input_lockable_simps [simp]:
  "lock_state (input_lockable cid) = lock_input" "unlock_state (input_lockable cid) = unlock_input"
  "is_locked (input_lockable cid) = locked" "state_cid (input_lockable cid) = cid"
  by (simp_all add: input_lockable_def)

interpretation input_state: lockable_state "input_lockable cid" for cid :: "'t atomic_input_state \<Rightarrow> 'c"
  by unfold_locales (auto simp: lock_input_def unlock_input_def atomic_input_state.expand split: if_splits)

section \<open>The life of an execution\<close>

lemma new_input_id_Inr:
  "new_input_id ext cids inp reg = Inr (i, reg1) \<longleftrightarrow>
     (\<exists>n. u64_incr (exec_nonce reg) = Inr n \<and> reg1 = reg\<lparr>exec_nonce := n\<rparr> \<and>
        i = blake2b256 ext (cbor_nonce ext (exec_nonce reg) @ concat (map (cbor_cid ext) cids) @ inp))"
  by (auto simp: new_input_id_def)

lemma init_atomic_exec_Inr:
  assumes "init_atomic_exec ext L ss input lk reg = Inr ((i, ss'), reg')"
  obtains cids inp n where "lock_or_capture L lk ss [] = Inr (cids, ss')" "input = Inr inp"
    "u64_incr (exec_nonce reg) = Inr n" "input_ids reg i = None"
    "i = blake2b256 ext (cbor_nonce ext (exec_nonce reg) @ concat (map (cbor_cid ext) cids) @ inp)"
    "reg' = reg\<lparr>exec_nonce := n, input_ids := (input_ids reg)(i \<mapsto>
       \<lparr>unlocked_state_cids = cids, entry_input = inp\<rparr>)\<rparr>"
  using assms by (auto simp: init_atomic_exec_def new_input_id_Inr split: if_splits)

lemma prepare_atomic_exec_Inr:
  assumes "prepare_atomic_exec ext L own ids ss output reg = Inr ((x, ss'), reg')"
  obtains e out where "input_ids reg own = Some e" "lock_unchanged L ss (unlocked_state_cids e) = Inr (True, ss')"
    "output = Inr out" "x = compute_exec_id ext ids" "exec_ids reg x = None"
    "reg' = reg\<lparr>input_ids := (input_ids reg)(own := None), exec_ids := (exec_ids reg)(x \<mapsto> out)\<rparr>"
  using assms by (auto simp: prepare_atomic_exec_def Let_def split: option.splits if_splits)


text \<open>
  C40: the lazy comparison of \<open>prepare_atomic_exec\<close>, which locks piece by piece while it compares and stops
  at the first difference, never panics and answers exactly what comparing all CIDs of the unlocked
  pieces with the captured ones at once would.
\<close>

theorem lazy_comparison_is_eager:
  "\<exists>ss'. lock_unchanged (input_lockable cid) ss cids = Inr (cids = map cid (filter (\<lambda>s. \<not> locked s) ss), ss')"
proof -
  obtain b ss' where l: "lock_unchanged (input_lockable cid) ss cids = Inr (b, ss')"
    using input_state.lock_unchanged_total by blast
  with input_state.lock_unchanged_same [OF l] show ?thesis by simp
qed

text \<open>
  Initiating an execution with locking and cancelling it gives every piece of state back as it was,
  and the registry, but for the nonce.
\<close>

theorem init_cancel_restores:
  assumes "init_atomic_exec ext (input_lockable cid) ss input True reg = Inr ((i, ss1), reg1)"
  shows "cancel_atomic_exec (input_lockable cid) i ss1 reg1 = Inr (ss, reg\<lparr>exec_nonce := exec_nonce reg + 1\<rparr>)"
proof -
  from assms obtain cids inp n where c: "lock_or_capture (input_lockable cid) True ss [] = Inr (cids, ss1)"
    and n: "u64_incr (exec_nonce reg) = Inr n" and fresh: "input_ids reg i = None"
    and reg1: "reg1 = reg\<lparr>exec_nonce := n, input_ids := (input_ids reg)(i \<mapsto>
       \<lparr>unlocked_state_cids = cids, entry_input = inp\<rparr>)\<rparr>" by (rule init_atomic_exec_Inr)
  have "unlock_where (input_lockable cid) (is_locked (input_lockable cid)) ss1 = Inr ss"
    by (rule input_state.unlock_all) (use c in \<open>simp_all add: input_state.lock_all\<close>)
  moreover have "n = exec_nonce reg + 1" using n by (auto simp: u64_incr_def split: if_splits)
  moreover have "(input_ids reg)(i := None) = input_ids reg" using fresh by (simp add: fun_upd_idem)
  ultimately show ?thesis by (simp add: cancel_atomic_exec_def reg1)
qed

text \<open>
  C35: a piece of state that is locked for one execution can be taken into another one: initiating
  without locking captures nothing of a locked piece, so preparing has nothing to compare and
  succeeds. The first execution to finish unlocks the piece, and finishing the other panics.
\<close>

theorem locked_state_taken_twice:
  assumes "locked s" and "exec_ids reg x1 \<noteq> None" and "u64_incr (exec_nonce reg) = Inr n"
    and "input_ids reg (blake2b256 ext (cbor_nonce ext (exec_nonce reg) @ inp)) = None"
    and "exec_ids reg (compute_exec_id ext ids) = None"
  shows "\<exists>i reg1 reg2 s' reg3.
    init_atomic_exec ext (input_lockable cid) [s] (Inr inp) False reg = Inr ((i, [s]), reg1) \<and>
    prepare_atomic_exec ext (input_lockable cid) i ids [s] (Inr out) reg1 = Inr ((compute_exec_id ext ids, [s]), reg2) \<and>
    finish_atomic_exec (input_lockable cid) x1 [s] reg2 = Inr ([s'], reg3) \<and> \<not> locked s' \<and>
    finish_atomic_exec (input_lockable cid) (compute_exec_id ext ids) [s'] reg3 = Inl Panic"
proof -
  have "x1 \<noteq> compute_exec_id ext ids" using assms(2,5) by auto
  then show ?thesis
    using assms by (auto simp: init_atomic_exec_def prepare_atomic_exec_def finish_atomic_exec_def new_input_id_def
        unlock_input_def Let_def)
qed

text \<open>A sample registry whose hash and forms are the bytes themselves.\<close>

definition sample_exec_ext :: "(nat, nat) exec_externs" where
  "sample_exec_ext = \<lparr>blake2b256 = (\<lambda>b. b), cbor_actors = (\<lambda>_. []), ser_pre_commit = (\<lambda>_. []),
     de_pre_commit = (\<lambda>_. Inl Anyhow), ser_revoke = (\<lambda>_. []), de_revoke = (\<lambda>_. Inl Anyhow),
     show_address = (\<lambda>_. []), zero_bls = 0, method_number = (\<lambda>_. 5), init_actor = 1,
     cbor_nonce = (\<lambda>n. [ucast n]), cbor_cid = (\<lambda>c. [of_nat c]), cbor_inputs = (\<lambda>ids. concat (map (\<lambda>p. case p of (_, i) \<Rightarrow> i) ids))\<rparr>"

lemmas exec_eval = init_atomic_exec_def prepare_atomic_exec_def new_input_id_def new_exec_registry_def
  sample_exec_ext_def lock_input_def u64_incr_def compute_exec_id_def Let_def


theorem init_cancel_restores_witness:
  "\<exists>i ss1 reg1. init_atomic_exec sample_exec_ext (input_lockable content) [AtomicInputState False (7 :: nat)] (Inr [5])
       True new_exec_registry = Inr ((i, ss1), reg1) \<and>
     cancel_atomic_exec (input_lockable content) i ss1 reg1 =
       Inr ([AtomicInputState False 7], new_exec_registry\<lparr>exec_nonce := 1\<rparr>)"
proof -
  obtain i ss1 reg1 where i: "init_atomic_exec sample_exec_ext (input_lockable content) [AtomicInputState False (7 :: nat)] (Inr [5])
       True new_exec_registry = Inr ((i, ss1), reg1)" by (simp add: exec_eval)
  from init_cancel_restores [OF i] i show ?thesis by (auto simp: new_exec_registry_def)
qed

theorem locked_state_taken_twice_witness:
  "\<exists>(s :: nat atomic_input_state) (reg :: nat exec_registry) reg2 s' reg3 x1 x2. locked s \<and> x1 \<noteq> x2 \<and>
     finish_atomic_exec (input_lockable content) x1 [s] reg2 = Inr ([s'], reg3) \<and>
     finish_atomic_exec (input_lockable content) x2 [s'] reg3 = Inl Panic"
proof -
  let ?reg = "new_exec_registry\<lparr>exec_ids := [[1] \<mapsto> []]\<rparr> :: nat exec_registry"
  let ?s = "AtomicInputState True (7 :: nat)"
  let ?ids = "[(\<lparr>subnet_of = \<lparr>root = 1, children = []\<rparr>, raw_address = 3\<rparr>, [2])] :: (nat ipc_address \<times> raw_bytes) list"
  have x: "compute_exec_id sample_exec_ext ?ids = [2]" by (simp add: exec_eval)
  have h: "locked ?s" "exec_ids ?reg [1] \<noteq> None" "u64_incr (exec_nonce ?reg) = Inr 1"
    "input_ids ?reg (blake2b256 sample_exec_ext (cbor_nonce sample_exec_ext (exec_nonce ?reg) @ [5])) = None"
    "exec_ids ?reg (compute_exec_id sample_exec_ext ?ids) = None"
    by (simp_all add: exec_eval)
  from locked_state_taken_twice [OF h, of content "[]"] obtain reg2 s' reg3 where
    "finish_atomic_exec (input_lockable content) [1] [?s] reg2 = Inr ([s'], reg3)"
    "finish_atomic_exec (input_lockable content) [2] [s'] reg3 = Inl Panic" unfolding x by blast
  moreover have "locked ?s" "[1] \<noteq> ([2] :: raw_bytes)" by simp_all
  ultimately show ?thesis by blast
qed

end
