(* ===== verification/Token_Inv.thy ===== *)
theory Token_Inv
  imports Token_Actor Exec_Registry
begin

text \<open>
  The invariant of the token actor: the accounts that are locked are exactly the senders of the atomic
  transfers in its registry, one transfer each and covered by the balance; and what its operations do
  to the sum of the balances.
\<close>

section \<open>The ledger\<close>

definition token_supply :: "(actor_id \<rightharpoonup> account_state) \<Rightarrow> token_amount" where
  "token_supply m = table_sum content m"

lemma account_content: "content (account m a) = (case m a of Some s \<Rightarrow> content s | None \<Rightarrow> 0)"
  by (simp add: account_def new_input_state_def split: option.split)

lemma modify_Inr:
  "modify f s = Inr (r, s') \<longleftrightarrow> \<not> locked s \<and> (\<exists>c. f (content s) = Inr (r, c) \<and> s' = AtomicInputState False c)"
  by (auto simp: modify_def get_mut_def)

lemma do_transfer_Inr:
  "do_transfer a b v m = Inr (r, m') \<longleftrightarrow>
     v \<le> content (account m a) \<and> \<not> locked (account m a) \<and> \<not> locked (account m b) \<and>
     r = (content (account m a) - v, content (account m b) + v) \<and>
     m' = m(a \<mapsto> AtomicInputState False (content (account m a) - v),
            b \<mapsto> AtomicInputState False (content (account m b) + v))"
  by (auto simp: do_transfer_def modify_Inr Let_def)

lemma supply_upd:
  "finite (dom m) \<Longrightarrow> token_supply (m(a \<mapsto> s)) = token_supply m - content (account m a) + content s"
  by (simp add: token_supply_def table_sum_upd account_content)

text \<open>A transfer to oneself is the only one that does not keep the sum.\<close>

lemma do_transfer_supply:
  assumes "finite (dom m)" and "do_transfer a b v m = Inr (r, m')"
  shows "token_supply m' = token_supply m + (if a = b then v else 0)"
proof -
  let ?m1 = "m(a \<mapsto> AtomicInputState False (content (account m a) - v))"
  have m': "m' = ?m1(b \<mapsto> AtomicInputState False (content (account m b) + v))"
    using assms(2) by (simp add: do_transfer_Inr)
  have 1: "token_supply ?m1 = token_supply m - v" using supply_upd [OF assms(1)] by simp
  have "token_supply m' = token_supply ?m1 - content (account ?m1 b) + (content (account m b) + v)"
    unfolding m' using assms(1) by (subst supply_upd) simp_all
  then show ?thesis unfolding 1 by (simp add: account_content)
qed

section \<open>The transfers under way\<close>

datatype slot = Initiated atomic_input_id | Prepared atomic_exec_id

definition under_way ::
    "('a, 'c, 'm) token_externs_scheme \<Rightarrow> 'c exec_registry \<Rightarrow> slot \<Rightarrow> 'a atomic_transfer option" where
  "under_way ext reg k =
     (case k of
        Initiated i \<Rightarrow> (case input_ids reg i of None \<Rightarrow> None
          | Some e \<Rightarrow> (case de_transfer ext (entry_input e) of Inr t \<Rightarrow> Some t | Inl _ \<Rightarrow> None))
      | Prepared x \<Rightarrow> (case exec_ids reg x of None \<Rightarrow> None
          | Some out \<Rightarrow> (case de_transfer ext out of Inr t \<Rightarrow> Some t | Inl _ \<Rightarrow> None)))"

lemma atomic_input_under_way:
  "and_then (atomic_input (de_transfer ext) i reg) (ok_or Anyhow) = Inr t \<longleftrightarrow> under_way ext reg (Initiated i) = Some t"
  by (auto simp: atomic_input_def under_way_def split: option.splits sum.splits)

lemma atomic_output_under_way:
  "and_then (atomic_output (de_transfer ext) x reg) (ok_or Anyhow) = Inr t \<longleftrightarrow> under_way ext reg (Prepared x) = Some t"
  by (auto simp: atomic_output_def under_way_def split: option.splits sum.splits)

text \<open>What the locks of a table of accounts and the transfers under way say about each other.\<close>

definition locks_ok :: "(actor_id \<rightharpoonup> account_state) \<Rightarrow> (slot \<rightharpoonup> 'a atomic_transfer) \<Rightarrow> bool" where
  "locks_ok m h \<longleftrightarrow>
     (\<forall>k t. h k = Some t \<longrightarrow> locked (account m (xfer_from t)) \<and> xfer_amount t \<le> content (account m (xfer_from t))) \<and>
     (\<forall>k k' t t'. h k = Some t \<longrightarrow> h k' = Some t' \<longrightarrow> xfer_from t = xfer_from t' \<longrightarrow> k = k') \<and>
     (\<forall>a. locked (account m a) \<longrightarrow> (\<exists>k t. h k = Some t \<and> xfer_from t = a))"

lemma locks_okD:
  assumes "locks_ok m h"
  shows "h k = Some t \<Longrightarrow> locked (account m (xfer_from t)) \<and> xfer_amount t \<le> content (account m (xfer_from t))"
    and "h k = Some t \<Longrightarrow> h k' = Some t' \<Longrightarrow> xfer_from t = xfer_from t' \<Longrightarrow> k = k'"
    and "locked (account m a) \<Longrightarrow> \<exists>k t. h k = Some t \<and> xfer_from t = a"
  using assms unfolding locks_ok_def by blast+

lemma locks_okI:
  assumes "\<And>k t. h k = Some t \<Longrightarrow> locked (account m (xfer_from t)) \<and> xfer_amount t \<le> content (account m (xfer_from t))"
    and "\<And>k k' t t'. h k = Some t \<Longrightarrow> h k' = Some t' \<Longrightarrow> xfer_from t = xfer_from t' \<Longrightarrow> k = k'"
    and "\<And>a. locked (account m a) \<Longrightarrow> \<exists>k t. h k = Some t \<and> xfer_from t = a"
  shows "locks_ok m h"
  using assms unfolding locks_ok_def by blast

lemma account_upd: "account (m(a \<mapsto> s)) b = (if b = a then s else account m b)"
  by (simp add: account_def)

lemma locks_ok_start:
  assumes "locks_ok m h" and "\<not> locked (account m (xfer_from t))" and "h k = None"
    and "xfer_amount t \<le> content s" and "locked s"
  shows "locks_ok (m(xfer_from t \<mapsto> s)) (h(k \<mapsto> t))"
proof (rule locks_okI)
  note d = locks_okD [OF assms(1)]
  have other: "xfer_from t' \<noteq> xfer_from t" if "h k' = Some t'" for k' t'
    using d(1) [OF that] assms(2) by auto
  show "locked (account (m(xfer_from t \<mapsto> s)) (xfer_from t')) \<and>
      xfer_amount t' \<le> content (account (m(xfer_from t \<mapsto> s)) (xfer_from t'))"
    if "(h(k \<mapsto> t)) k' = Some t'" for k' t'
    using that assms(4,5) d(1) [of k' t'] other [of k' t'] by (auto simp: account_upd split: if_splits)
  show "k1 = k2" if "(h(k \<mapsto> t)) k1 = Some t1" "(h(k \<mapsto> t)) k2 = Some t2" "xfer_from t1 = xfer_from t2" for k1 k2 t1 t2
    using that other [of k1 t1] other [of k2 t2] d(2) [of k1 t1 k2 t2] by (auto split: if_splits)
  show "\<exists>k1 t1. (h(k \<mapsto> t)) k1 = Some t1 \<and> xfer_from t1 = a" if "locked (account (m(xfer_from t \<mapsto> s)) a)" for a
  proof (cases "a = xfer_from t")
    case True
    then show ?thesis by auto
  next
    case False
    with that obtain k1 t1 where h1: "h k1 = Some t1" "xfer_from t1 = a" using d(3) [of a] by (auto simp: account_upd)
    then have "k1 \<noteq> k" using assms(3) by auto
    with h1 show ?thesis by auto
  qed
qed

lemma locks_ok_move:
  assumes "locks_ok m h" and "h k = Some t" and "h k' = None"
  shows "locks_ok m (h(k := None, k' \<mapsto> t))"
proof (rule locks_okI)
  note d = locks_okD [OF assms(1)]
  have other: "xfer_from t' \<noteq> xfer_from t" if "h k1 = Some t'" "k1 \<noteq> k" for k1 t'
    using d(2) [OF that(1) assms(2)] that(2) by blast
  show "locked (account m (xfer_from t')) \<and> xfer_amount t' \<le> content (account m (xfer_from t'))"
    if "(h(k := None, k' \<mapsto> t)) k1 = Some t'" for k1 t'
    using that d(1) [OF assms(2)] d(1) [of k1 t'] by (auto split: if_splits)
  show "k1 = k2" if "(h(k := None, k' \<mapsto> t)) k1 = Some t1" "(h(k := None, k' \<mapsto> t)) k2 = Some t2"
      "xfer_from t1 = xfer_from t2" for k1 k2 t1 t2
    using that other [of k1 t1] other [of k2 t2] d(2) [of k1 t1 k2 t2] by (auto split: if_splits)
  show "\<exists>k1 t1. (h(k := None, k' \<mapsto> t)) k1 = Some t1 \<and> xfer_from t1 = a" if l: "locked (account m a)" for a
  proof -
    from d(3) [OF l] obtain k1 t1 where h1: "h k1 = Some t1" "xfer_from t1 = a" by blast
    show ?thesis
    proof (cases "k1 = k")
      case True
      then show ?thesis using h1 assms(2) by (intro exI [of _ k'] exI [of _ t]) auto
    next
      case False
      then show ?thesis using h1 assms(3) by (intro exI [of _ k1] exI [of _ t1]) auto
    qed
  qed
qed

lemma locks_ok_release:
  assumes "locks_ok m h" and "h k = Some t" and "\<not> locked s"
  shows "locks_ok (m(xfer_from t \<mapsto> s)) (h(k := None))"
proof (rule locks_okI)
  note d = locks_okD [OF assms(1)]
  have other: "xfer_from t' \<noteq> xfer_from t" if "h k1 = Some t'" "k1 \<noteq> k" for k1 t'
    using d(2) [OF that(1) assms(2)] that(2) by blast
  show "locked (account (m(xfer_from t \<mapsto> s)) (xfer_from t')) \<and>
      xfer_amount t' \<le> content (account (m(xfer_from t \<mapsto> s)) (xfer_from t'))"
    if "(h(k := None)) k1 = Some t'" for k1 t'
    using that other [of k1 t'] d(1) [of k1 t'] by (auto simp: account_upd split: if_splits)
  show "k1 = k2" if "(h(k := None)) k1 = Some t1" "(h(k := None)) k2 = Some t2" "xfer_from t1 = xfer_from t2" for k1 k2 t1 t2
    using that d(2) [of k1 t1 k2 t2] by (auto split: if_splits)
  show "\<exists>k1 t1. (h(k := None)) k1 = Some t1 \<and> xfer_from t1 = a" if l: "locked (account (m(xfer_from t \<mapsto> s)) a)" for a
  proof -
    have a: "a \<noteq> xfer_from t" "locked (account m a)" using l assms(3) by (auto simp: account_upd split: if_splits)
    from d(3) [OF a(2)] obtain k1 t1 where h1: "h k1 = Some t1" "xfer_from t1 = a" by blast
    then have "k1 \<noteq> k" using a(1) assms(2) by auto
    with h1 show ?thesis by auto
  qed
qed

text \<open>A change of unlocked accounts that leaves them unlocked does not matter to the transfers under way.\<close>

lemma locks_ok_unlocked:
  assumes "locks_ok m h" and "\<not> locked (account m a)" and "\<not> locked s"
  shows "locks_ok (m(a \<mapsto> s)) h"
proof (rule locks_okI)
  note d = locks_okD [OF assms(1)]
  show "locked (account (m(a \<mapsto> s)) (xfer_from t)) \<and> xfer_amount t \<le> content (account (m(a \<mapsto> s)) (xfer_from t))"
    if "h k = Some t" for k t
    using d(1) [OF that] assms(2) by (auto simp: account_upd)
  show "h k = Some t \<Longrightarrow> h k' = Some t' \<Longrightarrow> xfer_from t = xfer_from t' \<Longrightarrow> k = k'" for k k' t t' by (rule d(2))
  show "\<exists>k t. h k = Some t \<and> xfer_from t = b" if "locked (account (m(a \<mapsto> s)) b)" for b
    using that assms(3) d(3) [of b] by (auto simp: account_upd split: if_splits)
qed

lemma locks_ok_transfer:
  assumes "locks_ok m h" and "do_transfer a b v m = Inr (r, m')"
  shows "locks_ok m' h"
  using assms by (auto simp: do_transfer_Inr account_upd intro!: locks_ok_unlocked split: if_splits)

section \<open>The invariant\<close>

text \<open>
  Reading back what was serialized gives the transfer again: the documented behaviour of the CBOR crate.
\<close>

definition transfer_forms_ok :: "('a, 'c, 'm) token_externs_scheme \<Rightarrow> bool" where
  "transfer_forms_ok ext \<longleftrightarrow> (\<forall>t b. ser_transfer ext t = Inr b \<longrightarrow> de_transfer ext b = Inr t)"

definition entries_ok :: "('a, 'c, 'm) token_externs_scheme \<Rightarrow> 'c exec_registry \<Rightarrow> bool" where
  "entries_ok ext reg \<longleftrightarrow>
     (\<forall>i e. input_ids reg i = Some e \<longrightarrow> unlocked_state_cids e = [] \<and> under_way ext reg (Initiated i) \<noteq> None \<and>
        (\<exists>n rest. n < exec_nonce reg \<and> i = blake2b256 ext (cbor_nonce ext n @ rest))) \<and>
     (\<forall>x out. exec_ids reg x = Some out \<longrightarrow> under_way ext reg (Prepared x) \<noteq> None)"

definition token_inv :: "('a, 'c, 'm) token_externs_scheme \<Rightarrow> ('a, 'c) token_state \<Rightarrow> bool" where
  "token_inv ext st \<longleftrightarrow>
     finite (dom (balances st)) \<and> locks_ok (balances st) (under_way ext (atomic_registry st)) \<and>
     entries_ok ext (atomic_registry st)"

lemma under_way_simps:
  "under_way ext (reg\<lparr>exec_nonce := n\<rparr>) = under_way ext reg"
  "under_way ext (reg\<lparr>input_ids := (input_ids reg)(i := None)\<rparr>) = (under_way ext reg)(Initiated i := None)"
  "under_way ext (reg\<lparr>exec_ids := (exec_ids reg)(x := None)\<rparr>) = (under_way ext reg)(Prepared x := None)"
  "de_transfer ext (entry_input e) = Inr t \<Longrightarrow>
     under_way ext (reg\<lparr>exec_nonce := n, input_ids := (input_ids reg)(i \<mapsto> e)\<rparr>) = (under_way ext reg)(Initiated i \<mapsto> t)"
  "de_transfer ext out = Inr t \<Longrightarrow>
     under_way ext (reg\<lparr>input_ids := (input_ids reg)(i := None), exec_ids := (exec_ids reg)(x \<mapsto> out)\<rparr>) =
       (under_way ext reg)(Initiated i := None, Prepared x \<mapsto> t)"
  by (auto simp: under_way_def fun_eq_iff split: slot.split)

lemma under_way_None:
  "input_ids reg i = None \<Longrightarrow> under_way ext reg (Initiated i) = None"
  "exec_ids reg x = None \<Longrightarrow> under_way ext reg (Prepared x) = None"
  by (simp_all add: under_way_def)

lemma under_way_Some:
  "under_way ext reg (Initiated i) = Some t \<Longrightarrow> \<exists>e. input_ids reg i = Some e \<and> de_transfer ext (entry_input e) = Inr t"
  "under_way ext reg (Prepared x) = Some t \<Longrightarrow> \<exists>out. exec_ids reg x = Some out \<and> de_transfer ext out = Inr t"
  by (auto simp: under_way_def split: option.splits sum.splits)

lemma list_all2_single: "list_all2 P [x] ys \<longleftrightarrow> (\<exists>y. ys = [y] \<and> P x y)"
  by (cases ys) auto

section \<open>The operations\<close>

text \<open>What each operation on atomic transfers does to the accounts and to the transfers under way.\<close>

lemma init_atomic_transfer_Inr:
  assumes "init_atomic_transfer ext c a b v st = Inr (i, st')" and "transfer_forms_ok ext"
  obtains reg' where "\<not> locked (account (balances st) a)" "v \<le> content (account (balances st) a)"
    "under_way ext (atomic_registry st) (Initiated i) = None"
    "under_way ext reg' = (under_way ext (atomic_registry st))(Initiated i \<mapsto>
       \<lparr>xfer_coordinator = c, xfer_from = a, xfer_to = b, xfer_amount = v\<rparr>)"
    "entries_ok ext (atomic_registry st) \<Longrightarrow> entries_ok ext reg'"
    "st' = st\<lparr>balances := (balances st)(a \<mapsto> AtomicInputState True (content (account (balances st) a))),
       atomic_registry := reg'\<rparr>"
proof -
  let ?t = "\<lparr>xfer_coordinator = c, xfer_from = a, xfer_to = b, xfer_amount = v\<rparr>" and ?reg = "atomic_registry st"
  from assms(1) obtain ss reg' where v: "v \<le> content (account (balances st) a)"
    and ini: "init_atomic_exec ext (account_lockable ext) [account (balances st) a] (ser_transfer ext ?t) True ?reg = Inr ((i, ss), reg')"
    and st': "st' = st\<lparr>balances := (balances st)(a \<mapsto> hd ss), atomic_registry := reg'\<rparr>"
    by (auto simp: init_atomic_transfer_def Let_def split: if_splits)
  from ini obtain cids inp n where l: "lock_or_capture (account_lockable ext) True [account (balances st) a] [] = Inr (cids, ss)"
    and ser: "ser_transfer ext ?t = Inr inp" and n: "u64_incr (exec_nonce ?reg) = Inr n" and fresh: "input_ids ?reg i = None"
    and i: "i = blake2b256 ext (cbor_nonce ext (exec_nonce ?reg) @ concat (map (cbor_cid ext) cids) @ inp)"
    and reg': "reg' = ?reg\<lparr>exec_nonce := n, input_ids := (input_ids ?reg)(i \<mapsto> \<lparr>unlocked_state_cids = cids, entry_input = inp\<rparr>)\<rparr>"
    by (rule init_atomic_exec_Inr)
  have lk: "\<not> locked (account (balances st) a)" "ss = [AtomicInputState True (content (account (balances st) a))]" "cids = []"
    using l by (auto simp: lock_input_def split: if_splits)
  have de: "de_transfer ext inp = Inr ?t" using assms(2) ser by (simp add: transfer_forms_ok_def)
  have under_way: "under_way ext reg' = (under_way ext ?reg)(Initiated i \<mapsto> ?t)" unfolding reg' by (rule under_way_simps(4)) (simp add: de)
  have "entries_ok ext reg'" if ok: "entries_ok ext ?reg"
  proof -
    have "m < n" if "m < exec_nonce ?reg" for m using u64_incr_less [OF n] that by simp
    then show ?thesis
      using ok u64_incr_less [OF n] unfolding entries_ok_def under_way by (auto simp: reg' i lk(3)) blast+
  qed
  then show ?thesis
    by (intro that [OF lk(1) v under_way_None(1) [OF fresh] under_way]) (simp_all add: st' lk(2))
qed

lemma cancel_atomic_transfer_Inr:
  assumes "cancel_atomic_transfer ext a i st = Inr (u, st')" and "locks_ok (balances st) (under_way ext (atomic_registry st))"
  obtains t reg' where "under_way ext (atomic_registry st) (Initiated i) = Some t" "xfer_from t = a"
    "under_way ext reg' = (under_way ext (atomic_registry st))(Initiated i := None)"
    "entries_ok ext (atomic_registry st) \<Longrightarrow> entries_ok ext reg'"
    "st' = st\<lparr>balances := (balances st)(a \<mapsto> AtomicInputState False (content (account (balances st) a))),
       atomic_registry := reg'\<rparr>"
proof -
  let ?reg = "atomic_registry st"
  from assms(1) obtain t ss reg' where
    "and_then (atomic_input (de_transfer ext) i ?reg) (ok_or Anyhow) = Inr t"
    and f: "xfer_from t = a"
    and c: "cancel_atomic_exec (account_lockable ext) i [account (balances st) a] ?reg = Inr (ss, reg')"
    and st': "st' = st\<lparr>balances := (balances st)(a \<mapsto> hd ss), atomic_registry := reg'\<rparr>"
    by (auto simp: cancel_atomic_transfer_def split: if_splits)
  then have h: "under_way ext ?reg (Initiated i) = Some t" by (simp only: atomic_input_under_way)
  have lk: "locked (account (balances st) a)" using locks_okD(1) [OF assms(2) h] f by simp
  have reg': "reg' = ?reg\<lparr>input_ids := (input_ids ?reg)(i := None)\<rparr>"
    and ss: "ss = [AtomicInputState False (content (account (balances st) a))]"
    using c lk by (auto simp: cancel_atomic_exec_def unlock_input_def split: option.splits)
  have under_way: "under_way ext reg' = (under_way ext ?reg)(Initiated i := None)" unfolding reg' by (rule under_way_simps)
  have "entries_ok ext reg'" if "entries_ok ext ?reg"
    using that unfolding entries_ok_def under_way by (auto simp: reg')
  with under_way show ?thesis by (intro that [OF h f under_way]) (simp_all add: st' ss)
qed

lemma prep_atomic_transfer_Inr:
  assumes "prep_atomic_transfer ext a ids st = Inr ((c, x), st')" and "transfer_forms_ok ext"
    and "locks_ok (balances st) (under_way ext (atomic_registry st))"
  obtains i t reg' where "find (\<lambda>p. fst p = tok_ipc_address st) ids = Some (tok_ipc_address st, i)"
    "under_way ext (atomic_registry st) (Initiated i) = Some t" "xfer_from t = a" "c = xfer_coordinator t"
    "x = compute_exec_id ext ids" "under_way ext (atomic_registry st) (Prepared x) = None"
    "under_way ext reg' = (under_way ext (atomic_registry st))(Initiated i := None, Prepared x \<mapsto> t)"
    "entries_ok ext (atomic_registry st) \<Longrightarrow> entries_ok ext reg'"
    "st' = st\<lparr>balances := (balances st)(a \<mapsto> account (balances st) a), atomic_registry := reg'\<rparr>"
proof -
  let ?reg = "atomic_registry st"
  from assms(1) obtain p t ss reg' where
    find: "find (\<lambda>p. case p of (y, _) \<Rightarrow> y = tok_ipc_address st) ids = Some p"
    and "and_then (atomic_input (de_transfer ext) (snd p) ?reg) (ok_or Anyhow) = Inr t"
    and f: "xfer_from t = a" and c: "c = xfer_coordinator t"
    and pr: "prepare_atomic_exec ext (account_lockable ext) (snd p) ids [account (balances st) a] (ser_transfer ext t) ?reg = Inr ((x, ss), reg')"
    and st': "st' = st\<lparr>balances := (balances st)(a \<mapsto> hd ss), atomic_registry := reg'\<rparr>"
    by (auto simp: prep_atomic_transfer_def case_prod_beta split: if_splits)
  then have h: "under_way ext ?reg (Initiated (snd p)) = Some t" by (simp only: atomic_input_under_way)
  have lk: "locked (account (balances st) a)" using locks_okD(1) [OF assms(3) h] f by simp
  from pr obtain e out where e: "input_ids ?reg (snd p) = Some e"
    and l: "lock_unchanged (account_lockable ext) [account (balances st) a] (unlocked_state_cids e) = Inr (True, ss)"
    and ser: "ser_transfer ext t = Inr out" and x: "x = compute_exec_id ext ids" and fresh: "exec_ids ?reg x = None"
    and reg': "reg' = ?reg\<lparr>input_ids := (input_ids ?reg)(snd p := None), exec_ids := (exec_ids ?reg)(x \<mapsto> out)\<rparr>"
    by (rule prepare_atomic_exec_Inr)
  have ss: "ss = [account (balances st) a]" using l lk by auto
  have de: "de_transfer ext out = Inr t" using assms(2) ser by (simp add: transfer_forms_ok_def)
  have under_way: "under_way ext reg' = (under_way ext ?reg)(Initiated (snd p) := None, Prepared x \<mapsto> t)"
    unfolding reg' by (rule under_way_simps(5)) (simp add: de)
  have "entries_ok ext reg'" if "entries_ok ext ?reg"
    using that unfolding entries_ok_def under_way by (auto simp: reg')
  moreover have own: "find (\<lambda>p. fst p = tok_ipc_address st) ids = Some p"
    using find by (simp add: case_prod_beta)
  moreover have "fst p = tok_ipc_address st"
    using own unfolding find_Some_iff by auto
  then have "p = (tok_ipc_address st, snd p)" by (metis prod.collapse)
  ultimately have "find (\<lambda>p. fst p = tok_ipc_address st) ids = Some (tok_ipc_address st, snd p)" by metis
  with \<open>entries_ok ext ?reg \<Longrightarrow> entries_ok ext reg'\<close> show ?thesis
    by (intro that [OF _ h f c x under_way_None(2) [OF fresh] under_way]) (simp_all add: st' ss)
qed

lemma finish_atomic_transfer_Inr:
  assumes "finish_atomic_transfer ext c x commit st = Inr (u, st')"
    and "locks_ok (balances st) (under_way ext (atomic_registry st))"
  obtains t reg' m where "under_way ext (atomic_registry st) (Prepared x) = Some t" "c = xfer_coordinator t"
    "under_way ext reg' = (under_way ext (atomic_registry st))(Prepared x := None)"
    "entries_ok ext (atomic_registry st) \<Longrightarrow> entries_ok ext reg'"
    "m = (balances st)(xfer_from t \<mapsto> AtomicInputState False (content (account (balances st) (xfer_from t))))"
    "if commit then \<exists>r. do_transfer (xfer_from t) (xfer_to t) (xfer_amount t) m = Inr (r, balances st')
     else balances st' = m"
    "st' = st\<lparr>balances := balances st', atomic_registry := reg'\<rparr>"
proof -
  let ?reg = "atomic_registry st"
  from assms(1) obtain t ss reg' m' where
    "and_then (atomic_output (de_transfer ext) x ?reg) (ok_or Anyhow) = Inr t"
    and c: "c = xfer_coordinator t"
    and fin: "finish_atomic_exec (account_lockable ext) x [account (balances st) (xfer_from t)] ?reg = Inr (ss, reg')"
    and m': "commit \<Longrightarrow> \<exists>r. do_transfer (xfer_from t) (xfer_to t) (xfer_amount t) ((balances st)(xfer_from t \<mapsto> hd ss)) = Inr (r, m')"
       "\<not> commit \<Longrightarrow> m' = (balances st)(xfer_from t \<mapsto> hd ss)"
    and st': "st' = st\<lparr>balances := m', atomic_registry := reg'\<rparr>"
    by (cases commit) (auto simp: finish_atomic_transfer_def Let_def split: if_splits)
  then have h: "under_way ext ?reg (Prepared x) = Some t" by (simp only: atomic_output_under_way)
  have lk: "locked (account (balances st) (xfer_from t))" using locks_okD(1) [OF assms(2) h] by simp
  have reg': "reg' = ?reg\<lparr>exec_ids := (exec_ids ?reg)(x := None)\<rparr>"
    and ss: "ss = [AtomicInputState False (content (account (balances st) (xfer_from t)))]"
    using fin lk by (auto simp: finish_atomic_exec_def unlock_input_def split: option.splits)
  have under_way: "under_way ext reg' = (under_way ext ?reg)(Prepared x := None)" unfolding reg' by (rule under_way_simps)
  have "entries_ok ext reg'" if "entries_ok ext ?reg"
    using that unfolding entries_ok_def under_way by (auto simp: reg')
  then show ?thesis
    by (intro that [OF h c under_way _ refl]) (use m' in \<open>auto simp: st' ss split: if_splits\<close>)
qed

section \<open>Every message keeps the invariant\<close>

lemma balance_of_account: "balance_of a st = content (account (balances st) a)"
  by (simp add: balance_of_def account_content)

lemma do_transfer_content:
  "do_transfer a b v m = Inr (r, m') \<Longrightarrow> content (account m' x) =
     content (account m x) - (if x = a \<and> a \<noteq> b then v else 0) + (if x = b then v else 0)"
  by (auto simp: do_transfer_Inr account_upd)

lemma do_transfer_finite: "do_transfer a b v m = Inr (r, m') \<Longrightarrow> finite (dom m) \<Longrightarrow> finite (dom m')"
  by (auto simp: do_transfer_Inr)

text \<open>The tokens that a successful call moves: sender, recipient and amount.\<close>

definition moved ::
    "('a, 'c, 'm) token_externs_scheme \<Rightarrow> ('a, 'n) msg_env_scheme \<Rightarrow> 'a token_call \<Rightarrow> ('a, 'c) token_state \<Rightarrow>
     (actor_id \<times> actor_id \<times> token_amount) option" where
  "moved ext env call st =
     (case call of
        Transfer p \<Rightarrow>
          (case (caller_id ext env, resolved_id ext env (tr_to p)) of
             (Inr a, Inr b) \<Rightarrow> Some (a, b, tr_amount p)
           | _ \<Rightarrow> None)
      | CommitAtomicTransfer cm \<Rightarrow>
          map_option (\<lambda>t. (xfer_from t, xfer_to t, xfer_amount t))
            (under_way ext (atomic_registry st) (Prepared (msg_params (msg cm))))
      | _ \<Rightarrow> None)"

definition moves_to :: "(actor_id \<times> actor_id \<times> token_amount) option \<Rightarrow> ('a, 'c) token_state \<Rightarrow> ('a, 'c) token_state \<Rightarrow> bool" where
  "moves_to mv st st' \<longleftrightarrow>
     (case mv of
        None \<Rightarrow> (\<forall>x. balance_of x st' = balance_of x st) \<and> token_supply (balances st') = token_supply (balances st)
      | Some (a, b, v) \<Rightarrow>
          v \<le> balance_of a st \<and>
          (\<forall>x. balance_of x st' = balance_of x st - (if x = a \<and> a \<noteq> b then v else 0) + (if x = b then v else 0)) \<and>
          token_supply (balances st') = token_supply (balances st) + (if a = b then v else 0))"

text \<open>The atomic transfers that a call starts.\<close>

definition started ::
    "('a, 'c, 'm) token_externs_scheme \<Rightarrow> ('a, 'n) msg_env_scheme \<Rightarrow> 'a token_call \<Rightarrow> 'a atomic_transfer set" where
  "started ext env call =
     {t. \<exists>p. call = InitAtomicTransfer p \<and> xfer_coordinator t = in_coordinator p \<and>
        caller_id ext env = Inr (xfer_from t) \<and> resolved_id ext env (tr_to (in_transfer p)) = Inr (xfer_to t) \<and>
        xfer_amount t = tr_amount (in_transfer p)}"

definition same_token :: "('a, 'c) token_state \<Rightarrow> ('a, 'c) token_state \<Rightarrow> bool" where
  "same_token st st' \<longleftrightarrow> tok_gateway st' = tok_gateway st \<and> tok_ipc_address st' = tok_ipc_address st \<and>
     tok_name st' = tok_name st \<and> tok_symbol st' = tok_symbol st \<and> tok_total st' = tok_total st"

lemma same_content_moves:
  assumes "finite (dom (balances st))" and "balances st' = (balances st)(a \<mapsto> s)" and "content s = content (account (balances st) a)"
  shows "moves_to None st st'"
  using assms supply_upd [OF assms(1), of a s]
  by (auto simp: moves_to_def balance_of_account account_upd)

lemma transfer_moves:
  assumes "finite (dom m)" and "do_transfer a b v m = Inr (r, balances st')"
    and "\<And>x. content (account m x) = balance_of x st" and "token_supply m = token_supply (balances st)"
  shows "moves_to (Some (a, b, v)) st st'"
  using assms do_transfer_supply [OF assms(1,2)] do_transfer_content [OF assms(2)]
  by (auto simp: moves_to_def balance_of_account do_transfer_Inr)

lemma ran_changes:
  "x \<in> ran (h(k := None)) \<Longrightarrow> x \<in> ran h" "x \<in> ran (h(k \<mapsto> t)) \<Longrightarrow> x = t \<or> x \<in> ran h"
  "h k = Some t \<Longrightarrow> ran (h(k := None, k' \<mapsto> t)) \<subseteq> ran h"
  by (auto simp: ran_def split: if_splits)

lemma sent_state:
  "sender_pays sender \<Longrightarrow> send_cross_msg ext sender gw cm w = Inr w' \<Longrightarrow> wstate w' = wstate w"
  by (auto simp: send_cross_msg_def dest: sender_paysD(3))

text \<open>One operation: the invariant is kept, the balances change by what is moved and by nothing else, and the only
  transfers that get under way are new ones.\<close>

definition token_change ::
    "('a, 'c, 'm) token_externs_scheme \<Rightarrow> (actor_id \<times> actor_id \<times> token_amount) option \<Rightarrow> 'a atomic_transfer set \<Rightarrow>
     ('a, 'c) token_state \<Rightarrow> ('a, 'c) token_state \<Rightarrow> bool" where
  "token_change ext mv new st st' \<longleftrightarrow> token_inv ext st' \<and> moves_to mv st st' \<and> same_token st st' \<and>
     ran (under_way ext (atomic_registry st')) \<subseteq> ran (under_way ext (atomic_registry st)) \<union> new"

lemma token_change_refl: "token_inv ext st \<Longrightarrow> token_change ext None new st st"
  by (simp add: token_change_def moves_to_def same_token_def)

lemma token_invD:
  assumes "token_inv ext st"
  shows "finite (dom (balances st))" and "locks_ok (balances st) (under_way ext (atomic_registry st))"
    and "entries_ok ext (atomic_registry st)"
  using assms by (simp_all add: token_inv_def)

lemma transfer_change:
  assumes "transfer a b v st = Inr (r, st')" and inv: "token_inv ext st"
  shows "token_change ext (Some (a, b, v)) {} st st'"
proof -
  note d = token_invD [OF inv]
  from assms(1) obtain r' m where t: "do_transfer a b v (balances st) = Inr (r', m)" and st': "st' = st\<lparr>balances := m\<rparr>"
    by (auto simp: transfer_def)
  have "moves_to (Some (a, b, v)) st st'"
    by (rule transfer_moves [OF d(1)]) (use t in \<open>simp_all add: st' balance_of_account\<close>)
  with locks_ok_transfer [OF d(2) t] do_transfer_finite [OF t d(1)] d(3) show ?thesis
    by (simp add: token_change_def) (simp add: st' token_inv_def same_token_def)
qed

lemma init_change:
  assumes "init_atomic_transfer ext c a b v st = Inr (i, st')" and forms: "transfer_forms_ok ext" and inv: "token_inv ext st"
  shows "token_change ext None {\<lparr>xfer_coordinator = c, xfer_from = a, xfer_to = b, xfer_amount = v\<rparr>} st st'"
  using assms(1,2)
proof (rule init_atomic_transfer_Inr)
  note d = token_invD [OF inv]
  let ?s = "AtomicInputState True (content (account (balances st) a))" and ?h = "under_way ext (atomic_registry st)"
  let ?t = "\<lparr>xfer_coordinator = c, xfer_from = a, xfer_to = b, xfer_amount = v\<rparr>"
  fix reg'
  assume u: "\<not> locked (account (balances st) a)" and v: "v \<le> content (account (balances st) a)"
    and f: "?h (Initiated i) = None" and h: "under_way ext reg' = ?h(Initiated i \<mapsto> ?t)"
    and e: "entries_ok ext (atomic_registry st) \<Longrightarrow> entries_ok ext reg'"
    and st': "st' = st\<lparr>balances := (balances st)(a \<mapsto> ?s), atomic_registry := reg'\<rparr>"
  have "locks_ok ((balances st)(a \<mapsto> ?s)) (under_way ext reg')"
    using locks_ok_start [OF d(2), of ?t "Initiated i" ?s] u v f by (simp add: h)
  moreover have "moves_to None st st'" by (rule same_content_moves [OF d(1), of _ a ?s]) (simp_all add: st')
  ultimately show ?thesis
    using d(1) e [OF d(3)]
    by (simp add: token_change_def) (auto simp: st' h token_inv_def same_token_def dest!: ran_changes(2))
qed

text \<open>Giving up the entry of a transfer and unlocking its account.\<close>

lemma release_change:
  assumes inv: "token_inv ext st" and h: "under_way ext (atomic_registry st) s = Some t"
    and reg': "under_way ext reg' = (under_way ext (atomic_registry st))(s := None)" "entries_ok ext reg'"
    and st': "st' = st\<lparr>balances := (balances st)
        (xfer_from t \<mapsto> AtomicInputState False (content (account (balances st) (xfer_from t)))), atomic_registry := reg'\<rparr>"
  shows "token_change ext None {} st st'"
proof -
  note d = token_invD [OF inv]
  have "moves_to None st st'"
    by (rule same_content_moves [OF d(1), of _ "xfer_from t" "AtomicInputState False (content (account (balances st) (xfer_from t)))"])
      (simp_all add: st')
  moreover have "locks_ok (balances st') (under_way ext reg')" using locks_ok_release [OF d(2) h] by (simp add: reg'(1) st')
  ultimately show ?thesis
    using d(1) reg'(2) by (simp add: token_change_def) (auto simp: st' reg'(1) token_inv_def same_token_def dest!: ran_changes(1))
qed

lemma cancel_change:
  assumes "cancel_atomic_transfer ext a i st = Inr (u, st')" and inv: "token_inv ext st"
  shows "token_change ext None {} st st'"
  using assms(1) token_invD(2) [OF inv]
proof (cases rule: cancel_atomic_transfer_Inr)
  case (1 t reg')
  show ?thesis by (rule release_change [OF inv 1(1,3) 1(4) [OF token_invD(3) [OF inv]]]) (simp add: 1(2,5))
qed

lemma prepare_change:
  assumes "prep_atomic_transfer ext a ids st = Inr ((c, x), st')" and forms: "transfer_forms_ok ext" and inv: "token_inv ext st"
  shows "token_change ext None {} st st'"
  using assms(1,2) token_invD(2) [OF inv]
proof (cases rule: prep_atomic_transfer_Inr)
  case (1 i t reg')
  note d = token_invD [OF inv]
  have "locked (account (balances st) a)" using locks_okD(1) [OF d(2) 1(2)] 1(3) by simp
  then have "balances st a \<noteq> None" by (auto simp: account_def new_input_state_def split: option.splits)
  then have acc: "(balances st)(a \<mapsto> account (balances st) a) = balances st" by (auto simp: account_def fun_eq_iff)
  have "locks_ok (balances st) (under_way ext reg')" unfolding 1(7) by (rule locks_ok_move [OF d(2) 1(2,6)])
  moreover have "ran (under_way ext reg') \<subseteq> ran (under_way ext (atomic_registry st))"
    unfolding 1(7) by (rule ran_changes(3)) (rule 1(2))
  ultimately show ?thesis
    using 1(8) [OF d(3)] d(1)
    by (auto simp: token_change_def 1(9) acc moves_to_def same_token_def token_inv_def balance_of_def)
qed

lemma commit_change:
  assumes "finish_atomic_transfer ext c x True st = Inr (u, st')" and inv: "token_inv ext st"
  shows "token_change ext
    (map_option (\<lambda>t. (xfer_from t, xfer_to t, xfer_amount t)) (under_way ext (atomic_registry st) (Prepared x))) {} st st'"
  using assms(1) token_invD(2) [OF inv]
proof (cases rule: finish_atomic_transfer_Inr)
  case (1 t reg' m)
  note d = token_invD [OF inv]
  from 1(6) obtain r where t: "do_transfer (xfer_from t) (xfer_to t) (xfer_amount t) m = Inr (r, balances st')" by auto
  have m: "finite (dom m)" "\<And>x. content (account m x) = balance_of x st" "token_supply m = token_supply (balances st)"
    using d(1) supply_upd [OF d(1)] by (simp_all add: 1(5) account_upd balance_of_account)
  have "moves_to (Some (xfer_from t, xfer_to t, xfer_amount t)) st st'" by (rule transfer_moves [OF m(1) t m(2,3)])
  moreover have "locks_ok m (under_way ext reg')" unfolding 1(3,5) by (rule locks_ok_release [OF d(2) 1(1)]) simp
  then have "locks_ok (balances st') (under_way ext reg')" by (rule locks_ok_transfer [OF _ t])
  moreover have "atomic_registry st' = reg'" "same_token st st'" by (subst 1(7), simp add: same_token_def)+
  ultimately show ?thesis
    using do_transfer_finite [OF t m(1)] 1(1,3,4) d(3) by (auto simp: token_change_def token_inv_def dest!: ran_changes(1))
qed

lemma rollback_change:
  assumes "finish_atomic_transfer ext c x False st = Inr (u, st')" and inv: "token_inv ext st"
  shows "token_change ext None {} st st'"
  using assms(1) token_invD(2) [OF inv]
proof (cases rule: finish_atomic_transfer_Inr)
  case (1 t reg' m)
  from 1(6) have "balances st' = m" by simp
  with 1(7) have "st' = st\<lparr>balances := m, atomic_registry := reg'\<rparr>" by simp
  then show ?thesis by (intro release_change [OF inv 1(1,3) 1(4) [OF token_invD(3) [OF inv]]]) (simp add: 1(5))
qed

text \<open>One message of the token is one of these operations, or changes nothing.\<close>

lemma token_invoke_change:
  assumes inv: "token_inv ext (wstate w)" and forms: "transfer_forms_ok ext" and pays: "sender_pays sender"
    and call: "token_invoke ext sender env call w = Inr (r, w')"
  shows "token_change ext (moved ext env call (wstate w)) (started ext env call) (wstate w) (wstate w')"
proof -
  have idle: ?thesis if "wstate w' = wstate w" "moved ext env call (wstate w) = None"
    using that token_change_refl [OF inv] by simp
  show ?thesis
  proof (cases call)
    case (Transfer p)
    with call obtain a b r where "caller_id ext env = Inr a" "resolved_id ext env (tr_to p) = Inr b"
      and "transfer a b (tr_amount p) (wstate w) = Inr (r, wstate w')"
      by (auto simp: token_transfer_def)
    with transfer_change [OF this(3) inv] Transfer show ?thesis by (simp add: moved_def token_change_def started_def)
  next
    case (InitAtomicTransfer p)
    with call obtain a b i where
      "caller_id ext env = Inr a" "resolved_id ext env (tr_to (in_transfer p)) = Inr b"
      and "init_atomic_transfer ext (in_coordinator p) a b (tr_amount (in_transfer p)) (wstate w) = Inr (i, wstate w')"
      by (auto simp: token_init_transfer_def)
    with init_change [OF this(3) forms inv] InitAtomicTransfer show ?thesis
      by (auto simp: moved_def token_change_def started_def)
  next
    case (CancelAtomicTransfer i)
    with call obtain a u where "cancel_atomic_transfer ext a i (wstate w) = Inr (u, wstate w')"
      by (auto simp: token_cancel_transfer_def)
    from cancel_change [OF this inv] CancelAtomicTransfer show ?thesis by (simp add: moved_def token_change_def started_def)
  next
    case (PrepareAtomicTransfer ids)
    with call obtain a c x where "prep_atomic_transfer ext a ids (wstate w) = Inr ((c, x), wstate w')"
      by (auto simp: token_prepare_transfer_def Let_def dest!: sent_state [OF pays])
    from prepare_change [OF this forms inv] PrepareAtomicTransfer show ?thesis
      by (simp add: moved_def token_change_def started_def)
  next
    case (CommitAtomicTransfer cm)
    with call obtain u where "finish_atomic_transfer ext (msg_from (msg cm)) (msg_params (msg cm)) True (wstate w) = Inr (u, wstate w')"
      by (auto simp: token_commit_transfer_def commit_atomic_transfer_def)
    from commit_change [OF this inv] CommitAtomicTransfer show ?thesis by (simp add: moved_def token_change_def started_def)
  next
    case (RollbackAtomicTransfer cm)
    with call obtain u where "finish_atomic_transfer ext (msg_from (msg cm)) (msg_params (msg cm)) False (wstate w) = Inr (u, wstate w')"
      by (auto simp: token_rollback_transfer_def rollback_atomic_transfer_def)
    from rollback_change [OF this inv] RollbackAtomicTransfer show ?thesis by (simp add: moved_def token_change_def started_def)
  next
    case (AbortAtomicTransfer p)
    with call have "wstate w' = wstate w"
      by (auto simp: token_abort_transfer_def Let_def dest!: sent_state [OF pays] split: if_splits)
    then show ?thesis by (rule idle) (simp add: AbortAtomicTransfer moved_def)
  qed (rule idle; use call in \<open>auto simp: moved_def\<close>)+
qed

lemma token_step_effect:
  assumes "token_step ext sender w e w'" and "token_inv ext (wstate w)" and "transfer_forms_ok ext" and "sender_pays sender"
  shows "token_inv ext (wstate w') \<and> moves_to (moved ext (fst e) (fst (snd e)) (wstate w)) (wstate w) (wstate w') \<and>
    same_token (wstate w) (wstate w') \<and>
    ran (under_way ext (atomic_registry (wstate w'))) \<subseteq>
      ran (under_way ext (atomic_registry (wstate w))) \<union> started ext (fst e) (fst (snd e))"
  using assms(1)
proof cases
  case (token_message env call r)
  then show ?thesis using token_invoke_change [OF _ assms(3,4) token_message(3)] assms(2) by (simp add: token_change_def)
qed

lemma token_run_inv:
  assumes "run (token_step ext sender) w evs w'" and "token_inv ext (wstate w)" and "transfer_forms_ok ext" and "sender_pays sender"
  shows "token_inv ext (wstate w') \<and> same_token (wstate w) (wstate w')"
proof -
  have "token_inv ext (wstate w') \<and> same_token (wstate w) (wstate w')"
    by (rule run_invariant [OF assms(1), where P = "\<lambda>u. token_inv ext (wstate u) \<and> same_token (wstate w) (wstate u)"])
      (use assms(2) token_step_effect [OF _ _ assms(3,4)] in \<open>auto simp: same_token_def\<close>)
  then show ?thesis .
qed

section \<open>Construction\<close>

lemma add_balances_Inr:
  assumes "add_balances bs (t, m) = Inr (t', m')" and "finite (dom m)" and "\<And>a. \<not> locked (account m a)"
  shows "finite (dom m') \<and> (\<forall>a. \<not> locked (account m' a)) \<and> t' - t = token_supply m' - token_supply m"
  using assms
proof (induction bs arbitrary: t m)
  case (Cons p bs)
  obtain a b where p: "p = (a, b)" by (cases p)
  let ?m = "m(a \<mapsto> new_input_state b)"
  from Cons.prems(1) have none: "m a = None" and r: "add_balances bs (t + b, ?m) = Inr (t', m')"
    by (auto simp: p split: if_splits)
  have "token_supply ?m = token_supply m + b"
    using supply_upd [OF Cons.prems(2), of a "new_input_state b"] none
    by (simp add: account_def new_input_state_def)
  moreover have u: "\<not> locked (account ?m x)" for x using Cons.prems(3) by (simp add: account_upd new_input_state_def)
  have "finite (dom m') \<and> (\<forall>a. \<not> locked (account m' a)) \<and> t' - (t + b) = token_supply m' - token_supply ?m"
    by (rule Cons.IH [OF r _ u]) (use Cons.prems(2) in simp)
  ultimately show ?case by (elim conjE, intro conjI) (assumption | linarith)+
qed simp

lemma new_token_inv:
  assumes "new_token gw addr n s bs = Inr st"
  shows "token_inv ext st" and "token_supply (balances st) = tok_total st" and "under_way ext (atomic_registry st) = Map.empty"
proof -
  from assms obtain t m where a: "add_balances bs (0, Map.empty) = Inr (t, m)"
    and st: "st = \<lparr>tok_gateway = gw, tok_ipc_address = addr, tok_name = n, tok_symbol = s,
          tok_total = t, balances = m, atomic_registry = new_exec_registry\<rparr>"
    by (auto simp: new_token_def)
  have m: "finite (dom m)" "\<And>a. \<not> locked (account m a)" "t = token_supply m"
    using add_balances_Inr [OF a] by (simp_all add: account_def new_input_state_def token_supply_def)
  show h: "under_way ext (atomic_registry st) = Map.empty"
    by (auto simp: st under_way_def new_exec_registry_def fun_eq_iff split: slot.split)
  show "token_inv ext st"
    unfolding token_inv_def h using m by (auto simp: st locks_ok_def entries_ok_def new_exec_registry_def)
  show "token_supply (balances st) = tok_total st" by (simp add: st m(3))
qed

lemma token_constructor_inv:
  assumes "token_constructor ext env params = Inr st"
  shows "token_inv ext st" and "token_supply (balances st) = tok_total st" and "under_way ext (atomic_registry st) = Map.empty"
  using assms new_token_inv by (auto simp: token_constructor_def)

end
