(* ===== verification/Token_Protocol.thy ===== *)
theory Token_Protocol
  imports Token_Inv
begin

text \<open>
  What a token does as a participant of the protocol of atomic executions: which of its calls send
  something to the coordinator, what becomes of the transfers it has prepared, and that an input id is
  used for one preparation only.
\<close>

section \<open>The messages of a participant\<close>

lemma token_step_recorded:
  assumes "send_cross_msg ext recording_send gw m w = Inr w'"
  shows "wstate w' = wstate w" and "wrest w' = wrest w @ [send_cross_req ext gw m]"
  using assms by (auto simp: send_cross_msg_def recording_send_Inr)

definition pre_commit_msg ::
    "('a, 'c, 'm) token_externs_scheme \<Rightarrow> 'a ipc_address \<Rightarrow> ('a ipc_address \<times> atomic_input_id) list \<Rightarrow> 'a cross_msg" where
  "pre_commit_msg ext c ids = exec_msg ext c (method_number ext ''PreCommit'')
     (ser_pre_commit ext \<lparr>pc_actors = map fst ids, pc_exec_id = compute_exec_id ext ids,
        pc_commit = method_number ext ''CommitAtomicTransfer''\<rparr>)"

definition revoke_msg ::
    "('a, 'c, 'm) token_externs_scheme \<Rightarrow> 'a ipc_address \<Rightarrow> 'a abort_params \<Rightarrow> 'a cross_msg" where
  "revoke_msg ext c p = exec_msg ext c (method_number ext ''Revoke'')
     (ser_revoke ext \<lparr>rv_actors = ab_actors p, rv_exec_id = ab_exec_id p,
        rv_rollback = method_number ext ''RollbackAtomicTransfer''\<rparr>)"

lemma finished_under_way:
  assumes "finish_atomic_transfer ext c x commit st = Inr (u, st')"
    and "locks_ok (balances st) (under_way ext (atomic_registry st))"
  shows "\<exists>t. under_way ext (atomic_registry st) (Prepared x) = Some t \<and> c = xfer_coordinator t \<and>
    under_way ext (atomic_registry st') = (under_way ext (atomic_registry st))(Prepared x := None)"
  using assms
proof (cases rule: finish_atomic_transfer_Inr)
  case (1 t reg' m)
  have "atomic_registry st' = reg'" by (subst 1(7)) simp
  with 1 show ?thesis by simp
qed

text \<open>
  The four ways a successful call bears on the prepared transfers: it prepares one, it aborts one, it
  ends one by the word of its coordinator, or it leaves them alone.
\<close>

lemma token_protocol_cases [consumes 3, case_names prepares aborts ends other]:
  assumes "token_step ext recording_send w (env, call, r) w'"
    and "token_inv ext (wstate w)" and "transfer_forms_ok ext"
  defines "U \<equiv> under_way ext (atomic_registry (wstate w))" and "U' \<equiv> under_way ext (atomic_registry (wstate w'))"
  obtains
    (prepares) ids i t where "call = PrepareAtomicTransfer ids"
      "find (\<lambda>p. fst p = tok_ipc_address (wstate w)) ids = Some (tok_ipc_address (wstate w), i)"
      "U (Initiated i) = Some t" "U (Prepared (compute_exec_id ext ids)) = None"
      "U' = U(Initiated i := None, Prepared (compute_exec_id ext ids) \<mapsto> t)"
      "wrest w' = wrest w @ [send_cross_req ext (tok_gateway (wstate w)) (pre_commit_msg ext (xfer_coordinator t) ids)]"
  | (aborts) p t where "call = AbortAtomicTransfer p" "U (Prepared (ab_exec_id p)) = Some t" "wstate w' = wstate w"
      "wrest w' = wrest w @ [send_cross_req ext (tok_gateway (wstate w)) (revoke_msg ext (xfer_coordinator t) p)]"
  | (ends) cm t where "call = CommitAtomicTransfer cm \<or> call = RollbackAtomicTransfer cm"
      "caller env = tok_gateway (wstate w)" "U (Prepared (msg_params (msg cm))) = Some t"
      "msg_from (msg cm) = xfer_coordinator t" "U' = U(Prepared (msg_params (msg cm)) := None)" "wrest w' = wrest w"
  | (other) "\<And>x. U' (Prepared x) = U (Prepared x)" "wrest w' = wrest w"
      "\<And>ids. call \<noteq> PrepareAtomicTransfer ids" "\<And>p. call \<noteq> AbortAtomicTransfer p"
      "\<And>cm. call \<noteq> CommitAtomicTransfer cm \<and> call \<noteq> RollbackAtomicTransfer cm"
proof -
  have lk: "locks_ok (balances (wstate w)) U" using assms(2) by (simp add: token_inv_def U_def)
  from assms(1) have inv: "token_invoke ext recording_send env call (credited env w) = Inr (r, w')" by cases
  have idle: thesis if "atomic_registry (wstate w') = atomic_registry (wstate w)" "wrest w' = wrest w"
      "\<And>ids. call \<noteq> PrepareAtomicTransfer ids" "\<And>p. call \<noteq> AbortAtomicTransfer p"
      "\<And>cm. call \<noteq> CommitAtomicTransfer cm \<and> call \<noteq> RollbackAtomicTransfer cm"
    by (rule other) (use that in \<open>simp_all add: U_def U'_def\<close>)
  show thesis
  proof (cases call)
    case (Transfer p)
    show ?thesis
      by (rule idle) (use inv in \<open>auto simp: Transfer token_transfer_def transfer_def\<close>)
  next
    case (InitAtomicTransfer p)
    with inv obtain a b i where
      ini: "init_atomic_transfer ext (in_coordinator p) a b (tr_amount (in_transfer p)) (wstate w) = Inr (i, wstate w')"
      and rest: "wrest w' = wrest w"
      by (auto simp: token_init_transfer_def)
    from ini assms(3) show ?thesis
      by (rule init_atomic_transfer_Inr) (rule other, use rest in \<open>auto simp: U_def U'_def InitAtomicTransfer\<close>)
  next
    case (CancelAtomicTransfer i)
    with inv obtain a u where c: "cancel_atomic_transfer ext a i (wstate w) = Inr (u, wstate w')"
      and rest: "wrest w' = wrest w" by (auto simp: token_cancel_transfer_def)
    from c lk [unfolded U_def] show ?thesis
      by (rule cancel_atomic_transfer_Inr) (rule other, use rest in \<open>auto simp: U_def U'_def CancelAtomicTransfer\<close>)
  next
    case (PrepareAtomicTransfer ids)
    with inv obtain a c x st' where pr: "prep_atomic_transfer ext a ids (wstate w) = Inr ((c, x), st')"
      and s: "send_cross_msg ext recording_send (tok_gateway (wstate w)) (exec_msg ext c (method_number ext ''PreCommit'')
        (ser_pre_commit ext \<lparr>pc_actors = map fst ids, pc_exec_id = x,
           pc_commit = method_number ext ''CommitAtomicTransfer''\<rparr>)) ((credited env w)\<lparr>wstate := st'\<rparr>) = Inr w'"
      by (auto simp: token_prepare_transfer_def Let_def case_prod_unfold)
    from pr assms(3) lk [unfolded U_def] show ?thesis
    proof (cases rule: prep_atomic_transfer_Inr)
      case (1 i t reg')
      show ?thesis
        by (rule prepares [of ids i t])
          (use 1 token_step_recorded [OF s] in \<open>simp_all add: PrepareAtomicTransfer U_def U'_def pre_commit_msg_def\<close>)
    qed
  next
    case (AbortAtomicTransfer p)
    with inv obtain t where "and_then (atomic_output (de_transfer ext) (ab_exec_id p) (atomic_registry (wstate w))) (ok_or Anyhow) = Inr t"
      and s: "send_cross_msg ext recording_send (tok_gateway (wstate w)) (revoke_msg ext (xfer_coordinator t) p) (credited env w) = Inr w'"
      by (auto simp: token_abort_transfer_def atomic_transfer_coordinator_def revoke_msg_def Let_def split: if_splits)
    then have "U (Prepared (ab_exec_id p)) = Some t" by (simp only: atomic_output_under_way U_def)
    with token_step_recorded [OF s] AbortAtomicTransfer show ?thesis by (intro aborts) simp_all
  next
    case (CommitAtomicTransfer cm)
    with inv obtain u where f: "finish_atomic_transfer ext (msg_from (msg cm)) (msg_params (msg cm)) True (wstate w) = Inr (u, wstate w')"
      and c: "caller env = tok_gateway (wstate w)" and rest: "wrest w' = wrest w"
      by (auto simp: token_commit_transfer_def commit_atomic_transfer_def)
    from finished_under_way [OF f lk [unfolded U_def]] obtain t where "U (Prepared (msg_params (msg cm))) = Some t"
      "msg_from (msg cm) = xfer_coordinator t" "U' = U(Prepared (msg_params (msg cm)) := None)" unfolding U_def U'_def by blast
    with c rest CommitAtomicTransfer show ?thesis by (intro ends) simp_all
  next
    case (RollbackAtomicTransfer cm)
    with inv obtain u where f: "finish_atomic_transfer ext (msg_from (msg cm)) (msg_params (msg cm)) False (wstate w) = Inr (u, wstate w')"
      and c: "caller env = tok_gateway (wstate w)" and rest: "wrest w' = wrest w"
      by (auto simp: token_rollback_transfer_def rollback_atomic_transfer_def)
    from finished_under_way [OF f lk [unfolded U_def]] obtain t where "U (Prepared (msg_params (msg cm))) = Some t"
      "msg_from (msg cm) = xfer_coordinator t" "U' = U(Prepared (msg_params (msg cm)) := None)" unfolding U_def U'_def by blast
    with c rest RollbackAtomicTransfer show ?thesis by (intro ends) simp_all
  qed (rule idle, use inv in auto)+
qed

section \<open>An input id is prepared once\<close>

text \<open>The hash has no collisions, and the form of a number is followed by nothing that could extend it.\<close>

definition input_ids_unique :: "('a, 'c, 'm) token_externs_scheme \<Rightarrow> bool" where
  "input_ids_unique ext \<longleftrightarrow> inj (blake2b256 ext) \<and>
     (\<forall>n n' r r'. cbor_nonce ext n @ r = cbor_nonce ext n' @ r' \<longrightarrow> n = n')"

definition spent :: "('a, 'c, 'm) token_externs_scheme \<Rightarrow> atomic_input_id \<Rightarrow> 'c exec_registry \<Rightarrow> bool" where
  "spent ext i reg \<longleftrightarrow> input_ids reg i = None \<and>
     (\<exists>n rest. n < exec_nonce reg \<and> i = blake2b256 ext (cbor_nonce ext n @ rest))"

lemma spent_not_initiated: "spent ext i reg \<Longrightarrow> under_way ext reg (Initiated i) = None"
  by (simp add: spent_def under_way_def)

lemma input_ids_unique_nonce:
  "input_ids_unique ext \<Longrightarrow> blake2b256 ext (cbor_nonce ext n @ r) = blake2b256 ext (cbor_nonce ext n' @ r') \<Longrightarrow> n = n'"
  unfolding input_ids_unique_def by (blast dest: injD)

lemma init_keeps_spent:
  assumes "init_atomic_transfer ext c a b v st = Inr (j, st')" and "input_ids_unique ext"
    and "spent ext i (atomic_registry st)"
  shows "spent ext i (atomic_registry st')"
proof -
  from assms(1) obtain inp ss reg' where
    "init_atomic_exec ext (account_lockable ext) [account (balances st) a] inp True (atomic_registry st) = Inr ((j, ss), reg')"
    and st': "atomic_registry st' = reg'"
    by (auto simp: init_atomic_transfer_def Let_def split: if_splits)
  then show ?thesis
  proof (cases rule: init_atomic_exec_Inr)
    case (1 cids inp n)
    from assms(3) obtain k rest where k: "k < exec_nonce (atomic_registry st)" "i = blake2b256 ext (cbor_nonce ext k @ rest)"
      and i: "input_ids (atomic_registry st) i = None" by (auto simp: spent_def)
    have "i \<noteq> j" using k input_ids_unique_nonce [OF assms(2)] 1(5) by blast
    with i k u64_incr_less [OF 1(3)] show ?thesis
      unfolding st' 1(6) spent_def by (auto intro!: exI [of _ k])
  qed
qed

lemma token_step_keeps_spent:
  assumes "token_step ext sender w e w'" and "sender_pays sender" and "input_ids_unique ext"
    and "spent ext i (atomic_registry (wstate w))"
  shows "spent ext i (atomic_registry (wstate w'))"
  using assms(1)
proof cases
  case (token_message env call r)
  show ?thesis
  proof (cases call)
    case (InitAtomicTransfer p)
    with token_message obtain a b j where
      "init_atomic_transfer ext (in_coordinator p) a b (tr_amount (in_transfer p)) (wstate w) = Inr (j, wstate w')"
      by (auto simp: token_init_transfer_def)
    from init_keeps_spent [OF this assms(3,4)] show ?thesis .
  next
    case (PrepareAtomicTransfer ids)
    with token_message obtain own a ss out x reg' where
      "prepare_atomic_exec ext (account_lockable ext) own ids [account (balances (wstate w)) a] out (atomic_registry (wstate w)) = Inr ((x, ss), reg')"
      and "atomic_registry (wstate w') = reg'"
      by (auto simp: token_prepare_transfer_def prep_atomic_transfer_def Let_def case_prod_unfold split: if_splits
          dest!: sent_state [OF assms(2)])
    with assms(4) show ?thesis by (auto elim!: prepare_atomic_exec_Inr simp: spent_def)
  qed (use token_message(3) assms(4) in \<open>auto simp: token_transfer_def transfer_def token_cancel_transfer_def cancel_atomic_transfer_def
      cancel_atomic_exec_def token_commit_transfer_def commit_atomic_transfer_def token_rollback_transfer_def rollback_atomic_transfer_def
      finish_atomic_transfer_def finish_atomic_exec_def token_abort_transfer_def Let_def spent_def
      split: if_splits option.splits dest!: sent_state [OF assms(2)]\<close>)
qed

lemma initiated_spent:
  assumes "token_inv ext (wstate w)" and "under_way ext (atomic_registry (wstate w)) (Initiated i) = Some t"
    and "token_step ext recording_send w (env, PrepareAtomicTransfer ids, r) w'"
    and "under_way ext (atomic_registry (wstate w')) (Initiated i) = None" and "token_inv ext (wstate w')"
  shows "spent ext i (atomic_registry (wstate w'))"
proof -
  from assms(3) obtain own a ss out x reg' where
    "prepare_atomic_exec ext (account_lockable ext) own ids [account (balances (wstate w)) a] out (atomic_registry (wstate w)) = Inr ((x, ss), reg')"
    and reg': "atomic_registry (wstate w') = reg'"
    by (auto simp: token_step_simps token_prepare_transfer_def prep_atomic_transfer_def Let_def case_prod_unfold split: if_splits
        dest!: sent_state [OF sender_pays_recording])
  then have n: "exec_nonce reg' = exec_nonce (atomic_registry (wstate w))" by (auto elim!: prepare_atomic_exec_Inr)
  obtain e where "input_ids (atomic_registry (wstate w)) i = Some e" using under_way_Some(1) [OF assms(2)] by blast
  with assms(1) obtain k rest where "k < exec_nonce (atomic_registry (wstate w))" "i = blake2b256 ext (cbor_nonce ext k @ rest)"
    unfolding token_inv_def entries_ok_def by blast
  moreover have "input_ids reg' i = None"
    using assms(4,5) unfolding token_inv_def entries_ok_def reg' by (metis option.exhaust)
  ultimately show ?thesis by (auto simp: spent_def reg' n)
qed

end
