(* ===== verification/Token_Props.thy ===== *)
theory Token_Props
  imports Token_Inv
begin

text \<open>
  The properties of the token actor: what its ledger conserves, who can move tokens, and that an atomic
  transfer can be started and ended.
\<close>

section \<open>A sample token\<close>

definition sample_coordinator :: "nat ipc_address" where
  "sample_coordinator = \<lparr>subnet_of = \<lparr>root = 1, children = []\<rparr>, raw_address = 90\<rparr>"

definition sample_read :: "raw_bytes \<Rightarrow> nat atomic_transfer res" where
  "sample_read bs =
     (case bs of
        [a, b, v] \<Rightarrow> Inr \<lparr>xfer_coordinator = sample_coordinator, xfer_from = ucast a, xfer_to = ucast b, xfer_amount = uint v\<rparr>
      | _ \<Rightarrow> Inl Anyhow)"

text \<open>A form that refuses what does not fit into its three bytes.\<close>

definition sample_write :: "nat atomic_transfer \<Rightarrow> raw_bytes res" where
  "sample_write t =
     (let bs = [ucast (xfer_from t), ucast (xfer_to t), word_of_int (xfer_amount t)]
      in if sample_read bs = Inr t then Inr bs else Inl Anyhow)"

definition sample_tok_ext :: "(nat, nat) token_externs" where
  "sample_tok_ext = \<lparr>blake2b256 = (\<lambda>b. b), cbor_actors = (\<lambda>_. []), ser_pre_commit = (\<lambda>p. pc_exec_id p),
     de_pre_commit = (\<lambda>b. Inr \<lparr>pc_actors = [\<lparr>subnet_of = \<lparr>root = 1, children = []\<rparr>, raw_address = 7\<rparr>],
       pc_exec_id = b, pc_commit = 5\<rparr>), ser_revoke = (\<lambda>p. rv_exec_id p), de_revoke = (\<lambda>_. Inl Anyhow),
     show_address = (\<lambda>_. []), zero_bls = 0, method_number = (\<lambda>_. 5), init_actor = 1,
     cbor_nonce = (\<lambda>n. replicate (unat n) 1 @ [0]), cbor_cid = (\<lambda>c. [of_nat c]),
     cbor_inputs = (\<lambda>ids. concat (map (\<lambda>p. case p of (_, i) \<Rightarrow> i) ids)),
     ser_transfer = sample_write, de_transfer = sample_read, account_cid = (\<lambda>s. nat (content s)),
     id_of = (\<lambda>n. Some (of_nat n)), parse_addr = (\<lambda>s. Some (length s))\<rparr>"

lemma sample_forms: "transfer_forms_ok sample_tok_ext"
  by (simp add: transfer_forms_ok_def sample_tok_ext_def sample_write_def Let_def)

definition sample_tok_params :: "nat token_params" where
  "sample_tok_params = \<lparr>tp_gateway = 64, tp_subnet_id = \<lparr>root = 1, children = []\<rparr>, tp_name = ''T'', tp_symbol = ''t'',
     tp_balances = [(''aa'', 100), (''aaa'', 50)]\<rparr>"

definition tok_env :: "nat \<Rightarrow> nat msg_env" where
  "tok_env a = \<lparr>caller = a, receiver = 7, value_received = 0, curr_epoch = 25, caller_signable = True,
     resolve_address = Some\<rparr>"

definition sample_token :: "(nat, nat, (nat, nat cross_msg) send_req list) tok_world" where
  "sample_token = \<lparr>wstate = \<lparr>tok_gateway = 64, tok_ipc_address = \<lparr>subnet_of = \<lparr>root = 1, children = []\<rparr>, raw_address = 7\<rparr>,
     tok_name = ''T'', tok_symbol = ''t'', tok_total = 150,
     balances = [2 \<mapsto> AtomicInputState False 100, 3 \<mapsto> AtomicInputState False 50],
     atomic_registry = new_exec_registry\<rparr>, wbalance = 0, wrest = []\<rparr>"

lemma sample_token_constructed: "token_constructor sample_tok_ext (tok_env 1) sample_tok_params = Inr (wstate sample_token)"
  by (simp add: token_constructor_def validate_caller_is_def resolved_id_def new_token_def new_input_state_def
      sample_tok_ext_def tok_env_def sample_tok_params_def sample_token_def new_ipc_address_def fun_upd_twist)

lemmas token_eval = token_transfer_def token_init_transfer_def token_prepare_transfer_def caller_id_def resolved_id_def
  transfer_def do_transfer_def modify_def get_mut_def account_def init_atomic_transfer_def prep_atomic_transfer_def
  init_atomic_exec_def prepare_atomic_exec_def atomic_input_def lock_input_def new_input_id_def compute_exec_id_def
  send_cross_msg_def send_cross_req_def recording_send_def exec_msg_def transaction_def credited_def u64_incr_def Let_def

lemmas sample_token_defs = sample_tok_ext_def sample_write_def sample_read_def tok_env_def sample_token_def
  sample_coordinator_def new_exec_registry_def

definition sample_init :: "nat init_transfer_params" where
  "sample_init = \<lparr>in_coordinator = sample_coordinator, in_transfer = \<lparr>tr_to = 3, tr_amount = 30\<rparr>\<rparr>"

lemma token_fold_run:
  assumes "fold_res (\<lambda>e w. and_then (token_invoke ext sender (fst e) (snd e) (credited (fst e) w)) (\<lambda>(_, w'). Inr w')) es w = Inr w'"
    and "\<forall>e \<in> set es. 0 \<le> value_received (fst e)"
  shows "\<exists>evs. map (\<lambda>(env, call, r). (env, call)) evs = es \<and> run (token_step ext sender) w evs w'"
  using assms
proof (induction es arbitrary: w)
  case Nil
  then show ?case by auto
next
  case (Cons e es)
  from Cons.prems(1) obtain r w1 where w1: "token_invoke ext sender (fst e) (snd e) (credited (fst e) w) = Inr (r, w1)"
    "fold_res (\<lambda>e w. and_then (token_invoke ext sender (fst e) (snd e) (credited (fst e) w)) (\<lambda>(_, w'). Inr w')) es w1 = Inr w'" by auto
  have s: "token_step ext sender w (fst e, snd e, r) w1" using Cons.prems(2) w1(1) by (intro token_message) simp_all
  from Cons.IH [OF w1(2)] Cons.prems(2) obtain evs where "map (\<lambda>(env, call, r). (env, call)) evs = es"
    "run (token_step ext sender) w1 evs w'" by auto
  with s show ?case by (intro exI [of _ "(fst e, snd e, r) # evs"]) (auto intro: run_cons)
qed

text \<open>The account of 2 initiates a transfer of 30 to 3 and prepares it.\<close>

lemma sample_prepared:
  "\<exists>evs w'. map (\<lambda>(env, call, r). (env, call)) evs =
       [(tok_env 2, InitAtomicTransfer sample_init),
        (tok_env 2, PrepareAtomicTransfer [(\<lparr>subnet_of = \<lparr>root = 1, children = []\<rparr>, raw_address = 7\<rparr>, [0, 2, 3, 30])])] \<and>
     run (token_step sample_tok_ext recording_send) sample_token evs w' \<and>
     under_way sample_tok_ext (atomic_registry (wstate w')) (Prepared [0, 2, 3, 30]) =
       Some \<lparr>xfer_coordinator = sample_coordinator, xfer_from = 2, xfer_to = 3, xfer_amount = 30\<rparr> \<and>
     \<not> locked (account (balances (wstate w')) 3) \<and> tok_gateway (wstate w') = 64"
proof -
  let ?es = "[(tok_env 2, InitAtomicTransfer sample_init),
        (tok_env 2, PrepareAtomicTransfer [(\<lparr>subnet_of = \<lparr>root = 1, children = []\<rparr>, raw_address = 7\<rparr>, [0, 2, 3, 30])])]"
  have "\<exists>w'. fold_res (\<lambda>e w. and_then (token_invoke sample_tok_ext recording_send (fst e) (snd e) (credited (fst e) w)) (\<lambda>(_, w'). Inr w')) ?es sample_token = Inr w' \<and>
     under_way sample_tok_ext (atomic_registry (wstate w')) (Prepared [0, 2, 3, 30]) =
       Some \<lparr>xfer_coordinator = sample_coordinator, xfer_from = 2, xfer_to = 3, xfer_amount = 30\<rparr> \<and>
     \<not> locked (account (balances (wstate w')) 3) \<and> tok_gateway (wstate w') = 64"
    by (simp add: token_eval sample_token_defs sample_init_def under_way_def)
  then obtain w' where f: "fold_res (\<lambda>e w. and_then (token_invoke sample_tok_ext recording_send (fst e) (snd e) (credited (fst e) w)) (\<lambda>(_, w'). Inr w')) ?es sample_token = Inr w'"
    and r: "under_way sample_tok_ext (atomic_registry (wstate w')) (Prepared [0, 2, 3, 30]) =
       Some \<lparr>xfer_coordinator = sample_coordinator, xfer_from = 2, xfer_to = 3, xfer_amount = 30\<rparr>"
     "\<not> locked (account (balances (wstate w')) 3)" "tok_gateway (wstate w') = 64" by blast
  have "\<forall>e \<in> set ?es. 0 \<le> value_received (fst e)" by (simp add: tok_env_def)
  from token_fold_run [OF f this] r show ?thesis by (elim exE conjE, intro exI conjI) assumption+
qed

section \<open>The ledger\<close>

definition no_self_transfer :: "('a, 'c, 'm) token_externs_scheme \<Rightarrow> 'a msg_env \<times> 'a token_call \<times> token_answer \<Rightarrow> bool" where
  "no_self_transfer ext e =
     (case e of (env, call, _) \<Rightarrow>
        (case call of
           Transfer p \<Rightarrow> caller_id ext env \<noteq> resolved_id ext env (tr_to p)
         | InitAtomicTransfer p \<Rightarrow> caller_id ext env \<noteq> resolved_id ext env (tr_to (in_transfer p))
         | _ \<Rightarrow> True))"

text \<open>
  C16: as long as nobody sends tokens to himself, whatever the order of transfers, atomic transfers, commits,
  rollbacks and refused messages, the balances always add up to the total supply, which never changes.
\<close>

theorem supply_conserved:
  assumes "token_constructor ext env0 params = Inr (wstate w)" and "run (token_step ext sender) w evs w'"
    and "\<forall>e \<in> set evs. no_self_transfer ext e" and "transfer_forms_ok ext" and "sender_pays sender"
  shows "token_supply (balances (wstate w')) = tok_total (wstate w') \<and> tok_total (wstate w') = tok_total (wstate w)"
proof -
  note c = token_constructor_inv [OF assms(1)]
  have "token_inv ext (wstate w') \<and> (\<forall>t \<in> ran (under_way ext (atomic_registry (wstate w'))). xfer_from t \<noteq> xfer_to t) \<and>
      token_supply (balances (wstate w')) = token_supply (balances (wstate w)) \<and>
      tok_total (wstate w') = tok_total (wstate w)"
    if "run (token_step ext sender) w evs w'" "\<forall>e \<in> set evs. no_self_transfer ext e" "token_inv ext (wstate w)"
      "\<forall>t \<in> ran (under_way ext (atomic_registry (wstate w))). xfer_from t \<noteq> xfer_to t" for w
    using that
  proof (induction rule: run.induct)
    case (run_cons s e t es u)
    obtain env call r where e: "e = (env, call, r)" by (cases e)
    from token_step_effect [OF run_cons.hyps(1) run_cons.prems(2) assms(4,5)]
    have i: "token_inv ext (wstate t)" and mv: "moves_to (moved ext env call (wstate s)) (wstate s) (wstate t)"
      and same: "same_token (wstate s) (wstate t)"
      and h: "ran (under_way ext (atomic_registry (wstate t))) \<subseteq> ran (under_way ext (atomic_registry (wstate s))) \<union> started ext env call"
      by (simp_all add: e)
    have ns: "no_self_transfer ext (env, call, r)" using run_cons.prems(1) by (simp add: e)
    have "\<forall>t' \<in> ran (under_way ext (atomic_registry (wstate t))). xfer_from t' \<noteq> xfer_to t'"
      using h run_cons.prems(3) ns by (fastforce simp: started_def no_self_transfer_def)
    moreover have "token_supply (balances (wstate t)) = token_supply (balances (wstate s))"
    proof (cases "moved ext env call (wstate s)")
      case None
      with mv show ?thesis by (simp add: moves_to_def)
    next
      case (Some m)
      obtain a b v where m: "m = (a, b, v)" by (cases m)
      have "a \<noteq> b"
        using Some ns run_cons.prems(3) unfolding m
        by (auto simp: moved_def no_self_transfer_def ran_def split: token_call.splits sum.splits)
      with mv Some show ?thesis by (simp add: m moves_to_def)
    qed
    ultimately show ?case
      using run_cons.IH run_cons.prems(1) i same by (simp add: same_token_def)
  qed simp
  from this [OF assms(2,3) c(1)] c(2,3) show ?thesis by simp
qed

theorem supply_conserved_witness:
  "\<exists>w' :: (nat, nat, (nat, nat cross_msg) send_req list) tok_world.
     under_way sample_tok_ext (atomic_registry (wstate w')) (Prepared [0, 2, 3, 30]) \<noteq> None \<and>
     token_supply (balances (wstate w')) = tok_total (wstate w')"
proof -
  from sample_prepared obtain evs w' where e: "map (\<lambda>(env, call, r). (env, call)) evs =
       [(tok_env 2, InitAtomicTransfer sample_init),
        (tok_env 2, PrepareAtomicTransfer [(\<lparr>subnet_of = \<lparr>root = 1, children = []\<rparr>, raw_address = 7\<rparr>, [0, 2, 3, 30])])]"
    and r: "run (token_step sample_tok_ext recording_send) sample_token evs w'"
    and h: "under_way sample_tok_ext (atomic_registry (wstate w')) (Prepared [0, 2, 3, 30]) =
       Some \<lparr>xfer_coordinator = sample_coordinator, xfer_from = 2, xfer_to = 3, xfer_amount = 30\<rparr>"
    by (elim exE conjE) 
  have "\<forall>e \<in> set evs. no_self_transfer sample_tok_ext e"
    using e by (auto simp: map_eq_Cons_conv no_self_transfer_def sample_tok_ext_def tok_env_def caller_id_def
        resolved_id_def sample_init_def)
  from supply_conserved [OF sample_token_constructed r this sample_forms sender_pays_recording] h show ?thesis by auto
qed

text \<open>
  C17: the accounts that are locked are exactly the senders of the atomic transfers under way, initiated or
  prepared; every account is the sender of at most one of them and its balance covers the amount.
\<close>

theorem locked_accounts_under_way:
  assumes "token_constructor ext env0 params = Inr (wstate w)" and "run (token_step ext sender) w evs w'"
    and "transfer_forms_ok ext" and "sender_pays sender"
  defines "h \<equiv> under_way ext (atomic_registry (wstate w'))"
  shows "{a. locked (account (balances (wstate w')) a)} = xfer_from ` ran h \<and>
     inj_on (\<lambda>k. xfer_from (the (h k))) (dom h) \<and>
     (\<forall>t \<in> ran h. xfer_amount t \<le> balance_of (xfer_from t) (wstate w'))"
proof -
  from token_run_inv [OF assms(2) token_constructor_inv(1) [OF assms(1)] assms(3,4)]
  have "locks_ok (balances (wstate w')) h" by (simp add: token_inv_def h_def)
  note d = locks_okD [OF this]
  have "{a. locked (account (balances (wstate w')) a)} = xfer_from ` ran h"
    using d(1,3) by (fastforce simp: ran_def)
  moreover have "inj_on (\<lambda>k. xfer_from (the (h k))) (dom h)"
    by (rule inj_onI) (auto dest: d(2))
  ultimately show ?thesis using d(1) by (auto simp: ran_def balance_of_account)
qed

theorem locked_accounts_under_way_witness:
  "\<exists>w' :: (nat, nat, (nat, nat cross_msg) send_req list) tok_world. locked (account (balances (wstate w')) 2) \<and>
     {a. locked (account (balances (wstate w')) a)} = xfer_from ` ran (under_way sample_tok_ext (atomic_registry (wstate w')))"
proof -
  from sample_prepared obtain evs w' where
    r: "run (token_step sample_tok_ext recording_send) sample_token evs w'"
    and h: "under_way sample_tok_ext (atomic_registry (wstate w')) (Prepared [0, 2, 3, 30]) =
       Some \<lparr>xfer_coordinator = sample_coordinator, xfer_from = 2, xfer_to = 3, xfer_amount = 30\<rparr>"
    by (elim exE conjE)
  from locked_accounts_under_way [OF sample_token_constructed r sample_forms sender_pays_recording]
  have l: "{a. locked (account (balances (wstate w')) a)} = xfer_from ` ran (under_way sample_tok_ext (atomic_registry (wstate w')))"
    by simp
  moreover have "2 \<in> xfer_from ` ran (under_way sample_tok_ext (atomic_registry (wstate w')))"
    by (rule image_eqI [OF _ ranI], rule sym, rule atomic_transfer.select_convs(2)) (rule h)
  then have "locked (account (balances (wstate w')) 2)" unfolding l [symmetric] by simp
  ultimately show ?thesis by blast
qed

section \<open>Who can move tokens\<close>

text \<open>
  C18: a message lowers the balance of an account only if its owner sends a transfer, if the gateway
  delivers the commit of an atomic transfer from it sent by the coordinator it was initiated with, or if
  somebody sends it a negative amount.
\<close>

theorem debit_needs_authority:
  assumes "token_constructor ext env0 params = Inr (wstate w0)" and "run (token_step ext sender) w0 evs w"
    and "transfer_forms_ok ext" and "sender_pays sender"
    and "token_step ext sender w (env, call, r) w'" and "balance_of a (wstate w') < balance_of a (wstate w)"
  shows "(\<exists>p. call = Transfer p \<and>
       (caller_id ext env = Inr a \<and> 0 < tr_amount p \<or>
        resolved_id ext env (tr_to p) = Inr a \<and> tr_amount p < 0)) \<or>
    (\<exists>cm t. call = CommitAtomicTransfer cm \<and> caller env = tok_gateway (wstate w) \<and>
       under_way ext (atomic_registry (wstate w)) (Prepared (msg_params (msg cm))) = Some t \<and>
       msg_from (msg cm) = xfer_coordinator t \<and>
       (xfer_from t = a \<and> 0 < xfer_amount t \<or> xfer_to t = a \<and> xfer_amount t < 0))"
proof -
  have inv: "token_inv ext (wstate w)"
    using token_run_inv [OF assms(2) token_constructor_inv(1) [OF assms(1)] assms(3,4)] by simp
  have mv: "moves_to (moved ext env call (wstate w)) (wstate w) (wstate w')"
    using token_step_effect [OF assms(5) inv assms(3,4)] by simp
  from mv assms(6) obtain b c v where m: "moved ext env call (wstate w) = Some (b, c, v)"
    by (cases "moved ext env call (wstate w)") (auto simp: moves_to_def)
  with mv assms(6) have v: "b = a \<and> 0 < v \<or> c = a \<and> v < 0"
    by (auto simp: moves_to_def split: if_splits)
  show ?thesis
  proof (cases call)
    case (Transfer p)
    with m v show ?thesis by (auto simp: moved_def split: sum.splits)
  next
    case (CommitAtomicTransfer cm)
    from m obtain t where t: "under_way ext (atomic_registry (wstate w)) (Prepared (msg_params (msg cm))) = Some t"
      and bcv: "b = xfer_from t" "c = xfer_to t" "v = xfer_amount t" by (auto simp: CommitAtomicTransfer moved_def)
    from assms(5) obtain u where g: "caller env = tok_gateway (wstate w)"
      and f: "finish_atomic_transfer ext (msg_from (msg cm)) (msg_params (msg cm)) True (wstate w) = Inr (u, wstate w')"
      by (auto simp: token_step_simps CommitAtomicTransfer token_commit_transfer_def commit_atomic_transfer_def)
    from f have "msg_from (msg cm) = xfer_coordinator t"
      by (rule finish_atomic_transfer_Inr) (use inv t in \<open>auto simp: token_inv_def\<close>)
    with CommitAtomicTransfer g t v bcv show ?thesis by auto
  qed (use m in \<open>auto simp: moved_def\<close>)
qed

theorem debit_needs_authority_witness:
  "\<exists>w'. token_step sample_tok_ext recording_send sample_token
       (tok_env 2, Transfer \<lparr>tr_to = 3, tr_amount = 30\<rparr>, Balances \<lparr>from_balance = 70, to_balance = 80\<rparr>) w' \<and>
     balance_of 2 (wstate w') < balance_of 2 (wstate sample_token) \<and> caller_id sample_tok_ext (tok_env 2) = Inr 2"
proof -
  obtain w' where s: "token_step sample_tok_ext recording_send sample_token
       (tok_env 2, Transfer \<lparr>tr_to = 3, tr_amount = 30\<rparr>, Balances \<lparr>from_balance = 70, to_balance = 80\<rparr>) w'"
    and l: "balance_of 2 (wstate w') < balance_of 2 (wstate sample_token)"
    by (simp add: token_step_simps token_eval sample_token_defs balance_of_def)
  from debit_needs_authority [OF sample_token_constructed run_nil sample_forms sender_pays_recording s l]
  have "caller_id sample_tok_ext (tok_env 2) = Inr 2" by (auto simp: sample_tok_ext_def caller_id_def tok_env_def)
  with s l show ?thesis by blast
qed

text \<open>
  A transfer to oneself creates tokens. Both accounts are read before either is written, and the
  recipient's is written last, so the amount is added and never taken off: the balance and with it the
  sum of the balances grow by the amount, while the total supply stays.
\<close>

theorem self_transfer_mints:
  assumes "token_inv ext (wstate w)" and "caller_id ext env = Inr a" and "resolved_id ext env (tr_to p) = Inr a"
    and "\<not> locked (account (balances (wstate w)) a)" and "tr_amount p \<le> balance_of a (wstate w)"
  shows "\<exists>r w'. token_transfer ext env p w = Inr (r, w') \<and>
     balance_of a (wstate w') = balance_of a (wstate w) + tr_amount p \<and>
     token_supply (balances (wstate w')) = token_supply (balances (wstate w)) + tr_amount p \<and>
     tok_total (wstate w') = tok_total (wstate w)"
proof -
  let ?m = "balances (wstate w)" and ?v = "tr_amount p"
  have fin: "finite (dom ?m)" using assms(1) by (simp add: token_inv_def)
  obtain rr m where d: "do_transfer a a ?v ?m = Inr (rr, m)"
    using assms(4,5) by (auto simp: do_transfer_Inr balance_of_account)
  then have t: "token_transfer ext env p w =
      Inr (\<lparr>from_balance = fst rr, to_balance = snd rr\<rparr>, w\<lparr>wstate := (wstate w)\<lparr>balances := m\<rparr>\<rparr>)"
    using assms(2,3) by (simp add: token_transfer_def transfer_def transaction_def case_prod_beta)
  show ?thesis
    unfolding t using do_transfer_supply [OF fin d] do_transfer_content [OF d, of a] by (simp add: balance_of_account)
qed

theorem self_transfer_mints_witness:
  "\<exists>r w'. token_transfer sample_tok_ext (tok_env 2) \<lparr>tr_to = 2, tr_amount = 60\<rparr> sample_token = Inr (r, w') \<and>
     balance_of 2 (wstate w') = 160 \<and> tok_total (wstate w') = 150"
proof -
  have "token_inv sample_tok_ext (wstate sample_token)"
    by (rule token_constructor_inv(1) [OF sample_token_constructed])
  moreover have "caller_id sample_tok_ext (tok_env 2) = Inr 2"
    "resolved_id sample_tok_ext (tok_env 2) (tr_to \<lparr>tr_to = 2, tr_amount = 60\<rparr>) = Inr 2"
    "\<not> locked (account (balances (wstate sample_token)) 2)"
    "tr_amount \<lparr>tr_to = 2, tr_amount = 60\<rparr> \<le> balance_of 2 (wstate sample_token)"
    by (simp_all add: token_eval sample_token_defs balance_of_def)
  ultimately show ?thesis
    by (rule self_transfer_mints [THEN exE]) (auto simp: balance_of_def sample_token_def)
qed

text \<open>
  The sign of an amount is not checked, so a transfer of a negative amount takes tokens from the
  recipient, who need neither agree nor have them: the caller gains what the recipient loses, down to
  a negative balance.
\<close>

theorem negative_transfer_takes:
  assumes "caller_id ext env = Inr a" and "resolved_id ext env (tr_to p) = Inr b" and "a \<noteq> b"
    and "\<not> locked (account (balances (wstate w)) a)" and "\<not> locked (account (balances (wstate w)) b)"
    and "0 \<le> balance_of a (wstate w)" and "tr_amount p = - v" and "0 < v"
  shows "\<exists>r w'. token_transfer ext env p w = Inr (r, w') \<and>
     balance_of a (wstate w') = balance_of a (wstate w) + v \<and> balance_of b (wstate w') = balance_of b (wstate w) - v"
proof -
  obtain rr m where d: "do_transfer a b (- v) (balances (wstate w)) = Inr (rr, m)"
    using assms(4-6,8) by (auto simp: do_transfer_Inr balance_of_account)
  then have t: "token_transfer ext env p w =
      Inr (\<lparr>from_balance = fst rr, to_balance = snd rr\<rparr>, w\<lparr>wstate := (wstate w)\<lparr>balances := m\<rparr>\<rparr>)"
    using assms(1,2,7) by (simp add: token_transfer_def transfer_def transaction_def case_prod_beta)
  show ?thesis
    unfolding t using do_transfer_content [OF d] assms(3) by (simp add: balance_of_account)
qed

theorem negative_transfer_takes_witness:
  "\<exists>r w'. token_transfer sample_tok_ext (tok_env 9) \<lparr>tr_to = 3, tr_amount = - 60\<rparr> sample_token = Inr (r, w') \<and>
     balance_of 9 (wstate w') = 60 \<and> balance_of 3 (wstate w') = - 10"
proof -
  have "\<exists>r w'. token_transfer sample_tok_ext (tok_env 9) \<lparr>tr_to = 3, tr_amount = - 60\<rparr> sample_token = Inr (r, w') \<and>
     balance_of 9 (wstate w') = balance_of 9 (wstate sample_token) + 60 \<and>
     balance_of 3 (wstate w') = balance_of 3 (wstate sample_token) - 60"
    by (rule negative_transfer_takes) (simp_all add: token_eval sample_token_defs balance_of_def new_input_state_def)
  then show ?thesis by (simp add: balance_of_def sample_token_def)
qed

text \<open>
  Two texts of the same account in the initial table are no error, contrary to what the state's
  constructor checks for: the table is collected by id before, so the first amount is lost and the
  total supply counts only the last.
\<close>

theorem duplicate_initial_balances_lost:
  assumes "parse_addr ext s = Some x" and "parse_addr ext s' = Some x'"
    and "resolved_id ext env x = Inr i" and "resolved_id ext env x' = Inr i"
    and "caller env = init_actor ext"
  shows "\<exists>st. token_constructor ext env (params\<lparr>tp_balances := [(s, b), (s', b')]\<rparr>) = Inr st \<and>
     balance_of i st = b' \<and> tok_total st = b' \<and>
     new_token gw addr name symbol [(i, b), (i, b')] = Inl Anyhow"
  using assms by (simp add: token_constructor_def new_token_def balance_of_def new_input_state_def)

theorem duplicate_initial_balances_lost_witness:
  "\<exists>st. token_constructor (sample_tok_ext\<lparr>parse_addr := \<lambda>_. Some 2\<rparr>) (tok_env 1)
       (sample_tok_params\<lparr>tp_balances := [(''f02'', 100), (''f1xyz'', 7)]\<rparr>) = Inr st \<and>
     balance_of 2 st = 7 \<and> tok_total st = 7"
proof -
  have "\<exists>st. token_constructor (sample_tok_ext\<lparr>parse_addr := \<lambda>_. Some 2\<rparr>) (tok_env 1)
       (sample_tok_params\<lparr>tp_balances := [(''f02'', 100), (''f1xyz'', 7)]\<rparr>) = Inr st \<and>
     balance_of 2 st = 7 \<and> tok_total st = 7 \<and>
     new_token 64 sample_coordinator ''T'' ''t'' [(2, 100), (2, 7)] = (Inl Anyhow :: (nat, nat) token_state res)"
    by (rule duplicate_initial_balances_lost [where x = 2 and x' = 2])
      (simp_all add: sample_tok_ext_def resolved_id_def tok_env_def)
  then show ?thesis by blast
qed

section \<open>The end of an atomic transfer\<close>

lemma finish_under_way:
  assumes "under_way ext (atomic_registry st) (Prepared x) = Some t" and "locked (account (balances st) (xfer_from t))"
  defines "m \<equiv> (balances st)(xfer_from t \<mapsto> AtomicInputState False (content (account (balances st) (xfer_from t))))"
  shows "finish_atomic_transfer ext (xfer_coordinator t) x commit st =
    and_then (if commit then and_then (do_transfer (xfer_from t) (xfer_to t) (xfer_amount t) m) (\<lambda>(_, m'). Inr m') else Inr m)
      (\<lambda>m'. Inr ((), st\<lparr>balances := m', atomic_registry := (atomic_registry st)\<lparr>exec_ids := (exec_ids (atomic_registry st))(x := None)\<rparr>\<rparr>))"
proof -
  have o: "and_then (atomic_output (de_transfer ext) x (atomic_registry st)) (ok_or Anyhow) = Inr t"
    using assms(1) by (simp only: atomic_output_under_way)
  then obtain o' where o': "atomic_output (de_transfer ext) x (atomic_registry st) = Inr o'" "o' = Some t" by auto
  obtain out where "exec_ids (atomic_registry st) x = Some out" using under_way_Some(2) [OF assms(1)] by blast
  then have "finish_atomic_exec (account_lockable ext) x [account (balances st) (xfer_from t)] (atomic_registry st) =
      Inr ([AtomicInputState False (content (account (balances st) (xfer_from t)))],
           (atomic_registry st)\<lparr>exec_ids := (exec_ids (atomic_registry st))(x := None)\<rparr>)"
    using assms(2) by (simp add: finish_atomic_exec_def unlock_input_def)
  then show ?thesis by (simp add: finish_atomic_transfer_def o' m_def Let_def)
qed


definition sample_commit :: "nat cross_msg" where
  "sample_commit = \<lparr>msg = \<lparr>msg_from = sample_coordinator, msg_to = \<lparr>subnet_of = \<lparr>root = 1, children = []\<rparr>, raw_address = 7\<rparr>,
     msg_method = 5, msg_params = [0, 2, 3, 30], msg_value = 0, msg_nonce = 0\<rparr>, wrapped = True\<rparr>"


section \<open>Starting an atomic transfer\<close>

text \<open>
  With a hash without collisions and a prefix-free form of numbers, no history makes a new input id
  collide with a pending one: whoever has the balance and is not locked can initiate an atomic
  transfer, until the nonce overflows.
\<close>

theorem atomic_transfer_can_start:
  assumes "token_constructor ext env0 params = Inr (wstate w0)" and "run (token_step ext sender) w0 evs w"
    and "transfer_forms_ok ext" and "sender_pays sender"
    and "inj (blake2b256 ext)" and "\<And>n n' r r'. cbor_nonce ext n @ r = cbor_nonce ext n' @ r' \<Longrightarrow> n = n'"
    and "\<not> locked (account (balances (wstate w)) a)" and "v \<le> balance_of a (wstate w)"
    and "exec_nonce (atomic_registry (wstate w)) \<noteq> - 1"
    and "ser_transfer ext \<lparr>xfer_coordinator = c, xfer_from = a, xfer_to = b, xfer_amount = v\<rparr> = Inr form"
  shows "\<exists>i st'. init_atomic_transfer ext c a b v (wstate w) = Inr (i, st') \<and>
     under_way ext (atomic_registry st') (Initiated i) =
       Some \<lparr>xfer_coordinator = c, xfer_from = a, xfer_to = b, xfer_amount = v\<rparr> \<and>
     locked (account (balances st') a)"
proof -
  let ?st = "wstate w" and ?t = "\<lparr>xfer_coordinator = c, xfer_from = a, xfer_to = b, xfer_amount = v\<rparr>"
  let ?reg = "atomic_registry ?st"
  let ?i = "blake2b256 ext (cbor_nonce ext (exec_nonce ?reg) @ form)"
  have ent: "entries_ok ext ?reg"
    using token_run_inv [OF assms(2) token_constructor_inv(1) [OF assms(1)] assms(3,4)] by (simp add: token_inv_def)
  have fresh: "input_ids ?reg ?i = None"
  proof (rule ccontr)
    assume "input_ids ?reg ?i \<noteq> None"
    then obtain e where "input_ids ?reg ?i = Some e" by blast
    with ent obtain n rest where n: "n < exec_nonce ?reg" "?i = blake2b256 ext (cbor_nonce ext n @ rest)"
      unfolding entries_ok_def by blast
    then have "cbor_nonce ext (exec_nonce ?reg) @ form = cbor_nonce ext n @ rest" using injD [OF assms(5)] by blast
    from assms(6) [OF this] n(1) show False by simp
  qed
  then obtain st' where i: "init_atomic_transfer ext c a b v ?st = Inr (?i, st')"
    using assms(7-10)
    by (simp add: init_atomic_transfer_def init_atomic_exec_def new_input_id_def lock_input_def u64_incr_def
        balance_of_account Let_def)
  from i assms(3) show ?thesis
    by (rule init_atomic_transfer_Inr) (use i in \<open>simp add: account_upd\<close>)
qed

lemma unary_prefix_free: "replicate m (1 :: 8 word) @ 0 # r = replicate n 1 @ 0 # r' \<Longrightarrow> m = n"
proof (induction m arbitrary: n)
  case 0
  then show ?case by (cases n) auto
next
  case (Suc m)
  then show ?case by (cases n) auto
qed

theorem atomic_transfer_can_start_witness:
  "\<exists>i st'. init_atomic_transfer sample_tok_ext sample_coordinator 2 3 30 (wstate sample_token) = Inr (i, st') \<and>
     locked (account (balances st') 2)"
proof -
  have "inj (blake2b256 sample_tok_ext)" by (simp add: sample_tok_ext_def)
  moreover have "cbor_nonce sample_tok_ext n @ r = cbor_nonce sample_tok_ext n' @ r' \<Longrightarrow> n = n'" for n n' r r'
    by (auto simp: sample_tok_ext_def word_unat_eq_iff dest!: unary_prefix_free)
  moreover have "\<not> locked (account (balances (wstate sample_token)) 2)" "30 \<le> balance_of 2 (wstate sample_token)"
    "exec_nonce (atomic_registry (wstate sample_token)) \<noteq> - 1"
    "ser_transfer sample_tok_ext \<lparr>xfer_coordinator = sample_coordinator, xfer_from = 2, xfer_to = 3, xfer_amount = 30\<rparr> = Inr [2, 3, 30]"
    by (simp_all add: sample_token_defs account_def balance_of_def Let_def)
  ultimately show ?thesis
    using atomic_transfer_can_start [OF sample_token_constructed run_nil sample_forms sender_pays_recording,
        of 2 30 sample_coordinator 3 "[2, 3, 30]"] by blast
qed

end
