(* ===== verification/Coordinator.thy ===== *)
theory Coordinator
  imports Atomic_Exec
begin

text \<open>
  What the coordinator of atomic executions guarantees: its registry implements a ledger of
  pre-commitments, and the commits of an execution are sent exactly when every participant has
  pre-committed and not revoked since.
\<close>

section \<open>The registry as a ledger of pre-commitments\<close>

definition entry_of :: "'a coordinator \<Rightarrow> registry_key \<Rightarrow> registry_entry" where
  "entry_of st k = (case registry st k of None \<Rightarrow> Map.empty | Some e \<Rightarrow> e)"

lemma entry_of_upd [simp]:
  "entry_of (st\<lparr>registry := (registry st)(k := e)\<rparr>) k' =
     (if k' = k then case e of None \<Rightarrow> Map.empty | Some x \<Rightarrow> x else entry_of st k')"
  by (simp add: entry_of_def)

abbreviation actor_text :: "('a, 'm) coord_externs_scheme \<Rightarrow> 'a ipc_address \<Rightarrow> string" where
  "actor_text ext \<equiv> ipc_to_string (show_address ext)"

lemma commit_msgs_all:
  "all_committed ext actors entry \<Longrightarrow> commit_msgs ext exec_id entry actors =
     Inr (map (\<lambda>a. exec_msg ext a (the (entry (actor_text ext a))) exec_id) actors)"
  by (induction actors) (auto simp: all_committed_def)

lemma record_commit_Inr:
  assumes "record_commit ext a p entry = Inr (m, entry')"
  shows "entry' = entry(actor_text ext a \<mapsto> pc_commit p)"
    and "m = (if all_committed ext (pc_actors p) entry'
      then Some (map (\<lambda>a. exec_msg ext a (the (entry' (actor_text ext a))) (pc_exec_id p)) (pc_actors p))
      else None)"
  using assms by (auto simp: record_commit_def Let_def commit_msgs_all split: if_splits)

lemma send_loop_state:
  assumes "sender_pays sender" and "fold_res (send_cross_msg ext sender gw) ms w = Inr w'"
  shows "wstate w' = wstate w"
  by (rule fold_res_invariant [OF _ assms(2), where P = "\<lambda>u. wstate u = wstate w"])
    (use assms(1) in \<open>auto simp: send_cross_msg_def dest: sender_paysD(3)\<close>)

lemma send_loop_records:
  "fold_res (send_cross_msg ext recording_send gw) ms w = Inr w' \<Longrightarrow>
     wrest w' = wrest w @ map (send_cross_req ext gw) ms"
  by (induction ms arbitrary: w) (auto simp: send_cross_msg_def recording_send_Inr)

text \<open>A successful pre-commitment either waits, or is complete, sends the commits and clears the entry.\<close>

lemma pre_commit_Inr:
  assumes "pre_commit ext sender env cm w = Inr (b, w')" and "sender_pays sender"
  obtains p entry k w2 where "de_pre_commit ext (msg_params (msg cm)) = Inr p" "msg_from (msg cm) \<in> set (pc_actors p)"
    "caller env = coord_gateway (wstate w)"
    "k = registry_key_of ext (pc_exec_id p) (pc_actors p)"
    "entry = (entry_of (wstate w) k)(actor_text ext (msg_from (msg cm)) \<mapsto> pc_commit p)"
    "b = all_committed ext (pc_actors p) entry"
    "wstate w' = (wstate w)\<lparr>registry := (registry (wstate w))(k := if b then None else Some entry)\<rparr>"
    "if b then wrest w' = wrest w2 \<and> fold_res (send_cross_msg ext sender (coord_gateway (wstate w)))
          (map (\<lambda>a. exec_msg ext a (the (entry (actor_text ext a))) (pc_exec_id p)) (pc_actors p))
          (w\<lparr>wstate := (wstate w)\<lparr>registry := (registry (wstate w))(k \<mapsto> entry)\<rparr>\<rparr>) = Inr w2
     else wrest w' = wrest w"
proof -
  let ?gw = "coord_gateway (wstate w)" and ?from = "msg_from (msg cm)"
  from assms(1) obtain p m st1 where c: "caller env = ?gw" and p: "de_pre_commit ext (msg_params (msg cm)) = Inr p"
    and mem: "?from \<in> set (pc_actors p)"
    and mod: "modify_atomic_exec ext (pc_exec_id p) (pc_actors p) (record_commit ext ?from p) (wstate w) = Inr (m, st1)"
    and rest: "case m of None \<Rightarrow> (b, w') = (False, w\<lparr>wstate := st1\<rparr>)
      | Some ms \<Rightarrow> \<exists>w2. fold_res (send_cross_msg ext sender ?gw) ms (w\<lparr>wstate := st1\<rparr>) = Inr w2 \<and>
          b = True \<and> w' = w2\<lparr>wstate := (wstate w2)\<lparr>registry :=
            (registry (wstate w2))(registry_key_of ext (pc_exec_id p) (pc_actors p) := None)\<rparr>\<rparr>"
    by (auto simp: pre_commit_def Let_def rm_atomic_exec_def split: if_splits option.splits)
  let ?k = "registry_key_of ext (pc_exec_id p) (pc_actors p)"
  from mod obtain entry' where rc: "record_commit ext ?from p (entry_of (wstate w) ?k) = Inr (m, entry')"
    and st1: "st1 = (wstate w)\<lparr>registry := (registry (wstate w))(?k \<mapsto> entry')\<rparr>"
    by (auto simp: modify_atomic_exec_def Let_def entry_of_def)
  note r = record_commit_Inr [OF rc]
  show ?thesis
  proof (cases "all_committed ext (pc_actors p) entry'")
    case False
    with r rest show ?thesis
      by (intro that [where p = p and k = ?k and entry = entry']) (use p mem c in \<open>simp_all add: st1\<close>)
  next
    case True
    with r rest obtain w2 where f: "fold_res (send_cross_msg ext sender ?gw)
          (map (\<lambda>a. exec_msg ext a (the (entry' (actor_text ext a))) (pc_exec_id p)) (pc_actors p))
          (w\<lparr>wstate := st1\<rparr>) = Inr w2"
      and b: "b" and w': "w' = w2\<lparr>wstate := (wstate w2)\<lparr>registry := (registry (wstate w2))(?k := None)\<rparr>\<rparr>"
      by auto
    have "wstate w2 = st1" using send_loop_state [OF assms(2) f] by simp
    with True r f b w' show ?thesis
      by (intro that [where p = p and k = ?k and entry = entry' and ?w2.0 = w2])
        (use p mem c in \<open>simp_all add: st1\<close>)
  qed
qed

lemma revoke_Inr:
  assumes "revoke ext sender env cm w = Inr (u, w')" and "sender_pays sender"
  obtains p k w1 where "de_revoke ext (msg_params (msg cm)) = Inr p" "msg_from (msg cm) \<in> set (rv_actors p)"
    "caller env = coord_gateway (wstate w)"
    "k = registry_key_of ext (rv_exec_id p) (rv_actors p)"
    "wstate w' = (wstate w)\<lparr>registry := (registry (wstate w))(k \<mapsto>
       (entry_of (wstate w) k)(actor_text ext (msg_from (msg cm)) := None))\<rparr>"
    "wrest w1 = wrest w" "send_cross_msg ext sender (coord_gateway (wstate w))
       (exec_msg ext (msg_from (msg cm)) (rv_rollback p) (rv_exec_id p)) w1 = Inr w'"
proof -
  from assms(1) obtain p st1 where c: "caller env = coord_gateway (wstate w)"
    and p: "de_revoke ext (msg_params (msg cm)) = Inr p" and mem: "msg_from (msg cm) \<in> set (rv_actors p)"
    and st1: "st1 = (wstate w)\<lparr>registry := (registry (wstate w))(registry_key_of ext (rv_exec_id p) (rv_actors p) \<mapsto>
       (entry_of (wstate w) (registry_key_of ext (rv_exec_id p) (rv_actors p)))(actor_text ext (msg_from (msg cm)) := None))\<rparr>"
    and s: "send_cross_msg ext sender (coord_gateway (wstate w))
       (exec_msg ext (msg_from (msg cm)) (rv_rollback p) (rv_exec_id p)) (w\<lparr>wstate := st1\<rparr>) = Inr w'"
    by (auto simp: revoke_def Let_def modify_atomic_exec_def entry_of_def split: if_splits)
  moreover have "wstate w' = st1"
    using s assms(2) by (auto simp: send_cross_msg_def dest: sender_paysD(3))
  ultimately show ?thesis by (intro that [OF p mem c refl, of "w\<lparr>wstate := st1\<rparr>"]) simp_all
qed

section \<open>The protocol as a ledger\<close>

text \<open>
  The abstract coordinator: pre-commitments and revocations per execution, newest first, and what is
  pending after them. A completed execution starts from nothing again.
\<close>

datatype coord_event =
    Committed registry_key string u64 bool
  | Revoked registry_key string

fun pending :: "coord_event list \<Rightarrow> registry_key \<Rightarrow> registry_entry" where
  "pending [] k x = None"
| "pending (Committed k' n m complete # es) k x =
     (if k' \<noteq> k then pending es k x
      else if complete then None
      else if n = x then Some m else pending es k x)"
| "pending (Revoked k' n # es) k x = (if k' = k \<and> n = x then None else pending es k x)"

fun coord_event_of :: "('a, 'm) coord_externs_scheme \<Rightarrow> 'a msg_env \<times> 'a coord_call \<times> bool \<Rightarrow> coord_event option" where
  "coord_event_of ext (env, PreCommit cm, b) =
     (case de_pre_commit ext (msg_params (msg cm)) of
        Inl _ \<Rightarrow> None
      | Inr p \<Rightarrow> Some (Committed (registry_key_of ext (pc_exec_id p) (pc_actors p))
          (actor_text ext (msg_from (msg cm))) (pc_commit p) b))"
| "coord_event_of ext (env, Revoke cm, b) =
     (case de_revoke ext (msg_params (msg cm)) of
        Inl _ \<Rightarrow> None
      | Inr p \<Rightarrow> Some (Revoked (registry_key_of ext (rv_exec_id p) (rv_actors p))
          (actor_text ext (msg_from (msg cm)))))"

inductive coord_step ::
    "('a, 'm) coord_externs_scheme \<Rightarrow> ('a, 'a cross_msg, 'a coordinator, 'x) sender \<Rightarrow>
     ('a coordinator, 'x) world \<Rightarrow> 'a msg_env \<times> 'a coord_call \<times> bool \<Rightarrow> ('a coordinator, 'x) world \<Rightarrow> bool"
  for ext :: "('a, 'm) coord_externs_scheme" and sender :: "('a, 'a cross_msg, 'a coordinator, 'x) sender" where
  coord_message: "0 \<le> value_received env \<Longrightarrow>
     coord_invoke ext sender env call (credited env w) = Inr (b, w') \<Longrightarrow>
     coord_step ext sender w (env, call, b) w'"

inductive_cases coord_stepE: "coord_step ext sender w e w'"

text \<open>One step of the coordinator is one event of the ledger.\<close>

lemma coord_step_pending:
  assumes "coord_step ext sender w e w'" and "sender_pays sender"
  shows "coord_gateway (wstate w') = coord_gateway (wstate w) \<and>
    (\<exists>ev. coord_event_of ext e = Some ev \<and>
       (\<forall>es k. (\<forall>k. entry_of (wstate w) k = pending es k) \<longrightarrow> entry_of (wstate w') k = pending (ev # es) k))"
  using assms(1)
proof cases
  case (coord_message env call b)
  show ?thesis
  proof (cases call)
    case (PreCommit cm)
    with coord_message have "pre_commit ext sender env cm (credited env w) = Inr (b, w')" by simp
    from this assms(2) show ?thesis
    proof (cases rule: pre_commit_Inr)
      case (1 p entry k w2)
      then show ?thesis
        by (auto simp: PreCommit coord_message(1) fun_eq_iff split: if_splits)
    qed
  next
    case (Revoke cm)
    with coord_message obtain u where "revoke ext sender env cm (credited env w) = Inr (u, w')" by auto
    from this assms(2) show ?thesis
    proof (cases rule: revoke_Inr)
      case (1 p k w1)
      then show ?thesis by (auto simp: Revoke coord_message(1) fun_eq_iff)
    qed
  qed
qed

lemma coord_run_pending:
  assumes "run (coord_step ext sender) w evs w'" and "sender_pays sender"
    and "\<And>k. entry_of (wstate w) k = pending es k"
  shows "coord_gateway (wstate w') = coord_gateway (wstate w)"
    and "entry_of (wstate w') k = pending (rev (List.map_filter (coord_event_of ext) evs) @ es) k"
proof -
  have "coord_gateway (wstate w') = coord_gateway (wstate w) \<and>
      (\<forall>k. entry_of (wstate w') k = pending (rev (List.map_filter (coord_event_of ext) evs) @ es) k)"
    using assms(1,3)
  proof (induction arbitrary: es rule: run.induct)
    case (run_nil s)
    then show ?case by (simp add: map_filter_simps)
  next
    case (run_cons s e t es' u)
    from coord_step_pending [OF run_cons.hyps(1) assms(2)] obtain ev where
      ev: "coord_event_of ext e = Some ev" "coord_gateway (wstate t) = coord_gateway (wstate s)"
        "\<And>k. entry_of (wstate t) k = pending (ev # es) k" using run_cons.prems by metis
    from run_cons.IH [OF ev(3)] ev(1,2) show ?case by (simp add: map_filter_simps)
  qed
  then show "coord_gateway (wstate w') = coord_gateway (wstate w)"
    and "entry_of (wstate w') k = pending (rev (List.map_filter (coord_event_of ext) evs) @ es) k" by simp_all
qed

section \<open>Properties\<close>

text \<open>
  C23: the registry of the coordinator implements the ledger: after any messages, what it holds for an
  execution is, per participant, the method of the last pre-commitment since the execution was last
  completed, unless that participant has revoked it.
\<close>

theorem coordinator_refines_ledger:
  assumes "run (coord_step ext sender) w evs w'" and "sender_pays sender" and "wstate w = new_coordinator gw"
  shows "entry_of (wstate w') = pending (rev (List.map_filter (coord_event_of ext) evs)) \<and>
    coord_gateway (wstate w') = gw"
proof -
  have "entry_of (wstate w) k = pending [] k" for k
    by (simp add: assms(3) new_coordinator_def entry_of_def fun_eq_iff)
  from coord_run_pending [OF assms(1,2) this] assms(3) show ?thesis
    by (simp add: new_coordinator_def fun_eq_iff)
qed

text \<open>
  C15: the coordinator sends the commits of an execution exactly when all participants have pre-committed
  and none has revoked since: then every participant is sent, in order, the method it has asked for
  itself, with the id of the execution, and otherwise nothing is sent.
\<close>

theorem commits_exactly_when_all_precommitted:
  assumes "run (coord_step ext recording_send) w evs w1" and "wstate w = new_coordinator gw"
    and "pre_commit ext recording_send env cm w1 = Inr (b, w2)"
    and "de_pre_commit ext (msg_params (msg cm)) = Inr p"
  defines "votes \<equiv> pending (Committed (registry_key_of ext (pc_exec_id p) (pc_actors p))
      (actor_text ext (msg_from (msg cm))) (pc_commit p) False # rev (List.map_filter (coord_event_of ext) evs))
      (registry_key_of ext (pc_exec_id p) (pc_actors p))"
  shows "(b \<longleftrightarrow> actor_text ext ` set (pc_actors p) \<subseteq> dom votes) \<and> caller env = gw \<and>
    wrest w2 = wrest w1 @
      (if b then map (\<lambda>a. send_cross_req ext gw (exec_msg ext a (the (votes (actor_text ext a))) (pc_exec_id p)))
              (pc_actors p)
       else [])"
proof -
  have start: "entry_of (wstate w) k = pending [] k" for k
    by (simp add: assms(2) new_coordinator_def entry_of_def fun_eq_iff)
  note h = coord_run_pending [OF assms(1) sender_pays_recording start]
  have gw: "coord_gateway (wstate w1) = gw" using h(1) assms(2) by (simp add: new_coordinator_def)
  let ?k = "registry_key_of ext (pc_exec_id p) (pc_actors p)" and ?n = "actor_text ext (msg_from (msg cm))"
  have votes: "(entry_of (wstate w1) ?k)(?n \<mapsto> pc_commit p) = votes"
    by (auto simp: votes_def h(2) fun_eq_iff)
  from assms(3) sender_pays_recording show ?thesis
  proof (cases rule: pre_commit_Inr)
    case (1 p' entry k w2')
    then have [simp]: "p' = p" "k = ?k" "entry = votes" using assms(4) votes by auto
    have "all_committed ext (pc_actors p) votes \<longleftrightarrow> actor_text ext ` set (pc_actors p) \<subseteq> dom votes"
      by (auto simp: all_committed_def list_all_iff)
    with 1 gw show ?thesis by (auto simp: comp_def dest!: send_loop_records split: if_splits)
  qed
qed

text \<open>A coordinator with two participants, the hash and the forms being the bytes themselves.\<close>

definition sample_coord_ext :: "nat coord_externs" where
  "sample_coord_ext = \<lparr>blake2b256 = (\<lambda>b. b), cbor_actors = (\<lambda>as. map (\<lambda>a. of_nat (raw_address a)) as),
     ser_pre_commit = (\<lambda>p. of_nat (length (pc_actors p)) # map (\<lambda>a. of_nat (raw_address a)) (pc_actors p)),
     de_pre_commit = (\<lambda>b. case b of [] \<Rightarrow> Inl Anyhow
       | m # as \<Rightarrow> Inr \<lparr>pc_actors = map (\<lambda>x. \<lparr>subnet_of = \<lparr>root = 1, children = []\<rparr>, raw_address = unat x\<rparr>) as,
            pc_exec_id = [9], pc_commit = ucast m\<rparr>),
     ser_revoke = (\<lambda>p. []),
     de_revoke = (\<lambda>b. case b of [] \<Rightarrow> Inl Anyhow
       | m # as \<Rightarrow> Inr \<lparr>rv_actors = map (\<lambda>x. \<lparr>subnet_of = \<lparr>root = 1, children = []\<rparr>, raw_address = unat x\<rparr>) as,
            rv_exec_id = [9], rv_rollback = ucast m\<rparr>),
     show_address = (\<lambda>n. replicate n CHR ''a''), zero_bls = 0, method_number = (\<lambda>_. 5), init_actor = 1\<rparr>"

definition sample_precommit :: "nat \<Rightarrow> 8 word \<Rightarrow> nat cross_msg" where
  "sample_precommit a m = \<lparr>msg = \<lparr>msg_from = \<lparr>subnet_of = \<lparr>root = 1, children = []\<rparr>, raw_address = a\<rparr>,
      msg_to = \<lparr>subnet_of = \<lparr>root = 1, children = []\<rparr>, raw_address = 7\<rparr>, msg_method = 2,
      msg_params = [m, 3, 4], msg_value = 0, msg_nonce = 0\<rparr>, wrapped = True\<rparr>"

definition coord_env :: "nat msg_env" where
  "coord_env = \<lparr>caller = 64, receiver = 7, value_received = 0, curr_epoch = 25, caller_signable = False,
     resolve_address = Some\<rparr>"

definition sample_coord :: "(nat coordinator, (nat, nat cross_msg) send_req list) world" where
  "sample_coord = \<lparr>wstate = new_coordinator 64, wbalance = 0, wrest = []\<rparr>"

lemmas coord_eval = pre_commit_def modify_atomic_exec_def record_commit_def all_committed_def rm_atomic_exec_def
  registry_key_of_def ipc_to_string_def subnet_to_string_def send_cross_msg_def send_cross_req_def
  recording_send_def exec_msg_def new_coordinator_def validate_caller_is_def transaction_def credited_def
  sample_coord_ext_def sample_precommit_def coord_env_def sample_coord_def Let_def

lemma sample_first_precommit:
  "\<exists>w1. run (coord_step sample_coord_ext recording_send) sample_coord
       [(coord_env, PreCommit (sample_precommit 3 11), False)] w1 \<and>
     (\<exists>w2. pre_commit sample_coord_ext recording_send coord_env (sample_precommit 4 12) w1 = Inr (True, w2))"
proof -
  have "\<exists>w1. pre_commit sample_coord_ext recording_send coord_env (sample_precommit 3 11) (credited coord_env sample_coord) = Inr (False, w1) \<and>
     (\<exists>w2. pre_commit sample_coord_ext recording_send coord_env (sample_precommit 4 12) w1 = Inr (True, w2))"
    by (simp add: coord_eval) 
  then obtain w1 where w1: "pre_commit sample_coord_ext recording_send coord_env (sample_precommit 3 11) (credited coord_env sample_coord) = Inr (False, w1)"
    and w2: "\<exists>w2. pre_commit sample_coord_ext recording_send coord_env (sample_precommit 4 12) w1 = Inr (True, w2)" by blast
  have "coord_step sample_coord_ext recording_send sample_coord (coord_env, PreCommit (sample_precommit 3 11), False) w1"
    by (rule coord_message) (use w1 in \<open>simp_all add: coord_env_def\<close>)
  with w2 show ?thesis by (blast intro: run_cons run_nil)
qed

theorem coordinator_refines_ledger_witness:
  "\<exists>w' :: (nat coordinator, (nat, nat cross_msg) send_req list) world. entry_of (wstate w') [9, 3, 4] (actor_text sample_coord_ext \<lparr>subnet_of = \<lparr>root = 1, children = []\<rparr>, raw_address = 3\<rparr>) = Some 11"
proof -
  from sample_first_precommit obtain w1 where r: "run (coord_step sample_coord_ext recording_send) sample_coord
       [(coord_env, PreCommit (sample_precommit 3 11), False)] w1" by blast
  have "wstate sample_coord = new_coordinator 64" by (simp add: sample_coord_def)
  from coordinator_refines_ledger [OF r sender_pays_recording this] show ?thesis
    by (intro exI [of _ w1]) (simp add: map_filter_simps sample_coord_ext_def sample_precommit_def registry_key_of_def)
qed

theorem commits_exactly_when_all_precommitted_witness:
  "\<exists>(w2 :: (nat coordinator, (nat, nat cross_msg) send_req list) world) reqs. wrest w2 = reqs \<and> length reqs = 2 \<and> map (\<lambda>r. msg_method (msg (sr_params r))) reqs = [11, 12] \<and>
     map (\<lambda>r. raw_address (msg_to (msg (sr_params r)))) reqs = [3, 4]"
proof -
  from sample_first_precommit obtain w1 w2 where r: "run (coord_step sample_coord_ext recording_send) sample_coord
       [(coord_env, PreCommit (sample_precommit 3 11), False)] w1"
    and p: "pre_commit sample_coord_ext recording_send coord_env (sample_precommit 4 12) w1 = Inr (True, w2)" by blast
  have s: "wstate sample_coord = new_coordinator 64" by (simp add: sample_coord_def)
  obtain pp where pp: "de_pre_commit sample_coord_ext (msg_params (msg (sample_precommit 4 12))) = Inr pp"
    and d: "pp = \<lparr>pc_actors = [\<lparr>subnet_of = \<lparr>root = 1, children = []\<rparr>, raw_address = 3\<rparr>,
       \<lparr>subnet_of = \<lparr>root = 1, children = []\<rparr>, raw_address = 4\<rparr>], pc_exec_id = [9], pc_commit = 12\<rparr>"
    by (simp add: sample_coord_ext_def sample_precommit_def)
  have "wrest w1 = []"
    using r by (auto elim!: run_ConsE coord_stepE simp: coord_eval)
  from commits_exactly_when_all_precommitted [OF r s p pp] this show ?thesis
    by (intro exI [of _ w2])
     (simp add: d map_filter_simps sample_coord_ext_def sample_precommit_def registry_key_of_def ipc_to_string_def send_cross_req_def exec_msg_def)
qed

end
