(* ===== verification/Atomic_Protocol.thy ===== *)
theory Atomic_Protocol
  imports Token_Props Coordinator
begin

text \<open>
  Tokens, the coordinator of atomic executions and the gateway together.
\<close>

section \<open>The way through the coordinator\<close>

lemma recording_send_loop:
  "0 \<le> wbalance w \<Longrightarrow> \<exists>w'. fold_res (send_cross_msg ext recording_send gw) ms w = Inr w' \<and> wbalance w' = wbalance w"
proof (induction ms arbitrary: w)
  case (Cons m ms)
  let ?w = "w\<lparr>wrest := wrest w @ [send_cross_req ext gw m]\<rparr>"
  have "send_cross_msg ext recording_send gw m w = Inr ?w"
    using Cons.prems by (simp add: send_cross_msg_def recording_send_def send_cross_req_def)
  with Cons.IH [of ?w] Cons.prems show ?case by simp
qed simp

lemma pre_commit_accepts:
  assumes "caller env = coord_gateway (wstate w)" and "de_pre_commit ext (msg_params (msg cm)) = Inr p"
    and "msg_from (msg cm) \<in> set (pc_actors p)" and "0 \<le> wbalance w"
  shows "\<exists>b w'. pre_commit ext recording_send env cm w = Inr (b, w')"
proof -
  let ?k = "registry_key_of ext (pc_exec_id p) (pc_actors p)"
  let ?e = "(entry_of (wstate w) ?k)(actor_text ext (msg_from (msg cm)) \<mapsto> pc_commit p)"
  let ?w1 = "w\<lparr>wstate := (wstate w)\<lparr>registry := (registry (wstate w))(?k \<mapsto> ?e)\<rparr>\<rparr>"
  have m: "modify_atomic_exec ext (pc_exec_id p) (pc_actors p) (record_commit ext (msg_from (msg cm)) p) (wstate w) =
      Inr (if all_committed ext (pc_actors p) ?e
           then Some (map (\<lambda>a. exec_msg ext a (the (?e (actor_text ext a))) (pc_exec_id p)) (pc_actors p)) else None,
           wstate ?w1)"
    by (simp add: modify_atomic_exec_def record_commit_def Let_def commit_msgs_all entry_of_def)
  obtain w2 where "fold_res (send_cross_msg ext recording_send (coord_gateway (wstate w)))
      (map (\<lambda>a. exec_msg ext a (the (?e (actor_text ext a))) (pc_exec_id p)) (pc_actors p)) ?w1 = Inr w2"
    using recording_send_loop [of ?w1] assms(4) by force
  with assms m show ?thesis
    by (cases "all_committed ext (pc_actors p) ?e")
      (auto simp: pre_commit_def transaction_def rm_atomic_exec_def validate_caller_is_def)
qed

lemma case_fst: "(\<lambda>p. case p of (a, _) \<Rightarrow> a) = fst"
  by (auto simp: fun_eq_iff)

text \<open>The message as the gateway forwards it: the sender is the address the gateway knows the caller by.\<close>

definition forwarded :: "'a ipc_address \<Rightarrow> 'a cross_msg \<Rightarrow> 'a cross_msg" where
  "forwarded a cm = cm\<lparr>msg := (msg cm)\<lparr>msg_from := a\<rparr>\<rparr>"

text \<open>
  What a token sends when a transfer is prepared is a pre-commitment that the coordinator understands.
  It goes to the coordinator the transfer was initiated with; forwarded under the token's own address it
  is accepted in every state of that coordinator, which then either holds the token's commit method
  for exactly this execution, or had all the others already and has sent the commits.
\<close>

theorem prepare_reaches_coordinator:
  assumes "token_constructor ext env0 params = Inr (wstate w0)" and "run (token_step ext recording_send) w0 evs w"
    and "transfer_forms_ok ext" 
    and "\<And>p. pc_actors p = map fst ids \<Longrightarrow> pc_commit p = method_number ext ''CommitAtomicTransfer'' \<Longrightarrow>
      de_pre_commit ext (ser_pre_commit ext p) = Inr p"
    and "token_prepare_transfer ext recording_send env ids w = Inr (x, w')"
    and "caller cenv = coord_gateway (wstate cw)" and "0 \<le> wbalance cw"
  shows "\<exists>t m b cw'. under_way ext (atomic_registry (wstate w')) (Prepared x) = Some t \<and>
     caller_id ext env = Inr (xfer_from t) \<and>
     wrest w' = wrest w @ [send_cross_req ext (tok_gateway (wstate w)) m] \<and> msg_to (msg m) = xfer_coordinator t \<and>
     pre_commit ext recording_send cenv (forwarded (tok_ipc_address (wstate w)) m) cw = Inr (b, cw') \<and>
     entry_of (wstate cw') (registry_key_of ext x (map fst ids)) (actor_text ext (tok_ipc_address (wstate w))) =
       (if b then None else Some (method_number ext ''CommitAtomicTransfer''))"
proof -
  have lk: "locks_ok (balances (wstate w)) (under_way ext (atomic_registry (wstate w)))"
    using token_run_inv [OF assms(2) token_constructor_inv(1) [OF assms(1)] assms(3) sender_pays_recording]
    by (simp add: token_inv_def)
  let ?p = "\<lparr>pc_actors = map fst ids, pc_exec_id = x, pc_commit = method_number ext ''CommitAtomicTransfer''\<rparr>"
  from assms(5) obtain a c st' where a: "caller_id ext env = Inr a"
    and pr: "prep_atomic_transfer ext a ids (wstate w) = Inr ((c, x), st')"
    and s: "send_cross_msg ext recording_send (tok_gateway (wstate w))
        (exec_msg ext c (method_number ext ''PreCommit'') (ser_pre_commit ext ?p)) (w\<lparr>wstate := st'\<rparr>) = Inr w'"
    by (auto simp: token_prepare_transfer_def Let_def case_fst)
  let ?m = "exec_msg ext c (method_number ext ''PreCommit'') (ser_pre_commit ext ?p)"
  have w': "wstate w' = st'" "wrest w' = wrest w @ [send_cross_req ext (tok_gateway (wstate w)) ?m]"
    using s by (auto simp: send_cross_msg_def recording_send_Inr)
  from pr assms(3) lk obtain i t where own: "find (\<lambda>p. fst p = tok_ipc_address (wstate w)) ids = Some (tok_ipc_address (wstate w), i)"
    and t: "xfer_from t = a" "c = xfer_coordinator t" "under_way ext (atomic_registry st') (Prepared x) = Some t"
    by (rule prep_atomic_transfer_Inr) auto
  let ?cm = "forwarded (tok_ipc_address (wstate w)) ?m"
  have cm: "msg_from (msg ?cm) = tok_ipc_address (wstate w)" "msg_params (msg ?cm) = ser_pre_commit ext ?p"
    by (simp_all add: forwarded_def exec_msg_def)
  have "(tok_ipc_address (wstate w), i) \<in> set ids" using own unfolding find_Some_iff by (metis nth_mem)
  then have mem: "msg_from (msg ?cm) \<in> set (pc_actors ?p)" unfolding cm by force
  have de: "de_pre_commit ext (msg_params (msg ?cm)) = Inr ?p" by (simp add: cm assms(4))
  from pre_commit_accepts [OF assms(6) de mem assms(7)] obtain b cw' where
    pc: "pre_commit ext recording_send cenv ?cm cw = Inr (b, cw')" by blast
  have "entry_of (wstate cw') (registry_key_of ext x (map fst ids)) (actor_text ext (tok_ipc_address (wstate w))) =
       (if b then None else Some (method_number ext ''CommitAtomicTransfer''))"
    using pc sender_pays_recording by (rule pre_commit_Inr) (use de cm in auto)
  with t w' a pc show ?thesis
    by (intro exI [of _ t] exI [of _ ?m] exI [of _ b] exI [of _ cw']) (simp add: exec_msg_def)
qed

lemma sample_preparing:
  "\<exists>evs w x w'. run (token_step sample_tok_ext recording_send) sample_token evs w \<and>
     token_prepare_transfer sample_tok_ext recording_send (tok_env 2)
       [(\<lparr>subnet_of = \<lparr>root = 1, children = []\<rparr>, raw_address = 7\<rparr>, [0, 2, 3, 30])] w = Inr (x, w')"
proof -
  have "\<exists>i w. token_invoke sample_tok_ext recording_send (tok_env 2) (InitAtomicTransfer sample_init)
       (credited (tok_env 2) sample_token) = Inr (Bytes i, w) \<and>
     (\<exists>x w'. token_prepare_transfer sample_tok_ext recording_send (tok_env 2)
       [(\<lparr>subnet_of = \<lparr>root = 1, children = []\<rparr>, raw_address = 7\<rparr>, [0, 2, 3, 30])] w = Inr (x, w'))"
    by (simp add: token_eval sample_token_defs sample_init_def)
  then obtain i w where i: "token_invoke sample_tok_ext recording_send (tok_env 2) (InitAtomicTransfer sample_init)
       (credited (tok_env 2) sample_token) = Inr (Bytes i, w)"
    and p: "\<exists>x w'. token_prepare_transfer sample_tok_ext recording_send (tok_env 2)
       [(\<lparr>subnet_of = \<lparr>root = 1, children = []\<rparr>, raw_address = 7\<rparr>, [0, 2, 3, 30])] w = Inr (x, w')" by blast
  have "token_step sample_tok_ext recording_send sample_token (tok_env 2, InitAtomicTransfer sample_init, Bytes i) w"
    by (rule token_message [OF _ i]) (simp add: tok_env_def)
  with p show ?thesis by (blast intro: run_cons run_nil)
qed

theorem prepare_reaches_coordinator_witness:
  "\<exists>m b (cw' :: (nat coordinator, (nat, nat cross_msg) send_req list) world).
     msg_to (msg m) = sample_coordinator \<and>
     pre_commit sample_tok_ext recording_send (tok_env 64)
       (forwarded \<lparr>subnet_of = \<lparr>root = 1, children = []\<rparr>, raw_address = 7\<rparr> m)
       \<lparr>wstate = new_coordinator 64, wbalance = 0, wrest = []\<rparr> = Inr (b, cw')"
proof -
  let ?ids = "[(\<lparr>subnet_of = \<lparr>root = 1, children = []\<rparr>, raw_address = 7\<rparr>, [0, 2, 3, 30])] :: (nat ipc_address \<times> raw_bytes) list"
  let ?cw = "\<lparr>wstate = new_coordinator 64, wbalance = 0, wrest = []\<rparr> :: (nat coordinator, (nat, nat cross_msg) send_req list) world"
  from sample_preparing obtain evs w x w' where r: "run (token_step sample_tok_ext recording_send) sample_token evs w"
    and p: "token_prepare_transfer sample_tok_ext recording_send (tok_env 2) ?ids w = Inr (x, w')" by blast
  have de: "pc_actors q = map fst ?ids \<Longrightarrow> pc_commit q = method_number sample_tok_ext ''CommitAtomicTransfer'' \<Longrightarrow>
      de_pre_commit sample_tok_ext (ser_pre_commit sample_tok_ext q) = Inr q" for q
    by (cases q) (simp add: sample_tok_ext_def)
  have c: "caller (tok_env 64) = coord_gateway (wstate ?cw)" "0 \<le> wbalance ?cw"
    by (simp_all add: tok_env_def new_coordinator_def)
  have "same_token (wstate sample_token) (wstate w)"
    using token_run_inv [OF r token_constructor_inv(1) [OF sample_token_constructed] sample_forms sender_pays_recording] by simp
  then have own: "tok_ipc_address (wstate w) = \<lparr>subnet_of = \<lparr>root = 1, children = []\<rparr>, raw_address = 7\<rparr>"
    by (simp add: same_token_def sample_token_def)
  from prepare_reaches_coordinator [OF sample_token_constructed r sample_forms de p c] obtain t m b cw' where
    t: "under_way sample_tok_ext (atomic_registry (wstate w')) (Prepared x) = Some t"
    and m: "msg_to (msg m) = xfer_coordinator t"
    and pc: "pre_commit sample_tok_ext recording_send (tok_env 64) (forwarded (tok_ipc_address (wstate w)) m) ?cw = Inr (b, cw')"
    by blast
  have "xfer_coordinator t = sample_coordinator"
    using t by (auto simp: under_way_def sample_tok_ext_def sample_read_def split: option.splits sum.splits list.splits)
  with m pc own show ?thesis by (intro exI [of _ m] exI [of _ b] exI [of _ cw']) simp
qed

section \<open>The gateway of this repository\<close>

text \<open>
  A send to the gateway runs its handler for \<open>SendCross\<close>, as the world's rest; \<open>read\<close> is what the
  gateway makes of the parameters.
\<close>

definition to_gateway_send ::
    "('a, 'c) externs \<Rightarrow> ('a, 'c, 'y) gw_sender \<Rightarrow> 'a msg_env \<Rightarrow> ('a cross_msg \<Rightarrow> 'a cross_msg_params) \<Rightarrow>
     ('a, 'a cross_msg, 's, ('a, 'c, 'y) gw_world) sender" where
  "to_gateway_send gext gsender genv read r w =
     (if sr_value r < 0 \<or> wbalance w < sr_value r then Inl (ActorError USR_UNSPECIFIED)
      else
        let env' = genv\<lparr>value_received := sr_value r\<rparr>
        in and_then (send_cross gext gsender env' (read (sr_params r)) (credited env' (wrest w))) (\<lambda>(_, g).
           Inr (None, w\<lparr>wbalance := wbalance w - sr_value r, wrest := g\<rparr>)))"

lemma send_cross_needs_fee: "send_cross ext sender env p w = Inr r \<Longrightarrow> CROSS_MSG_FEE \<le> value_received env"
  by (auto simp: send_cross_def Let_def collect_cross_fee_def split: if_splits)

lemma send_cross_msg_blocked: "send_cross_msg ext (to_gateway_send gext gsender genv read) gw cm w \<noteq> Inr w'"
proof
  assume "send_cross_msg ext (to_gateway_send gext gsender genv read) gw cm w = Inr w'"
  then obtain r where "send_cross gext gsender (genv\<lparr>value_received := 0\<rparr>) (read cm) (credited (genv\<lparr>value_received := 0\<rparr>) (wrest w)) = Inr r"
    by (auto simp: send_cross_msg_def to_gateway_send_def send_cross_req_def Let_def split: if_splits)
  from send_cross_needs_fee [OF this] show False by (simp add: CROSS_MSG_FEE_def from_nano_def)
qed

lemma send_loop_blocked:
  "fold_res (send_cross_msg ext (to_gateway_send gext gsender genv read) gw) (c # cs) w \<noteq> Inr w'"
  using send_cross_msg_blocked [of ext gext gsender genv read gw c w] by auto

text \<open>
  C29: against the gateway of this repository no atomic execution ever gets anywhere. All its messages are
  sent without value, and \<open>SendCross\<close> collects its fee from the value: so no transfer can be prepared or
  aborted, the coordinator never completes an execution, and no participant can revoke.
\<close>

theorem atomic_executions_blocked_by_fee:
  "token_prepare_transfer ext (to_gateway_send gext gsender genv read) env ids w \<noteq> Inr (x, w') \<and>
   token_abort_transfer ext (to_gateway_send gext gsender genv read) env params w \<noteq> Inr (u, w') \<and>
   pre_commit cext (to_gateway_send gext gsender genv read) env cm cw \<noteq> Inr (True, cw') \<and>
   revoke cext (to_gateway_send gext gsender genv read) env cm cw \<noteq> Inr (u, cw')"
proof -
  have "pre_commit cext (to_gateway_send gext gsender genv read) env cm cw \<noteq> Inr (True, cw')"
  proof
    assume "pre_commit cext (to_gateway_send gext gsender genv read) env cm cw = Inr (True, cw')"
    then obtain p ms st1 w2 where mem: "msg_from (msg cm) \<in> set (pc_actors p)"
      and mod: "modify_atomic_exec cext (pc_exec_id p) (pc_actors p) (record_commit cext (msg_from (msg cm)) p) (wstate cw) = Inr (Some ms, st1)"
      and f: "fold_res (send_cross_msg cext (to_gateway_send gext gsender genv read) (coord_gateway (wstate cw))) ms (cw\<lparr>wstate := st1\<rparr>) = Inr w2"
      by (auto simp: pre_commit_def Let_def split: if_splits option.splits)
    from mod mem have "ms \<noteq> []"
      by (auto simp: modify_atomic_exec_def Let_def dest!: record_commit_Inr(2) split: if_splits)
    then obtain c cs where "ms = c # cs" by (cases ms) auto
    with f have "fold_res (send_cross_msg cext (to_gateway_send gext gsender genv read) (coord_gateway (wstate cw))) (c # cs)
        (cw\<lparr>wstate := st1\<rparr>) = Inr w2" by simp
    then show False by (rule notE [OF send_loop_blocked])
  qed
  then show ?thesis
    by (auto simp: token_prepare_transfer_def token_abort_transfer_def revoke_def modify_atomic_exec_def Let_def
        split: if_splits option.splits dest: notE [OF send_cross_msg_blocked])
qed

end
