(* ===== verification/Atomic_System.thy ===== *)
theory Atomic_System
  imports Token_Protocol Atomic_Protocol
begin

text \<open>
  Tokens and the coordinator of their atomic executions as one system. The gateways between them are
  the transport: each direction between a participant and the coordinator is a queue, delivered in
  order and without loss (which is what the nonces of the gateway are for), with the sender's address
  filled in by the gateway. A message whose handler fails is consumed without effect. Whoever else
  takes part may send the coordinator and the tokens anything, in his own name.

  The gateway of this repository refuses all of these messages for want of a fee
  (\<open>atomic_executions_blocked_by_fee\<close>); the system is what the protocol is meant to run on.
\<close>

section \<open>The system\<close>

type_synonym ('a, 's) recorded_world = "('s, ('a, 'a cross_msg) send_req list) world"

record ('a, 'c) atomic_system =
  coord :: "('a, 'a coordinator) recorded_world"
  tokens :: "'a ipc_address \<rightharpoonup> ('a, ('a, 'c) token_state) recorded_world"
  to_coord :: "'a ipc_address \<Rightarrow> 'a cross_msg list"
  to_token :: "'a ipc_address \<Rightarrow> 'a cross_msg list"

text \<open>The cross-net messages a handler has handed to its gateway.\<close>

definition sent :: "('a, 's) recorded_world \<Rightarrow> ('a, 's) recorded_world \<Rightarrow> 'a cross_msg list" where
  "sent w w' = map sr_params (drop (length (wrest w)) (wrest w'))"

definition post_to_coord ::
    "'a ipc_address \<Rightarrow> 'a ipc_address \<Rightarrow> 'a cross_msg list \<Rightarrow> ('a, 'c) atomic_system \<Rightarrow> ('a, 'c) atomic_system" where
  "post_to_coord C a ms s =
     s\<lparr>to_coord := (to_coord s)(a := to_coord s a @ map (forwarded a) (filter (\<lambda>m. msg_to (msg m) = C) ms))\<rparr>"

definition post_to_tokens ::
    "'a ipc_address \<Rightarrow> 'a cross_msg list \<Rightarrow> ('a, 'c) atomic_system \<Rightarrow> ('a, 'c) atomic_system" where
  "post_to_tokens C ms s =
     s\<lparr>to_token := (\<lambda>a. to_token s a @ map (forwarded C) (filter (\<lambda>m. msg_to (msg m) = a) ms))\<rparr>"

text \<open>The dispatch by method number, for the methods the protocol uses.\<close>

definition coord_call_of :: "('a, 'm) coord_externs_scheme \<Rightarrow> 'a cross_msg \<Rightarrow> 'a coord_call option" where
  "coord_call_of ext cm =
     (if msg_method (msg cm) = method_number ext ''PreCommit'' then Some (PreCommit cm)
      else if msg_method (msg cm) = method_number ext ''Revoke'' then Some (Revoke cm)
      else None)"

definition token_call_of :: "('a, 'm) coord_externs_scheme \<Rightarrow> 'a cross_msg \<Rightarrow> 'a token_call option" where
  "token_call_of ext cm =
     (if msg_method (msg cm) = method_number ext ''CommitAtomicTransfer'' then Some (CommitAtomicTransfer cm)
      else if msg_method (msg cm) = method_number ext ''RollbackAtomicTransfer'' then Some (RollbackAtomicTransfer cm)
      else None)"

datatype 'a sys_event =
    AtToken "'a ipc_address" "'a msg_env" "'a token_call" token_answer
  | TokenRefuses "'a ipc_address" "'a cross_msg"
  | AtCoordinator "'a msg_env" "'a coord_call" bool
  | CoordinatorRefuses "'a ipc_address" "'a cross_msg"

inductive atomic_step ::
    "('a, 'c, 'm) token_externs_scheme \<Rightarrow> 'a ipc_address \<Rightarrow>
     ('a, 'c) atomic_system \<Rightarrow> 'a sys_event \<Rightarrow> ('a, 'c) atomic_system \<Rightarrow> bool"
  for ext :: "('a, 'c, 'm) token_externs_scheme" and C :: "'a ipc_address" where
  user_call: "tokens s a = Some w \<Longrightarrow> caller env \<noteq> tok_gateway (wstate w) \<Longrightarrow>
     token_step ext recording_send w (env, call, r) w' \<Longrightarrow>
     atomic_step ext C s (AtToken a env call r)
       (post_to_coord C a (sent w w') (s\<lparr>tokens := (tokens s)(a \<mapsto> w')\<rparr>))"
| to_coordinator: "to_coord s a = m # ms \<Longrightarrow> coord_call_of ext m = Some call \<Longrightarrow>
     coord_step ext recording_send (coord s) (env, call, b) w' \<Longrightarrow>
     atomic_step ext C s (AtCoordinator env call b)
       (post_to_tokens C (sent (coord s) w') (s\<lparr>coord := w', to_coord := (to_coord s)(a := ms)\<rparr>))"
| coordinator_refuses: "to_coord s a = m # ms \<Longrightarrow>
     (\<And>call. coord_call_of ext m = Some call \<Longrightarrow> \<exists>(env :: 'a msg_env) e. caller env = coord_gateway (wstate (coord s)) \<and>
        coord_invoke ext recording_send env call (coord s) = Inl e) \<Longrightarrow>
     atomic_step ext C s (CoordinatorRefuses a m) (s\<lparr>to_coord := (to_coord s)(a := ms)\<rparr>)"
| to_participant: "to_token s a = m # ms \<Longrightarrow> tokens s a = Some w \<Longrightarrow> token_call_of ext m = Some call \<Longrightarrow>
     caller env = tok_gateway (wstate w) \<Longrightarrow> token_step ext recording_send w (env, call, r) w' \<Longrightarrow>
     atomic_step ext C s (AtToken a env call r)
       (post_to_coord C a (sent w w') (s\<lparr>tokens := (tokens s)(a \<mapsto> w'), to_token := (to_token s)(a := ms)\<rparr>))"
| participant_refuses: "to_token s a = m # ms \<Longrightarrow> tokens s a = Some w \<Longrightarrow>
     (\<And>call. token_call_of ext m = Some call \<Longrightarrow> \<exists>(env :: 'a msg_env) e. caller env = tok_gateway (wstate w) \<and>
        token_invoke ext recording_send env call w = Inl e) \<Longrightarrow>
     atomic_step ext C s (TokenRefuses a m) (s\<lparr>to_token := (to_token s)(a := ms)\<rparr>)"
| stranger_to_coordinator: "msg_from (msg cm) \<notin> dom (tokens s) \<Longrightarrow> call = PreCommit cm \<or> call = Revoke cm \<Longrightarrow>
     coord_step ext recording_send (coord s) (env, call, b) w' \<Longrightarrow>
     atomic_step ext C s (AtCoordinator env call b) (post_to_tokens C (sent (coord s) w') (s\<lparr>coord := w'\<rparr>))"
| stranger_to_token: "tokens s a = Some w \<Longrightarrow> msg_from (msg cm) \<noteq> C \<Longrightarrow>
     call = CommitAtomicTransfer cm \<or> call = RollbackAtomicTransfer cm \<Longrightarrow>
     token_step ext recording_send w (env, call, r) w' \<Longrightarrow>
     atomic_step ext C s (AtToken a env call r)
       (post_to_coord C a (sent w w') (s\<lparr>tokens := (tokens s)(a \<mapsto> w')\<rparr>))"

text \<open>Freshly constructed actors, each token under its own address, and nothing on its way.\<close>

definition atomic_start :: "('a, 'c, 'm) token_externs_scheme \<Rightarrow> ('a, 'c) atomic_system \<Rightarrow> bool" where
  "atomic_start ext s \<longleftrightarrow>
     (\<exists>gw. wstate (coord s) = new_coordinator gw) \<and>
     (\<forall>a w. tokens s a = Some w \<longrightarrow> tok_ipc_address (wstate w) = a \<and>
        (\<exists>(env :: 'a msg_env) params. token_constructor ext env params = Inr (wstate w))) \<and>
     to_coord s = (\<lambda>_. []) \<and> to_token s = (\<lambda>_. [])"

text \<open>How a participant ended an execution on the word of the coordinator.\<close>

definition ended :: "'a ipc_address \<Rightarrow> 'a ipc_address \<Rightarrow> atomic_exec_id \<Rightarrow> bool \<Rightarrow> 'a sys_event \<Rightarrow> bool" where
  "ended C a x commit e \<longleftrightarrow>
     (case e of AtToken a' env call r \<Rightarrow> a' = a \<and>
        (\<exists>cm. call = (if commit then CommitAtomicTransfer cm else RollbackAtomicTransfer cm) \<and>
           msg_from (msg cm) = C \<and> msg_params (msg cm) = x)
      | _ \<Rightarrow> False)"

end
