(* ===== verification/System_Inv.thy ===== *)
theory System_Inv
  imports Atomic_System
begin

text \<open>
  What holds in the system of tokens and coordinator at any time, whatever the participants do: the
  tokens keep their own invariant, everything on its way to the coordinator has the form its sender
  gives it, and what the coordinator holds for a token is what that token has sent.
\<close>

section \<open>What is asked of the linked crates\<close>

text \<open>
  No collisions of the hash where ids and keys are computed, texts that tell addresses apart, forms
  that read back as what was written (or not at all), and different numbers for different methods.
\<close>

definition protocol_ok :: "('a, 'c, 'm) token_externs_scheme \<Rightarrow> bool" where
  "protocol_ok ext \<longleftrightarrow>
     transfer_forms_ok ext \<and> input_ids_unique ext \<and>
     inj (compute_exec_id ext) \<and> inj (\<lambda>(x, actors). registry_key_of ext x actors) \<and> inj (actor_text ext) \<and>
     (\<forall>p q. de_pre_commit ext (ser_pre_commit ext p) = Inr q \<longrightarrow> q = p) \<and>
     (\<forall>p q. de_revoke ext (ser_revoke ext p) = Inr q \<longrightarrow> q = p) \<and>
     method_number ext ''PreCommit'' \<noteq> method_number ext ''Revoke'' \<and>
     method_number ext ''CommitAtomicTransfer'' \<noteq> method_number ext ''RollbackAtomicTransfer''"

lemma protocol_okD:
  assumes "protocol_ok ext"
  shows "transfer_forms_ok ext" and "input_ids_unique ext"
    and "compute_exec_id ext ids = compute_exec_id ext ids' \<Longrightarrow> ids = ids'"
    and "registry_key_of ext x as = registry_key_of ext x' as' \<longleftrightarrow> x = x' \<and> as = as'"
    and "actor_text ext a = actor_text ext b \<longleftrightarrow> a = b"
    and "de_pre_commit ext (ser_pre_commit ext p) = Inr q \<Longrightarrow> q = p"
    and "de_revoke ext (ser_revoke ext rp) = Inr rq \<Longrightarrow> rq = rp"
    and "method_number ext ''PreCommit'' \<noteq> method_number ext ''Revoke''"
    and "method_number ext ''CommitAtomicTransfer'' \<noteq> method_number ext ''RollbackAtomicTransfer''"
proof -
  show "compute_exec_id ext ids = compute_exec_id ext ids' \<Longrightarrow> ids = ids'"
    using assms unfolding protocol_ok_def inj_def by blast
  show "actor_text ext a = actor_text ext b \<longleftrightarrow> a = b"
    using assms unfolding protocol_ok_def inj_def by blast
  have "inj (\<lambda>(x, actors). registry_key_of ext x actors)" using assms by (simp add: protocol_ok_def)
  from inj_eq [OF this, of "(x, as)" "(x', as')"]
  show "registry_key_of ext x as = registry_key_of ext x' as' \<longleftrightarrow> x = x' \<and> as = as'" by simp
qed (use assms in \<open>simp_all add: protocol_ok_def\<close>)

section \<open>The steps of the coordinator\<close>

lemma coord_protocol_cases [consumes 1, case_names commits revokes]:
  assumes "coord_step ext recording_send w (env, call, b) w'"
  obtains
    (commits) cm p entry where "call = PreCommit cm" "de_pre_commit ext (msg_params (msg cm)) = Inr p"
      "msg_from (msg cm) \<in> set (pc_actors p)" "caller env = coord_gateway (wstate w)"
      "entry = (entry_of (wstate w) (registry_key_of ext (pc_exec_id p) (pc_actors p)))(actor_text ext (msg_from (msg cm)) \<mapsto> pc_commit p)"
      "b \<longleftrightarrow> (\<forall>a \<in> set (pc_actors p). entry (actor_text ext a) \<noteq> None)"
      "\<And>k. entry_of (wstate w') k = (if k = registry_key_of ext (pc_exec_id p) (pc_actors p)
         then if b then Map.empty else entry else entry_of (wstate w) k)"
      "sent w w' = (if b then map (\<lambda>a. exec_msg ext a (the (entry (actor_text ext a))) (pc_exec_id p)) (pc_actors p) else [])"
  | (revokes) cm p where "call = Revoke cm" "\<not> b" "de_revoke ext (msg_params (msg cm)) = Inr p"
      "msg_from (msg cm) \<in> set (rv_actors p)" "caller env = coord_gateway (wstate w)"
      "\<And>k. entry_of (wstate w') k = (if k = registry_key_of ext (rv_exec_id p) (rv_actors p)
         then (entry_of (wstate w) k)(actor_text ext (msg_from (msg cm)) := None) else entry_of (wstate w) k)"
      "sent w w' = [exec_msg ext (msg_from (msg cm)) (rv_rollback p) (rv_exec_id p)]"
proof -
  from assms have inv: "coord_invoke ext recording_send env call (credited env w) = Inr (b, w')" by cases
  show thesis
  proof (cases call)
    case (PreCommit cm)
    with inv have "pre_commit ext recording_send env cm (credited env w) = Inr (b, w')" by simp
    from this sender_pays_recording show ?thesis
    proof (cases rule: pre_commit_Inr)
      case (1 p entry k w2)
      have "sent w w' = (if b then map (\<lambda>a. exec_msg ext a (the (entry (actor_text ext a))) (pc_exec_id p)) (pc_actors p) else [])"
        using 1(8) by (auto simp: sent_def send_cross_req_def dest!: send_loop_records)
      with 1 PreCommit show ?thesis
        by (intro commits [of cm p entry]) (auto simp: all_committed_def list_all_iff)
    qed
  next
    case (Revoke cm)
    with inv obtain u where "revoke ext recording_send env cm (credited env w) = Inr (u, w')" and b: "\<not> b" by auto
    from this(1) sender_pays_recording show ?thesis
    proof (cases rule: revoke_Inr)
      case (1 p k w1)
      then have "sent w w' = [exec_msg ext (msg_from (msg cm)) (rv_rollback p) (rv_exec_id p)]"
        by (auto simp: sent_def send_cross_req_def dest!: token_step_recorded(2))
      with 1 b Revoke show ?thesis by (intro revokes [of cm p]) auto
    qed
  qed
qed

section \<open>The steps of a token\<close>

lemma sent_nil [simp]: "wrest w' = wrest w \<Longrightarrow> sent w w' = []"
  by (simp add: sent_def)

lemma sent_one [simp]: "wrest w' = wrest w @ [send_cross_req ext gw m] \<Longrightarrow> sent w w' = [m]"
  by (simp add: sent_def send_cross_req_def)

lemma forwarded_simps [simp]:
  "msg_from (msg (forwarded a m)) = a" "msg_to (msg (forwarded a m)) = msg_to (msg m)"
  "msg_method (msg (forwarded a m)) = msg_method (msg m)" "msg_params (msg (forwarded a m)) = msg_params (msg m)"
  by (simp_all add: forwarded_def)

lemma exec_msg_simps [simp]:
  "msg_to (msg (exec_msg ext a n p)) = a" "msg_method (msg (exec_msg ext a n p)) = n"
  "msg_params (msg (exec_msg ext a n p)) = p"
  by (simp_all add: exec_msg_def)

lemma call_of_forwarded:
  "coord_call_of ext m = Some (PreCommit cm) \<longleftrightarrow> msg_method (msg m) = method_number ext ''PreCommit'' \<and> cm = m"
  "coord_call_of ext m = Some (Revoke cm) \<longleftrightarrow> msg_method (msg m) \<noteq> method_number ext ''PreCommit'' \<and>
     msg_method (msg m) = method_number ext ''Revoke'' \<and> cm = m"
  "token_call_of ext m = Some (CommitAtomicTransfer cm) \<longleftrightarrow>
     msg_method (msg m) = method_number ext ''CommitAtomicTransfer'' \<and> cm = m"
  "token_call_of ext m = Some (RollbackAtomicTransfer cm) \<longleftrightarrow>
     msg_method (msg m) \<noteq> method_number ext ''CommitAtomicTransfer'' \<and>
     msg_method (msg m) = method_number ext ''RollbackAtomicTransfer'' \<and> cm = m"
  by (auto simp: coord_call_of_def token_call_of_def)

section \<open>The invariant\<close>

text \<open>The form of a message on its way from a participant to the coordinator.\<close>

definition up_form :: "('a, 'c, 'm) token_externs_scheme \<Rightarrow> 'a ipc_address \<Rightarrow> 'a cross_msg \<Rightarrow> bool" where
  "up_form ext a m \<longleftrightarrow> msg_from (msg m) = a \<and>
     (\<forall>p. coord_call_of ext m = Some (PreCommit m) \<longrightarrow> de_pre_commit ext (msg_params (msg m)) = Inr p \<longrightarrow>
        pc_commit p = method_number ext ''CommitAtomicTransfer'' \<and>
        (\<exists>ids. pc_exec_id p = compute_exec_id ext ids \<and> pc_actors p = map fst ids)) \<and>
     (\<forall>p. coord_call_of ext m = Some (Revoke m) \<longrightarrow> de_revoke ext (msg_params (msg m)) = Inr p \<longrightarrow>
        rv_rollback p = method_number ext ''RollbackAtomicTransfer'')"

definition system_inv :: "('a, 'c, 'm) token_externs_scheme \<Rightarrow> 'a ipc_address \<Rightarrow> ('a, 'c) atomic_system \<Rightarrow> bool" where
  "system_inv ext C s \<longleftrightarrow>
     (\<forall>a w. tokens s a = Some w \<longrightarrow> token_inv ext (wstate w) \<and> tok_ipc_address (wstate w) = a) \<and>
     (\<forall>a m. m \<in> set (to_coord s a) \<longrightarrow> a \<in> dom (tokens s) \<and> up_form ext a m) \<and>
     (\<forall>a m. m \<in> set (to_token s a) \<longrightarrow> msg_from (msg m) = C) \<and>
     (\<forall>k a n. a \<in> dom (tokens s) \<longrightarrow> entry_of (wstate (coord s)) k (actor_text ext a) = Some n \<longrightarrow>
        n = method_number ext ''CommitAtomicTransfer'' \<and>
        (\<exists>ids. k = registry_key_of ext (compute_exec_id ext ids) (map fst ids)))"

lemma system_invD:
  assumes "system_inv ext C s"
  shows "tokens s a = Some w \<Longrightarrow> token_inv ext (wstate w)"
    and "tokens s a = Some w \<Longrightarrow> tok_ipc_address (wstate w) = a"
    and "m \<in> set (to_coord s a) \<Longrightarrow> a \<in> dom (tokens s)"
    and "m \<in> set (to_coord s a) \<Longrightarrow> up_form ext a m"
    and "m \<in> set (to_token s a) \<Longrightarrow> msg_from (msg m) = C"
    and "a \<in> dom (tokens s) \<Longrightarrow> entry_of (wstate (coord s)) k (actor_text ext a) = Some n \<Longrightarrow>
      n = method_number ext ''CommitAtomicTransfer'' \<and>
      (\<exists>ids. k = registry_key_of ext (compute_exec_id ext ids) (map fst ids))"
  using assms unfolding system_inv_def by blast+

lemma system_invI:
  assumes "\<And>a w. tokens s a = Some w \<Longrightarrow> token_inv ext (wstate w) \<and> tok_ipc_address (wstate w) = a"
    and "\<And>a m. m \<in> set (to_coord s a) \<Longrightarrow> a \<in> dom (tokens s) \<and> up_form ext a m"
    and "\<And>a m. m \<in> set (to_token s a) \<Longrightarrow> msg_from (msg m) = C"
    and "\<And>k a n. a \<in> dom (tokens s) \<Longrightarrow> entry_of (wstate (coord s)) k (actor_text ext a) = Some n \<Longrightarrow>
      n = method_number ext ''CommitAtomicTransfer'' \<and>
      (\<exists>ids. k = registry_key_of ext (compute_exec_id ext ids) (map fst ids))"
  shows "system_inv ext C s"
  using assms unfolding system_inv_def by blast

text \<open>Whatever a token sends has the form.\<close>

lemma token_sends_forms:
  assumes "token_step ext recording_send w (env, call, r) w'" and "token_inv ext (wstate w)" and "protocol_ok ext"
    and "m \<in> set (sent w w')"
  shows "up_form ext a (forwarded a m)"
  using assms(1,2) protocol_okD(1) [OF assms(3)]
proof (cases rule: token_protocol_cases)
  case (prepares ids i t)
  with assms(4) have "m = pre_commit_msg ext (xfer_coordinator t) ids" by simp
  then show ?thesis
    using protocol_okD(6,8) [OF assms(3)] by (auto simp: up_form_def pre_commit_msg_def call_of_forwarded dest!: protocol_okD(6) [OF assms(3)])
next
  case (aborts p t)
  with assms(4) have "m = revoke_msg ext (xfer_coordinator t) p" by simp
  then show ?thesis
    using protocol_okD(8) [OF assms(3)] by (auto simp: up_form_def revoke_msg_def call_of_forwarded dest!: protocol_okD(7) [OF assms(3)])
qed (use assms(4) in simp_all)

lemma system_inv_token:
  assumes "system_inv ext C s" and "protocol_ok ext" and "tokens s a = Some w"
    and "token_step ext recording_send w (env, call, r) w'"
    and "\<And>b. set (q b) \<subseteq> set (to_token s b)"
  shows "system_inv ext C (post_to_coord C a (sent w w') (s\<lparr>tokens := (tokens s)(a \<mapsto> w'), to_token := q\<rparr>))"
proof -
  note d = system_invD [OF assms(1)]
  have eff: "token_inv ext (wstate w')" "same_token (wstate w) (wstate w')"
    using token_step_effect [OF assms(4) d(1) [OF assms(3)] protocol_okD(1) [OF assms(2)] sender_pays_recording] by simp_all
  note f = token_sends_forms [OF assms(4) d(1) [OF assms(3)] assms(2)]
  show ?thesis
  proof (rule system_invI)
    fix b m
    assume "m \<in> set (to_coord (post_to_coord C a (sent w w') (s\<lparr>tokens := (tokens s)(a \<mapsto> w'), to_token := q\<rparr>)) b)"
    then show "b \<in> dom (tokens (post_to_coord C a (sent w w') (s\<lparr>tokens := (tokens s)(a \<mapsto> w'), to_token := q\<rparr>))) \<and> up_form ext b m"
      using d(3,4) f by (fastforce simp: post_to_coord_def split: if_splits)
  qed (use d(1,2,5,6) eff assms(3,5) in \<open>auto simp: post_to_coord_def same_token_def split: if_splits; blast\<close>)+
qed


text \<open>The coordinator keeps it, whether the message comes from a token, in its form, or from a stranger.\<close>

lemma system_inv_coord:
  assumes "system_inv ext C s" and "protocol_ok ext"
    and "coord_step ext recording_send (coord s) (env, call, b) w'"
    and "call = PreCommit cm \<or> call = Revoke cm"
    and "msg_from (msg cm) \<in> dom (tokens s) \<Longrightarrow> up_form ext (msg_from (msg cm)) cm \<and> coord_call_of ext cm = Some call"
    and "\<And>b. set (q b) \<subseteq> set (to_coord s b)"
  shows "system_inv ext C (post_to_tokens C (sent (coord s) w') (s\<lparr>coord := w', to_coord := q\<rparr>))"
proof -
  note d = system_invD [OF assms(1)]
  have held: "n = method_number ext ''CommitAtomicTransfer'' \<and>
        (\<exists>ids. k = registry_key_of ext (compute_exec_id ext ids) (map fst ids))"
    if a: "a \<in> dom (tokens s)" and e: "entry_of (wstate w') k (actor_text ext a) = Some n" for k a n
    using assms(3)
  proof (cases rule: coord_protocol_cases)
    case (commits cm' p entry)
    then have cm: "cm' = cm" using assms(4) by auto
    show ?thesis
    proof (cases "k = registry_key_of ext (pc_exec_id p) (pc_actors p) \<and> actor_text ext a = actor_text ext (msg_from (msg cm))")
      case True
      then have "a = msg_from (msg cm)" using protocol_okD(5) [OF assms(2)] by blast
      moreover have "n = pc_commit p" using e True commits(5,7) by (auto simp: cm split: if_splits)
      ultimately show ?thesis
        using assms(5) a True commits(1,2) unfolding up_form_def cm by fastforce
    next
      case False
      then have "entry_of (wstate (coord s)) k (actor_text ext a) = Some n"
        using e commits(5,7) by (auto simp: cm split: if_splits)
      from d(6) [OF a this] show ?thesis .
    qed
  next
    case (revokes cm' p)
    then have "entry_of (wstate (coord s)) k (actor_text ext a) = Some n" using e by (auto split: if_splits)
    from d(6) [OF a this] show ?thesis .
  qed
  show ?thesis
    by (rule system_invI) (use d(1-5) held assms(6) in \<open>auto simp: post_to_tokens_def; blast\<close>)+
qed

lemma up_formD:
  "up_form ext a m \<Longrightarrow> msg_from (msg m) = a"
  by (simp add: up_form_def)

lemma system_inv_pops:
  assumes "system_inv ext C s" and "\<And>b. set (q b) \<subseteq> set (to_coord s b)" and "\<And>b. set (q' b) \<subseteq> set (to_token s b)"
  shows "system_inv ext C (s\<lparr>to_coord := q\<rparr>)" and "system_inv ext C (s\<lparr>to_token := q'\<rparr>)"
proof -
  note d = system_invD [OF assms(1)]
  show "system_inv ext C (s\<lparr>to_coord := q\<rparr>)"
    by (rule system_invI) (use d assms(2) in \<open>auto; blast\<close>)+
  show "system_inv ext C (s\<lparr>to_token := q'\<rparr>)"
    by (rule system_invI) (use d assms(3) in \<open>auto; blast\<close>)+
qed

lemma coord_call_of_cases:
  "coord_call_of ext m = Some call \<Longrightarrow> call = PreCommit m \<or> call = Revoke m"
  by (auto simp: coord_call_of_def split: if_splits)

lemma atomic_step_inv:
  assumes "atomic_step ext C s e s'" and "system_inv ext C s" and "protocol_ok ext"
  shows "system_inv ext C s'"
  using assms(1)
proof cases
  case (user_call a w env call r w')
  from system_inv_token [OF assms(2,3) user_call(3,5), of "to_token s"] user_call(2) show ?thesis by simp
next
  case (to_coordinator a m ms call env b w')
  note d = system_invD [OF assms(2)]
  have m: "m \<in> set (to_coord s a)" by (simp add: to_coordinator(3))
  have f: "msg_from (msg m) = a" using up_formD [OF d(4) [OF m]] .
  show ?thesis unfolding to_coordinator(2)
    by (rule system_inv_coord [OF assms(2,3) to_coordinator(5) coord_call_of_cases [OF to_coordinator(4)]])
      (use d(4) [OF m] to_coordinator(3,4) in \<open>auto simp: f split: if_splits\<close>)
next
  case (coordinator_refuses a m ms)
  show ?thesis unfolding coordinator_refuses(2)
    by (rule system_inv_pops(1) [OF assms(2), of _ "to_token s"]) (use coordinator_refuses(3) in auto)
next
  case (to_participant a m ms w call env r w')
  show ?thesis unfolding to_participant(2)
    by (rule system_inv_token [OF assms(2,3) to_participant(4,7)]) (use to_participant(3) in auto)
next
  case (participant_refuses a m ms w)
  show ?thesis unfolding participant_refuses(2)
    by (rule system_inv_pops(2) [OF assms(2), of "to_coord s"]) (use participant_refuses(3) in auto)
next
  case (stranger_to_coordinator cm call env b w')
  have "system_inv ext C (post_to_tokens C (sent (coord s) w') (s\<lparr>coord := w', to_coord := to_coord s\<rparr>))"
    by (rule system_inv_coord [OF assms(2,3) stranger_to_coordinator(5,4)]) (use stranger_to_coordinator(3) in auto)
  then show ?thesis by (simp add: stranger_to_coordinator(2))
next
  case (stranger_to_token a w cm call env r w')
  from system_inv_token [OF assms(2,3) stranger_to_token(3,6), of "to_token s"] stranger_to_token(2) show ?thesis by simp
qed

lemma atomic_start_inv:
  assumes "atomic_start ext s"
  shows "system_inv ext C s"
proof (rule system_invI)
  fix k a n
  assume "entry_of (wstate (coord s)) k (actor_text ext a) = Some n"
  with assms show "n = method_number ext ''CommitAtomicTransfer'' \<and>
      (\<exists>ids. k = registry_key_of ext (compute_exec_id ext ids) (map fst ids))"
    by (auto simp: atomic_start_def new_coordinator_def entry_of_def)
qed (use assms token_constructor_inv(1) in \<open>fastforce simp: atomic_start_def\<close>)+

end
