(* ===== verification/Atomicity.thy ===== *)
theory Atomicity
  imports System_Inv
begin

text \<open>
  Atomicity: of the participants of one execution, either some commit it or some roll it back, never
  both. The proof looks at one participant of one execution at a time, through a small state machine of
  what it has prepared, what is on its way to and from the coordinator, and what the coordinator
  holds for it.
\<close>

section \<open>One participant of one execution\<close>

datatype up_msg = Pledge | Withdraw

datatype down_msg = Go | Undo

record view =
  v_live :: bool
  v_com :: bool
  v_rol :: bool
  v_held :: bool
  v_done :: bool
  v_spent :: bool
  v_up :: "up_msg list"
  v_down :: "down_msg list"

text \<open>
  The stages: nothing has happened yet; the pledge is on its way; the coordinator holds it; it was
  withdrawn or lost; the coordinator has completed the execution.
\<close>

definition fresh :: "view \<Rightarrow> bool" where
  "fresh v \<longleftrightarrow> \<not> v_live v \<and> \<not> v_com v \<and> \<not> v_rol v \<and> \<not> v_held v \<and> v_up v = [] \<and> v_down v = []"

definition pledging :: "view \<Rightarrow> bool" where
  "pledging v \<longleftrightarrow> v_spent v \<and> v_live v \<and> \<not> v_com v \<and> \<not> v_rol v \<and> \<not> v_held v \<and> \<not> v_done v \<and> v_down v = [] \<and>
     (\<exists>us. v_up v = Pledge # us \<and> Pledge \<notin> set us)"

definition pledged :: "view \<Rightarrow> bool" where
  "pledged v \<longleftrightarrow> v_spent v \<and> v_live v \<and> \<not> v_com v \<and> \<not> v_rol v \<and> v_held v \<and> \<not> v_done v \<and> v_down v = [] \<and>
     Pledge \<notin> set (v_up v)"

definition withdrawn :: "view \<Rightarrow> bool" where
  "withdrawn v \<longleftrightarrow> v_spent v \<and> v_live v \<noteq> v_rol v \<and> \<not> v_com v \<and> \<not> v_held v \<and> \<not> v_done v \<and>
     Pledge \<notin> set (v_up v) \<and> Go \<notin> set (v_down v)"

definition closed :: "view \<Rightarrow> bool" where
  "closed v \<longleftrightarrow> v_spent v \<and> v_done v \<and> \<not> v_rol v \<and> \<not> v_held v \<and> Pledge \<notin> set (v_up v) \<and>
     v_live v \<noteq> v_com v \<and> (v_live v \<longrightarrow> (\<exists>ds. v_down v = Go # ds))"

lemmas stage_defs = fresh_def pledging_def pledged_def withdrawn_def closed_def

text \<open>Only the participants the execution names get beyond the first stage.\<close>

definition view_ok :: "bool \<Rightarrow> view \<Rightarrow> bool" where
  "view_ok named v \<longleftrightarrow> fresh v \<and> (named \<longrightarrow> \<not> v_done v) \<or>
     named \<and> (pledging v \<or> pledged v \<or> withdrawn v \<or> closed v)"

lemma view_ok_cases [consumes 1, case_names fresh pledging pledged withdrawn closed]:
  assumes "view_ok n v"
  obtains "fresh v" "n \<Longrightarrow> \<not> v_done v" | "n" "pledging v" | "n" "pledged v" | "n" "withdrawn v" | "n" "closed v"
  using assms unfolding view_ok_def by blast

lemma view_okI:
  "fresh v \<Longrightarrow> (n \<Longrightarrow> \<not> v_done v) \<Longrightarrow> view_ok n v" "n \<Longrightarrow> pledging v \<Longrightarrow> view_ok n v" "n \<Longrightarrow> pledged v \<Longrightarrow> view_ok n v"
  "n \<Longrightarrow> withdrawn v \<Longrightarrow> view_ok n v" "n \<Longrightarrow> closed v \<Longrightarrow> view_ok n v"
  unfolding view_ok_def by blast+

lemma view_ok_spent: "view_ok n v \<Longrightarrow> (v_spent v \<Longrightarrow> b) \<Longrightarrow> view_ok n (v\<lparr>v_spent := b\<rparr>)"
  by (cases rule: view_ok_cases, assumption) (auto simp: stage_defs intro: view_okI)

lemma view_ok_cong:
  assumes "view_ok n v" and "v_live v' = v_live v" and "v_com v' = v_com v" and "v_rol v' = v_rol v"
    and "v_held v' = v_held v" and "v_done v' = v_done v" and "v_spent v \<Longrightarrow> v_spent v'"
    and "v_up v' = v_up v" and "v_down v' = v_down v"
  shows "view_ok n v'"
proof -
  have "v' = v\<lparr>v_spent := v_spent v'\<rparr>" by (rule view.equality) (simp_all add: assms)
  with view_ok_spent [OF assms(1,7)] show ?thesis by simp
qed

lemma view_ok_prepare:
  assumes "view_ok n v" and "\<not> v_spent v" and n and "us = [] \<or> us = [Pledge]"
  shows "view_ok n (v\<lparr>v_live := True, v_spent := True, v_up := v_up v @ us\<rparr>)"
proof -
  have "fresh v" "\<not> v_done v" using assms(1-3) by (auto simp: view_ok_def stage_defs)
  with assms(4) show ?thesis
    by (auto intro: view_okI(4) [OF assms(3)] view_okI(2) [OF assms(3)] simp: stage_defs)
qed

lemma view_ok_abort: "view_ok n v \<Longrightarrow> v_live v \<Longrightarrow> view_ok n (v\<lparr>v_up := v_up v @ [Withdraw]\<rparr>)"
  unfolding view_ok_def stage_defs by (elim disjE) auto

lemma view_ok_commit:
  assumes "view_ok n v" and "v_live v" and "v_down v = Go # ds"
  shows "view_ok n (v\<lparr>v_live := False, v_com := True, v_down := ds\<rparr>)"
proof -
  have "n" "closed v" using assms by (auto simp: view_ok_def stage_defs)
  with assms(2) show ?thesis by (intro view_okI(5)) (auto simp: stage_defs)
qed

lemma view_ok_rollback:
  assumes "view_ok n v" and "v_live v" and "v_down v = Undo # ds"
  shows "view_ok n (v\<lparr>v_live := False, v_rol := True, v_down := ds\<rparr>)"
proof -
  have "n" "withdrawn v" using assms by (auto simp: view_ok_def stage_defs)
  with assms(2,3) show ?thesis by (intro view_okI(4)) (auto simp: stage_defs)
qed

lemma view_ok_undo:
  assumes "view_ok n v" and "v_down v = Undo # ds"
  shows "view_ok n (v\<lparr>v_down := ds\<rparr>)"
proof -
  have "n \<and> (withdrawn v \<or> closed v \<and> \<not> v_live v)" using assms by (auto simp: view_ok_def stage_defs)
  with assms(2) show ?thesis by (auto intro: view_okI(4,5) simp: stage_defs)
qed

lemma view_ok_lost:
  assumes "view_ok n v" and "v_up v = u # us"
  shows "view_ok n (v\<lparr>v_up := us\<rparr>)"
  using assms(1)
proof (cases rule: view_ok_cases)
  case pledging
  with assms(2) show ?thesis by (intro view_okI(4)) (auto simp: stage_defs)
next
  case pledged
  with assms(2) show ?thesis by (intro view_okI(3)) (auto simp: stage_defs)
next
  case withdrawn
  with assms(2) show ?thesis by (intro view_okI(4)) (auto simp: stage_defs)
next
  case closed
  with assms(2) show ?thesis by (intro view_okI(5)) (auto simp: stage_defs)
qed (use assms(2) in \<open>simp add: fresh_def\<close>)

lemma view_ok_loses:
  "view_ok n v \<Longrightarrow> v' = v\<lparr>v_up := v_up v'\<rparr> \<Longrightarrow> v_up v = v_up v' \<or> (\<exists>u. v_up v = u # v_up v') \<Longrightarrow> view_ok n v'"
  "view_ok n v \<Longrightarrow> v' = v\<lparr>v_down := v_down v'\<rparr> \<Longrightarrow> v_down v = v_down v' \<or> v_down v = Undo # v_down v' \<Longrightarrow> view_ok n v'"
proof -
  assume v: "view_ok n v" and "v' = v\<lparr>v_up := v_up v'\<rparr>" and up: "v_up v = v_up v' \<or> (\<exists>u. v_up v = u # v_up v')"
  then obtain us where v': "v' = v\<lparr>v_up := us\<rparr>" "v_up v = us \<or> (\<exists>u. v_up v = u # us)" by auto
  from v'(2) show "view_ok n v'"
  proof
    assume "v_up v = us"
    then have "v' = v" by (simp add: v'(1))
    with v show ?thesis by simp
  next
    assume "\<exists>u. v_up v = u # us"
    with view_ok_lost [OF v] show ?thesis by (auto simp: v'(1))
  qed
next
  assume v: "view_ok n v" and "v' = v\<lparr>v_down := v_down v'\<rparr>" and dn: "v_down v = v_down v' \<or> v_down v = Undo # v_down v'"
  then obtain ds where v': "v' = v\<lparr>v_down := ds\<rparr>" "v_down v = ds \<or> v_down v = Undo # ds" by auto
  from v'(2) show "view_ok n v'"
  proof
    assume "v_down v = ds"
    then have "v' = v" by (simp add: v'(1))
    with v show ?thesis by simp
  next
    assume "v_down v = Undo # ds"
    from view_ok_undo [OF v this] show ?thesis by (simp add: v'(1))
  qed
qed

lemma view_ok_pledging: "view_ok n v \<Longrightarrow> v_up v = Pledge # us \<Longrightarrow> n \<and> pledging v"
  by (auto simp: view_ok_def stage_defs)

lemma view_ok_held: "view_ok n v \<Longrightarrow> v_held v \<Longrightarrow> n \<and> pledged v"
  by (auto simp: view_ok_def stage_defs)

text \<open>
  A pre-commitment of the execution: \<open>own\<close> says that it is this participant's, \<open>complete\<close> that none is
  missing any more, which takes the participant's own; \<open>gs\<close> is what he is sent then.
\<close>

lemma view_ok_pre_commit:
  assumes "view_ok n v" and "own \<Longrightarrow> n \<and> v_up v = Pledge # us" and "\<not> own \<Longrightarrow> us = v_up v"
    and "complete \<Longrightarrow> n \<Longrightarrow> \<not> own \<Longrightarrow> v_held v"
    and "complete \<and> n \<Longrightarrow> \<exists>g. gs = Go # g" and "\<not> (complete \<and> n) \<Longrightarrow> gs = []"
  shows "view_ok n (v\<lparr>v_held := \<not> complete \<and> (own \<or> v_held v), v_done := v_done v \<or> complete, v_up := us, v_down := v_down v @ gs\<rparr>)"
proof (cases "complete \<and> n")
  case True
  then obtain g where gs: "gs = Go # g" using assms(5) by blast
  have "v_spent v \<and> v_live v \<and> \<not> v_com v \<and> \<not> v_rol v \<and> v_down v = [] \<and> Pledge \<notin> set us"
  proof (cases own)
    case True
    with view_ok_pledging [OF assms(1)] assms(2) show ?thesis by (simp add: pledging_def)
  next
    case False
    with view_ok_held [OF assms(1)] assms(3,4) True show ?thesis by (simp add: pledged_def)
  qed
  with True show ?thesis by (intro view_okI(5)) (simp_all add: closed_def gs)
next
  case False
  then have gs: "gs = []" by (rule assms(6))
  show ?thesis
  proof (cases own)
    case True
    then have n "v_up v = Pledge # us" using assms(2) by auto
    moreover from this have "pledging v" "\<not> complete" using view_ok_pledging [OF assms(1)] False by auto
    ultimately show ?thesis using True by (intro view_okI(3)) (auto simp: stage_defs gs)
  next
    case no: False
    show ?thesis
    proof (cases complete)
      case True
      then have "fresh v" "\<not> n" using False assms(1) by (auto simp: view_ok_def)
      then show ?thesis using no assms(3) by (intro view_okI(1)) (auto simp: stage_defs gs)
    next
      case False
      then have "v\<lparr>v_held := \<not> complete \<and> (own \<or> v_held v), v_done := v_done v \<or> complete, v_up := us, v_down := v_down v @ gs\<rparr> = v"
        using no assms(3) by (intro view.equality) (simp_all add: gs)
      with assms(1) show ?thesis by simp
    qed
  qed
qed

lemma view_ok_withdraw:
  assumes "view_ok n v" and "v_up v = Withdraw # us"
  shows "view_ok n (v\<lparr>v_held := False, v_up := us, v_down := v_down v @ [Undo]\<rparr>)"
proof -
  have "n \<and> (pledged v \<or> withdrawn v \<or> closed v)" using assms by (auto simp: view_ok_def stage_defs)
  with assms(2) show ?thesis by (auto intro: view_okI(4,5) simp: stage_defs)
qed

section \<open>The participant in the system\<close>

definition up_of :: "('a, 'm) coord_externs_scheme \<Rightarrow> atomic_exec_id \<Rightarrow> 'a cross_msg \<Rightarrow> up_msg option" where
  "up_of ext x m =
     (case coord_call_of ext m of
        Some (PreCommit cm) \<Rightarrow> (case de_pre_commit ext (msg_params (msg m)) of
            Inr p \<Rightarrow> if pc_exec_id p = x then Some Pledge else None
          | Inl _ \<Rightarrow> None)
      | Some (Revoke cm) \<Rightarrow> (case de_revoke ext (msg_params (msg m)) of
            Inr p \<Rightarrow> if rv_exec_id p = x then Some Withdraw else None
          | Inl _ \<Rightarrow> None)
      | None \<Rightarrow> None)"

definition down_of :: "('a, 'm) coord_externs_scheme \<Rightarrow> atomic_exec_id \<Rightarrow> 'a cross_msg \<Rightarrow> down_msg option" where
  "down_of ext x m =
     (if msg_params (msg m) \<noteq> x then None
      else if msg_method (msg m) = method_number ext ''CommitAtomicTransfer'' then Some Go
      else if msg_method (msg m) = method_number ext ''RollbackAtomicTransfer'' then Some Undo
      else None)"

text \<open>The coordinator has completed the execution.\<close>

definition completes ::
    "('a, 'm) coord_externs_scheme \<Rightarrow> atomic_exec_id \<Rightarrow> 'a ipc_address list \<Rightarrow> 'a sys_event \<Rightarrow> bool" where
  "completes ext x actors e \<longleftrightarrow>
     (case e of AtCoordinator env (PreCommit cm) True \<Rightarrow>
        (\<exists>p. de_pre_commit ext (msg_params (msg cm)) = Inr p \<and> pc_exec_id p = x \<and> pc_actors p = actors)
      | _ \<Rightarrow> False)"

definition prepared_with ::
    "('a, 'c, 'm) token_externs_scheme \<Rightarrow> 'a ipc_address \<Rightarrow> atomic_exec_id \<Rightarrow>
     ('a, ('a, 'c) token_state) recorded_world option \<Rightarrow> bool" where
  "prepared_with ext C x tw \<longleftrightarrow>
     (\<exists>w t. tw = Some w \<and> under_way ext (atomic_registry (wstate w)) (Prepared x) = Some t \<and> xfer_coordinator t = C)"

definition own_spent ::
    "('a, 'c, 'm) token_externs_scheme \<Rightarrow> ('a ipc_address \<times> atomic_input_id) list \<Rightarrow> 'a ipc_address \<Rightarrow>
     ('a, ('a, 'c) token_state) recorded_world option \<Rightarrow> bool" where
  "own_spent ext ids a tw \<longleftrightarrow>
     (\<exists>w i. tw = Some w \<and> find (\<lambda>p. fst p = a) ids = Some (a, i) \<and> spent ext i (atomic_registry (wstate w)))"

definition held_for ::
    "('a, 'c, 'm) token_externs_scheme \<Rightarrow> ('a ipc_address \<times> atomic_input_id) list \<Rightarrow> 'a ipc_address \<Rightarrow> 'a coordinator \<Rightarrow> bool" where
  "held_for ext ids a co \<longleftrightarrow>
     entry_of co (registry_key_of ext (compute_exec_id ext ids) (map fst ids)) (actor_text ext a) \<noteq> None"

definition view_of ::
    "('a, 'c, 'm) token_externs_scheme \<Rightarrow> 'a ipc_address \<Rightarrow> ('a ipc_address \<times> atomic_input_id) list \<Rightarrow>
     'a sys_event list \<Rightarrow> ('a, 'c) atomic_system \<Rightarrow> 'a ipc_address \<Rightarrow> view" where
  "view_of ext C ids evs s a =
     (let x = compute_exec_id ext ids
      in \<lparr>v_live = prepared_with ext C x (tokens s a),
          v_com = (\<exists>e \<in> set evs. ended C a x True e), v_rol = (\<exists>e \<in> set evs. ended C a x False e),
          v_held = held_for ext ids a (wstate (coord s)),
          v_done = (\<exists>e \<in> set evs. completes ext x (map fst ids) e),
          v_spent = own_spent ext ids a (tokens s a),
          v_up = List.map_filter (up_of ext x) (to_coord s a),
          v_down = List.map_filter (down_of ext x) (to_token s a)\<rparr>)"

text \<open>The aborts of the execution name its participants, and no participant refuses to commit it.\<close>

definition abort_named ::
    "('a, 'c, 'm) token_externs_scheme \<Rightarrow> ('a ipc_address \<times> atomic_input_id) list \<Rightarrow> 'a sys_event \<Rightarrow> bool" where
  "abort_named ext ids e \<longleftrightarrow>
     (case e of
        AtToken a env (AbortAtomicTransfer p) r \<Rightarrow> ab_exec_id p = compute_exec_id ext ids \<longrightarrow> ab_actors p = map fst ids
      | _ \<Rightarrow> True)"

definition commit_accepted ::
    "('a, 'c, 'm) token_externs_scheme \<Rightarrow> ('a ipc_address \<times> atomic_input_id) list \<Rightarrow> 'a sys_event \<Rightarrow> bool" where
  "commit_accepted ext ids e \<longleftrightarrow>
     (case e of
        TokenRefuses a m \<Rightarrow> down_of ext (compute_exec_id ext ids) m \<noteq> Some Go
      | _ \<Rightarrow> True)"

definition fair_event ::
    "('a, 'c, 'm) token_externs_scheme \<Rightarrow> ('a ipc_address \<times> atomic_input_id) list \<Rightarrow> 'a sys_event \<Rightarrow> bool" where
  "fair_event ext ids e \<longleftrightarrow> abort_named ext ids e \<and> commit_accepted ext ids e"

lemmas fair_defs = fair_event_def abort_named_def commit_accepted_def

definition revokes_named ::
    "('a, 'c, 'm) token_externs_scheme \<Rightarrow> ('a ipc_address \<times> atomic_input_id) list \<Rightarrow> 'a cross_msg list \<Rightarrow> bool" where
  "revokes_named ext ids ms \<longleftrightarrow>
     (\<forall>m \<in> set ms. \<forall>p. coord_call_of ext m = Some (Revoke m) \<longrightarrow> de_revoke ext (msg_params (msg m)) = Inr p \<longrightarrow>
        rv_exec_id p = compute_exec_id ext ids \<longrightarrow> rv_actors p = map fst ids)"

definition execution_inv ::
    "('a, 'c, 'm) token_externs_scheme \<Rightarrow> 'a ipc_address \<Rightarrow> ('a ipc_address \<times> atomic_input_id) list \<Rightarrow>
     'a sys_event list \<Rightarrow> ('a, 'c) atomic_system \<Rightarrow> bool" where
  "execution_inv ext C ids evs s \<longleftrightarrow>
     (\<forall>a \<in> dom (tokens s). view_ok (a \<in> fst ` set ids) (view_of ext C ids evs s a) \<and> revokes_named ext ids (to_coord s a))"

lemma view_of_simps [simp]:
  "v_live (view_of ext C ids evs s a) = prepared_with ext C (compute_exec_id ext ids) (tokens s a)"
  "v_com (view_of ext C ids evs s a) \<longleftrightarrow> (\<exists>e \<in> set evs. ended C a (compute_exec_id ext ids) True e)"
  "v_rol (view_of ext C ids evs s a) \<longleftrightarrow> (\<exists>e \<in> set evs. ended C a (compute_exec_id ext ids) False e)"
  "v_held (view_of ext C ids evs s a) = held_for ext ids a (wstate (coord s))"
  "v_done (view_of ext C ids evs s a) \<longleftrightarrow> (\<exists>e \<in> set evs. completes ext (compute_exec_id ext ids) (map fst ids) e)"
  "v_spent (view_of ext C ids evs s a) = own_spent ext ids a (tokens s a)"
  "v_up (view_of ext C ids evs s a) = List.map_filter (up_of ext (compute_exec_id ext ids)) (to_coord s a)"
  "v_down (view_of ext C ids evs s a) = List.map_filter (down_of ext (compute_exec_id ext ids)) (to_token s a)"
  by (simp_all add: view_of_def Let_def)

text \<open>A step that leaves everything about a participant as it is leaves its view as it is.\<close>

lemma view_of_same:
  assumes "tokens s' a = tokens s a" and "to_coord s' a = to_coord s a" and "to_token s' a = to_token s a"
    and "wstate (coord s') = wstate (coord s)" and "\<And>x c. \<not> ended C a x c e"
    and "\<And>x as. \<not> completes ext x as e"
  shows "view_of ext C ids (evs @ [e]) s' a = view_of ext C ids evs s a"
  using assms by (simp add: view_of_def bex_Un)


section \<open>The steps of the participant\<close>

lemma protocol_msg_to [simp]:
  "msg_to (msg (pre_commit_msg ext c ids)) = c" "msg_to (msg (revoke_msg ext c p)) = c"
  by (simp_all add: pre_commit_msg_def revoke_msg_def)

lemma find_own: "find (\<lambda>p. fst p = a) ids = Some (a, i) \<Longrightarrow> a \<in> fst ` set ids"
  by (force simp: find_Some_iff in_set_conv_nth)

lemma own_spent_mono:
  assumes "tokens s a = Some w" and "token_step ext recording_send w (env, call, r) w'" and "protocol_ok ext"
    and "own_spent ext ids a (Some w)"
  shows "own_spent ext ids a (Some w')"
  using assms(4) token_step_keeps_spent [OF assms(2) sender_pays_recording protocol_okD(2) [OF assms(3)]]
  by (auto simp: own_spent_def)

lemma up_of_pre_commit:
  assumes "protocol_ok ext"
  shows "up_of ext x (forwarded a (pre_commit_msg ext c ids)) = (if compute_exec_id ext ids = x \<and>
      (\<exists>p. de_pre_commit ext (msg_params (msg (pre_commit_msg ext c ids))) = Inr p) then Some Pledge else None)"
proof (cases "de_pre_commit ext (msg_params (msg (pre_commit_msg ext c ids)))")
  case (Inr p)
  moreover from this have "pc_exec_id p = compute_exec_id ext ids"
    by (auto simp: pre_commit_msg_def dest!: protocol_okD(6) [OF assms])
  ultimately show ?thesis by (auto simp: up_of_def coord_call_of_def pre_commit_msg_def)
qed (simp add: up_of_def coord_call_of_def pre_commit_msg_def)

lemma up_of_revoke:
  assumes "protocol_ok ext"
  shows "up_of ext x (forwarded a (revoke_msg ext c p)) = (if ab_exec_id p = x \<and>
      (\<exists>q. de_revoke ext (msg_params (msg (revoke_msg ext c p))) = Inr q) then Some Withdraw else None)"
proof (cases "de_revoke ext (msg_params (msg (revoke_msg ext c p)))")
  case (Inr q)
  moreover from this have "rv_exec_id q = ab_exec_id p"
    by (auto simp: revoke_msg_def dest!: protocol_okD(7) [OF assms])
  ultimately show ?thesis using protocol_okD(8) [OF assms] by (auto simp: up_of_def coord_call_of_def revoke_msg_def)
qed (use protocol_okD(8) [OF assms] in \<open>auto simp: up_of_def coord_call_of_def revoke_msg_def\<close>)

lemma revokes_named_append:
  "revokes_named ext ids (ms @ ms') \<longleftrightarrow> revokes_named ext ids ms \<and> revokes_named ext ids ms'"
  by (auto simp: revokes_named_def)

lemma revokes_named_pre_commit:
  assumes "protocol_ok ext"
  shows "revokes_named ext ids [forwarded a (pre_commit_msg ext c ids')]"
  using protocol_okD(8) [OF assms] by (auto simp: revokes_named_def call_of_forwarded pre_commit_msg_def)

lemma revokes_named_revoke:
  assumes "protocol_ok ext" and "ab_exec_id p = compute_exec_id ext ids \<Longrightarrow> ab_actors p = map fst ids"
  shows "revokes_named ext ids [forwarded a (revoke_msg ext c p)]"
  using assms(2) by (auto simp: revokes_named_def revoke_msg_def dest!: protocol_okD(7) [OF assms(1)])

lemma prepared_with_eq:
  "prepared_with ext C x (Some w) \<longleftrightarrow>
     (\<exists>t. under_way ext (atomic_registry (wstate w)) (Prepared x) = Some t \<and> xfer_coordinator t = C)"
  by (simp add: prepared_with_def)

text \<open>
  The view after a call of a user, or a message of somebody who is not the coordinator: what may change
  is the participant's own state and what it has sent.
\<close>

lemma view_after_call:
  assumes "tokens s a = Some w" and "\<And>x c. \<not> ended C a x c (AtToken a env call r)"
  shows "view_of ext C ids (evs @ [AtToken a env call r]) (post_to_coord C a (sent w w') (s\<lparr>tokens := (tokens s)(a \<mapsto> w')\<rparr>)) a =
    (view_of ext C ids evs s a)\<lparr>v_live := prepared_with ext C (compute_exec_id ext ids) (Some w'),
      v_spent := own_spent ext ids a (Some w'),
      v_up := List.map_filter (up_of ext (compute_exec_id ext ids)) (to_coord s a) @
        List.map_filter (up_of ext (compute_exec_id ext ids) \<circ> forwarded a) (filter (\<lambda>m. msg_to (msg m) = C) (sent w w'))\<rparr>"
  by (rule view.equality)
    (use assms in \<open>simp_all add: post_to_coord_def completes_def bex_Un map_filter_append map_filter_map\<close>)

text \<open>Preparing the execution itself: this happens once, so nothing has happened before.\<close>

lemma prepare_keeps_view:
  assumes "system_inv ext C s" and "protocol_ok ext" and "tokens s a = Some w"
    and "token_step ext recording_send w (env, PrepareAtomicTransfer ids, r) w'"
    and "find (\<lambda>p. fst p = a) ids = Some (a, i)"
    and "under_way ext (atomic_registry (wstate w)) (Initiated i) = Some t"
    and "under_way ext (atomic_registry (wstate w)) (Prepared (compute_exec_id ext ids)) = None"
    and "under_way ext (atomic_registry (wstate w')) =
      (under_way ext (atomic_registry (wstate w)))(Initiated i := None, Prepared (compute_exec_id ext ids) \<mapsto> t)"
    and "sent w w' = [pre_commit_msg ext (xfer_coordinator t) ids]"
    and "view_ok (a \<in> fst ` set ids) (view_of ext C ids evs s a)"
  shows "view_ok (a \<in> fst ` set ids) (view_of ext C ids (evs @ [AtToken a env (PrepareAtomicTransfer ids) r])
    (post_to_coord C a (sent w w') (s\<lparr>tokens := (tokens s)(a \<mapsto> w')\<rparr>)) a)"
proof -
  let ?x = "compute_exec_id ext ids" and ?v = "view_of ext C ids evs s a"
  have tokinv: "token_inv ext (wstate w)" by (rule system_invD(1) [OF assms(1,3)])
  have nm: "a \<in> fst ` set ids" by (rule find_own [OF assms(5)])
  have unspent: "\<not> v_spent ?v"
    using assms(3,5,6) by (auto simp: own_spent_def dest: spent_not_initiated)
  have inv': "token_inv ext (wstate w')"
    using token_step_effect [OF assms(4) tokinv protocol_okD(1) [OF assms(2)] sender_pays_recording] by simp
  have "spent ext i (atomic_registry (wstate w'))"
    by (rule initiated_spent [OF tokinv assms(6,4) _ inv']) (simp add: assms(8))
  then have sp: "own_spent ext ids a (Some w')" using assms(5) by (auto simp: own_spent_def)
  have live: "prepared_with ext C ?x (Some w') \<longleftrightarrow> xfer_coordinator t = C" "\<not> prepared_with ext C ?x (tokens s a)"
    using assms(3,7,8) by (simp_all add: prepared_with_def)
  let ?ups = "List.map_filter (up_of ext ?x \<circ> forwarded a) (filter (\<lambda>m. msg_to (msg m) = C) (sent w w'))"
  have ups: "?ups = [] \<or> ?ups = [Pledge] \<and> xfer_coordinator t = C"
    by (simp add: assms(9) map_filter_simps up_of_pre_commit [OF assms(2)])
  have no: "\<not> ended C a x c (AtToken a env (PrepareAtomicTransfer ids) r)" for x c by (simp add: ended_def)
  note after = view_after_call [OF assms(3) no]
  show ?thesis
  proof (cases "xfer_coordinator t = C")
    case True
    with ups have "?ups = [] \<or> ?ups = [Pledge]" by blast
    from view_ok_prepare [OF assms(10) unspent nm this] show ?thesis
      unfolding after by (rule view_ok_cong) (use sp live(1) True in simp_all)
  next
    case False
    with ups have none: "?ups = []" by blast
    show ?thesis
      unfolding after by (rule view_ok_cong [OF assms(10)]) (use none sp live False in simp_all)
  qed
qed

lemma calls_keep_view:
  assumes "system_inv ext C s" and "protocol_ok ext" and "tokens s a = Some w"
    and "token_step ext recording_send w (env, call, r) w'"
    and "\<And>x c. \<not> ended C a x c (AtToken a env call r)"
    and "view_ok (a \<in> fst ` set ids) (view_of ext C ids evs s a)"
  shows "view_ok (a \<in> fst ` set ids) (view_of ext C ids (evs @ [AtToken a env call r])
    (post_to_coord C a (sent w w') (s\<lparr>tokens := (tokens s)(a \<mapsto> w')\<rparr>)) a)"
proof -
  let ?x = "compute_exec_id ext ids" and ?v = "view_of ext C ids evs s a"
  let ?ups = "List.map_filter (up_of ext ?x \<circ> forwarded a) (filter (\<lambda>m. msg_to (msg m) = C) (sent w w'))"
  note d = system_invD [OF assms(1)] and after = view_after_call [OF assms(3,5)]
  have sp: "v_spent ?v \<Longrightarrow> own_spent ext ids a (Some w')"
    using own_spent_mono [OF assms(3,4,2)] assms(3) by simp
  have idle: ?thesis if "prepared_with ext C ?x (Some w') = v_live ?v" "?ups = []"
    unfolding after by (rule view_ok_cong [OF assms(6)]) (use that sp in simp_all)
  from assms(4) d(1) [OF assms(3)] protocol_okD(1) [OF assms(2)] show ?thesis
  proof (cases rule: token_protocol_cases)
    case (prepares ids' i t)
    show ?thesis
    proof (cases "compute_exec_id ext ids' = ?x")
      case True
      then have [simp]: "ids' = ids" by (rule protocol_okD(3) [OF assms(2)])
      show ?thesis unfolding prepares(1)
        by (simp, rule prepare_keeps_view [OF assms(1-3), of _ _ _ _ i t])
          (use assms(4,6) prepares d(2) [OF assms(3)] in simp_all)
    next
      case False
      show ?thesis
        by (rule idle) (use False assms(3) in \<open>simp_all add: prepares(5,6) map_filter_simps prepared_with_def up_of_pre_commit [OF assms(2)]\<close>)
    qed
  next
    case (aborts p t)
    let ?up = "up_of ext ?x (forwarded a (revoke_msg ext C p))"
    have lv: "prepared_with ext C ?x (Some w') = v_live ?v" using assms(3) by (simp add: prepared_with_def aborts(3))
    have ups: "?ups = (if xfer_coordinator t = C \<and> ?up = Some Withdraw then [Withdraw] else [])"
      by (auto simp: aborts(4) map_filter_simps up_of_revoke [OF assms(2)])
    show ?thesis
    proof (cases "xfer_coordinator t = C \<and> ?up = Some Withdraw")
      case True
      then have "v_live ?v" using aborts(2) assms(3) by (auto simp: prepared_with_def up_of_revoke [OF assms(2)] split: if_splits)
      from view_ok_abort [OF assms(6) this] show ?thesis
        unfolding after by (rule view_ok_cong) (use sp lv True ups in simp_all)
    qed (rule idle [OF lv], use ups in simp)
  next
    case (ends cm t)
    have "msg_params (msg cm) = ?x \<Longrightarrow> xfer_coordinator t \<noteq> C"
      using assms(5) [of "msg_params (msg cm)" True] assms(5) [of "msg_params (msg cm)" False] ends(1,4)
      by (auto simp: ended_def)
    then show ?thesis
      by (intro idle) (use assms(3) ends(3,5) in \<open>auto simp: prepared_with_def ends(6) map_filter_simps\<close>)
  next
    case other
    show ?thesis by (rule idle) (use assms(3) in \<open>simp_all add: prepared_with_def other(1,2) map_filter_simps\<close>)
  qed
qed

text \<open>What a call adds to the queue leaves the revocations of the execution named.\<close>

lemma calls_keep_named:
  assumes "system_inv ext C s" and "protocol_ok ext" and "tokens s a = Some w"
    and "token_step ext recording_send w (env, call, r) w'" and "fair_event ext ids (AtToken a env call r)"
    and "revokes_named ext ids (to_coord s a)"
  shows "revokes_named ext ids (to_coord s a @ map (forwarded a) (filter (\<lambda>m. msg_to (msg m) = C) (sent w w')))"
  using assms(4) system_invD(1) [OF assms(1,3)] protocol_okD(1) [OF assms(2)]
proof (cases rule: token_protocol_cases)
  case (prepares ids' i t)
  then show ?thesis
    using assms(6) revokes_named_pre_commit [OF assms(2)] by (simp add: revokes_named_append) (simp add: revokes_named_def)
next
  case (aborts p t)
  then have "ab_exec_id p = compute_exec_id ext ids \<Longrightarrow> ab_actors p = map fst ids" using assms(5) by (simp add: fair_defs)
  from assms(6) revokes_named_revoke [OF assms(2) this] aborts show ?thesis
    by (simp add: revokes_named_append) (simp add: revokes_named_def)
qed (use assms(6) in simp_all)

text \<open>A message of the coordinator that the participant accepts.\<close>

lemma view_after_delivery:
  assumes "tokens s a = Some w" and "to_token s a = m # ms" and "sent w w' = []"
    and "\<And>x c. ended C a x c (AtToken a env call r) \<longleftrightarrow> msg_params (msg m) = x \<and> c = commit"
  shows "view_of ext C ids (evs @ [AtToken a env call r])
      (post_to_coord C a (sent w w') (s\<lparr>tokens := (tokens s)(a \<mapsto> w'), to_token := (to_token s)(a := ms)\<rparr>)) a =
    (let v = view_of ext C ids evs s a; x = compute_exec_id ext ids
     in v\<lparr>v_live := prepared_with ext C x (Some w'), v_com := v_com v \<or> msg_params (msg m) = x \<and> commit,
          v_rol := v_rol v \<or> msg_params (msg m) = x \<and> \<not> commit, v_spent := own_spent ext ids a (Some w'),
          v_down := List.map_filter (down_of ext x) ms\<rparr>)"
  by (rule view.equality)
    (use assms in \<open>auto simp: post_to_coord_def completes_def bex_Un Let_def\<close>)

lemma delivery_keeps_view:
  assumes "system_inv ext C s" and "protocol_ok ext" and "tokens s a = Some w"
    and "token_step ext recording_send w (env, call, r) w'"
    and "to_token s a = m # ms" and "token_call_of ext m = Some call"
    and "view_ok (a \<in> fst ` set ids) (view_of ext C ids evs s a)"
  shows "view_ok (a \<in> fst ` set ids) (view_of ext C ids (evs @ [AtToken a env call r])
    (post_to_coord C a (sent w w') (s\<lparr>tokens := (tokens s)(a \<mapsto> w'), to_token := (to_token s)(a := ms)\<rparr>)) a)"
    and "sent w w' = []"
proof -
  let ?x = "compute_exec_id ext ids" and ?v = "view_of ext C ids evs s a" and ?n = "a \<in> fst ` set ids"
  note d = system_invD [OF assms(1)]
  define commit where "commit \<longleftrightarrow> call = CommitAtomicTransfer m"
  have call: "call = (if commit then CommitAtomicTransfer m else RollbackAtomicTransfer m)"
    "msg_method (msg m) = method_number ext (if commit then ''CommitAtomicTransfer'' else ''RollbackAtomicTransfer'')"
    using assms(6) by (auto simp: commit_def token_call_of_def split: if_splits)
  from assms(4) d(1) [OF assms(3)] protocol_okD(1) [OF assms(2)] obtain t where
    h: "under_way ext (atomic_registry (wstate w)) (Prepared (msg_params (msg m))) = Some t" "msg_from (msg m) = xfer_coordinator t"
      "under_way ext (atomic_registry (wstate w')) = (under_way ext (atomic_registry (wstate w)))(Prepared (msg_params (msg m)) := None)"
      "wrest w' = wrest w"
    by (cases rule: token_protocol_cases) (use call(1) in \<open>auto split: if_splits\<close>)
  from h(4) show none: "sent w w' = []" by simp
  have from_C: "msg_from (msg m) = C" using d(5) [of m a] assms(5) by simp
  have ended: "ended C a x c (AtToken a env call r) \<longleftrightarrow> msg_params (msg m) = x \<and> c = commit" for x c
    using from_C by (auto simp: ended_def call(1))
  let ?ds = "List.map_filter (down_of ext ?x) ms"
  have downs: "v_down ?v = (if msg_params (msg m) = ?x then (if commit then Go else Undo) # ?ds else ?ds)"
    using assms(5) call(2) protocol_okD(9) [OF assms(2)] by (simp add: map_filter_simps down_of_def)
  have sp: "v_spent ?v \<Longrightarrow> own_spent ext ids a (Some w')" using own_spent_mono [OF assms(3,4,2)] assms(3) by simp
  note after = view_after_delivery [OF assms(3,5) none ended]
  show "view_ok ?n (view_of ext C ids (evs @ [AtToken a env call r])
    (post_to_coord C a (sent w w') (s\<lparr>tokens := (tokens s)(a \<mapsto> w'), to_token := (to_token s)(a := ms)\<rparr>)) a)"
  proof (cases "msg_params (msg m) = ?x")
    case False
    have "prepared_with ext C ?x (Some w') = v_live ?v" using False assms(3) h(3) by (simp add: prepared_with_def)
    then show ?thesis
      unfolding after Let_def by - (rule view_ok_cong [OF assms(7)], use sp downs False in simp_all)
  next
    case True
    have live: "v_live ?v" "\<not> prepared_with ext C ?x (Some w')"
      using h(1-3) from_C True assms(3) by (auto simp: prepared_with_def)
    show ?thesis
    proof (cases commit)
      case c: True
      then have "v_down ?v = Go # ?ds" using downs True by simp
      from view_ok_commit [OF assms(7) live(1) this] show ?thesis
        unfolding after Let_def by (rule view_ok_cong) (use sp True live(2) c in simp_all)
    next
      case c: False
      then have "v_down ?v = Undo # ?ds" using downs True by simp
      from view_ok_rollback [OF assms(7) live(1) this] show ?thesis
        unfolding after Let_def by (rule view_ok_cong) (use sp True live(2) c in simp_all)
    qed
  qed
qed


section \<open>The steps of the coordinator\<close>

lemma commits_to:
  "filter (\<lambda>m. msg_to (msg m) = b) (map (\<lambda>a. exec_msg ext a (f a) x) as) = replicate (count_list as b) (exec_msg ext b (f b) x)"
  by (induction as) simp_all

lemma completes_pre_commit:
  "de_pre_commit ext (msg_params (msg cm)) = Inr p \<Longrightarrow>
     completes ext x as (AtCoordinator env (PreCommit cm) b) \<longleftrightarrow> b \<and> pc_exec_id p = x \<and> pc_actors p = as"
  by (cases b) (auto simp: completes_def)

lemma held_for_eq:
  "held_for ext ids b co \<longleftrightarrow>
     entry_of co (registry_key_of ext (compute_exec_id ext ids) (map fst ids)) (actor_text ext b) \<noteq> None"
  by (simp add: held_for_def)

text \<open>
  The view of a participant \<open>b\<close> after a step of the coordinator: the message \<open>cm\<close> is consumed from the
  queue of its sender if that is a participant, and the answers are appended to the queue of \<open>b\<close>.
\<close>

lemma view_after_coordinator:
  assumes "to_coord s b = (if b = msg_from (msg cm) then [cm] else []) @ q b"
  shows "view_of ext C ids (evs @ [AtCoordinator env call flag])
      (post_to_tokens C ms (s\<lparr>coord := w', to_coord := q\<rparr>)) b =
    (let v = view_of ext C ids evs s b; x = compute_exec_id ext ids
     in v\<lparr>v_held := held_for ext ids b (wstate w'),
          v_done := v_done v \<or> completes ext x (map fst ids) (AtCoordinator env call flag),
          v_up := (if b = msg_from (msg cm) \<and> up_of ext x cm \<noteq> None then tl (v_up v) else v_up v),
          v_down := v_down v @ List.map_filter (down_of ext x \<circ> forwarded C) (filter (\<lambda>m. msg_to (msg m) = b) ms)\<rparr>)"
  by (rule view.equality)
    (use assms in \<open>auto simp: post_to_tokens_def ended_def bex_Un Let_def map_filter_append map_filter_map map_filter_simps\<close>)

text \<open>A pledge the coordinator counts for a token is one the token has sent.\<close>

lemma counted_pledge:
  assumes "system_inv ext C s" and "protocol_ok ext" and b: "b \<in> dom (tokens s)"
    and "b = msg_from (msg cm) \<longrightarrow> up_form ext b cm \<and> coord_call_of ext cm = Some (PreCommit cm)"
    and "de_pre_commit ext (msg_params (msg cm)) = Inr p"
    and "((entry_of (wstate (coord s)) (registry_key_of ext (pc_exec_id p) (pc_actors p)))
        (actor_text ext (msg_from (msg cm)) \<mapsto> pc_commit p)) (actor_text ext b) = Some n"
  shows "n = method_number ext ''CommitAtomicTransfer''"
    and "pc_exec_id p = compute_exec_id ext ids \<Longrightarrow> pc_actors p = map fst ids"
proof -
  have "n = method_number ext ''CommitAtomicTransfer'' \<and> (\<exists>ids. pc_exec_id p = compute_exec_id ext ids \<and> pc_actors p = map fst ids)"
  proof (cases "b = msg_from (msg cm)")
    case True
    with assms(6) have "n = pc_commit p" by simp
    with assms(4,5) True show ?thesis unfolding up_form_def by blast
  next
    case False
    then have "entry_of (wstate (coord s)) (registry_key_of ext (pc_exec_id p) (pc_actors p)) (actor_text ext b) = Some n"
      using assms(6) protocol_okD(5) [OF assms(2)] by simp
    from system_invD(6) [OF assms(1) b this] show ?thesis using protocol_okD(4) [OF assms(2)] by auto
  qed
  then show "n = method_number ext ''CommitAtomicTransfer''"
    and "pc_exec_id p = compute_exec_id ext ids \<Longrightarrow> pc_actors p = map fst ids"
    using protocol_okD(3) [OF assms(2)] by auto
qed

lemma pre_commit_keeps_view:
  assumes "system_inv ext C s" and "protocol_ok ext"
    and "coord_step ext recording_send (coord s) (env, PreCommit cm, flag) w'"
    and q: "to_coord s b = (if b = msg_from (msg cm) then [cm] else []) @ q b"
    and "msg_from (msg cm) \<in> dom (tokens s) \<Longrightarrow> coord_call_of ext cm = Some (PreCommit cm)"
    and b: "b \<in> dom (tokens s)"
    and "view_ok (b \<in> fst ` set ids) (view_of ext C ids evs s b)"
  shows "view_ok (b \<in> fst ` set ids) (view_of ext C ids (evs @ [AtCoordinator env (PreCommit cm) flag])
    (post_to_tokens C (sent (coord s) w') (s\<lparr>coord := w', to_coord := q\<rparr>)) b)"
proof -
  let ?x = "compute_exec_id ext ids" and ?from = "msg_from (msg cm)"
  let ?v = "view_of ext C ids evs s b" and ?n = "b \<in> fst ` set ids"
  have form: "b = ?from \<longrightarrow> up_form ext b cm \<and> coord_call_of ext cm = Some (PreCommit cm)"
    using system_invD(4) [OF assms(1), of cm b] q assms(5) b by auto
  from assms(3) obtain p entry where p: "de_pre_commit ext (msg_params (msg cm)) = Inr p"
    and mem: "?from \<in> set (pc_actors p)"
    and entry: "entry = (entry_of (wstate (coord s)) (registry_key_of ext (pc_exec_id p) (pc_actors p)))(actor_text ext ?from \<mapsto> pc_commit p)"
    and flag: "flag \<longleftrightarrow> (\<forall>a \<in> set (pc_actors p). entry (actor_text ext a) \<noteq> None)"
    and after: "\<And>k. entry_of (wstate w') k = (if k = registry_key_of ext (pc_exec_id p) (pc_actors p)
         then if flag then Map.empty else entry else entry_of (wstate (coord s)) k)"
    and out: "sent (coord s) w' = (if flag then map (\<lambda>a. exec_msg ext a (the (entry (actor_text ext a))) (pc_exec_id p)) (pc_actors p) else [])"
    by (cases rule: coord_protocol_cases) auto
  note counted = counted_pledge [OF assms(1,2) b form p, folded entry]
  have own: "entry (actor_text ext b) = Some (pc_commit p)" if "b = ?from" using that by (simp add: entry)
  define K where "K \<longleftrightarrow> pc_exec_id p = ?x \<and> pc_actors p = map fst ids"
  have named: "b \<in> set (pc_actors p) \<longleftrightarrow> ?n" if K using that by (simp add: K_def)
  have upK: "up_of ext ?x cm = (if K then Some Pledge else None)" if "b = ?from"
    using form that p counted(2) [OF own [OF that]] by (auto simp: up_of_def K_def)
  have to_b: "filter (\<lambda>m. msg_to (msg m) = b) (sent (coord s) w') =
      (if flag then replicate (count_list (pc_actors p) b) (exec_msg ext b (the (entry (actor_text ext b))) (pc_exec_id p)) else [])"
    by (simp add: out commits_to)
  define gs where "gs = List.map_filter (down_of ext ?x \<circ> forwarded C) (filter (\<lambda>m. msg_to (msg m) = b) (sent (coord s) w'))"
  have gs_None: "gs = []" if "\<not> (flag \<and> b \<in> set (pc_actors p))"
    using that by (auto simp: gs_def to_b map_filter_simps count_list_0_iff)
  have gs_Go: "gs = (if K then replicate (count_list (pc_actors p) b) Go else [])" if "flag" "b \<in> set (pc_actors p)"
  proof -
    from that flag obtain n where n: "entry (actor_text ext b) = Some n" by blast
    from counted [OF this] that(1) n show ?thesis
      by (auto simp: gs_def to_b map_filter_replicate down_of_def K_def split: option.split)
  qed
  have after_view: "view_of ext C ids (evs @ [AtCoordinator env (PreCommit cm) flag])
      (post_to_tokens C (sent (coord s) w') (s\<lparr>coord := w', to_coord := q\<rparr>)) b =
    ?v\<lparr>v_held := (if K then \<not> flag \<and> (b = ?from \<or> v_held ?v) else v_held ?v), v_done := v_done ?v \<or> flag \<and> K,
       v_up := (if b = ?from \<and> K then tl (v_up ?v) else v_up ?v), v_down := v_down ?v @ gs\<rparr>"
    unfolding view_after_coordinator [where q = q, OF q] Let_def gs_def [symmetric]
    by (rule view.equality)
      (use upK protocol_okD(4,5) [OF assms(2)] in \<open>auto simp: K_def completes_pre_commit [OF p] held_for_eq after entry\<close>)
  show ?thesis
  proof (cases K)
    case False
    with gs_None gs_Go have "gs = []" by (cases "flag \<and> b \<in> set (pc_actors p)") auto
    with False show ?thesis unfolding after_view by (intro view_ok_cong [OF assms(7)]) simp_all
  next
    case True
    have "view_ok ?n (?v\<lparr>v_held := \<not> flag \<and> (b = ?from \<or> v_held ?v), v_done := v_done ?v \<or> flag,
        v_up := if b = ?from then tl (v_up ?v) else v_up ?v, v_down := v_down ?v @ gs\<rparr>)"
    proof (rule view_ok_pre_commit [OF assms(7)])
      show "?n \<and> v_up ?v = Pledge # (if b = ?from then tl (v_up ?v) else v_up ?v)" if "b = ?from"
        using that upK True mem named q by (simp add: map_filter_simps)
      show "v_held ?v" if "flag" ?n "b \<noteq> ?from"
      proof -
        have "entry (actor_text ext b) \<noteq> None" using that(1,2) flag named [OF True] by blast
        then show ?thesis
          using that(3) True protocol_okD(5) [OF assms(2)] by (simp add: entry held_for_eq K_def)
      qed
      show "\<exists>g. gs = Go # g" if "flag \<and> ?n"
        using that gs_Go True named [OF True] by (cases "count_list (pc_actors p) b") (auto simp: count_list_0_iff)
      show "gs = []" if "\<not> (flag \<and> ?n)" using that gs_None named [OF True] by blast
    qed simp
    with True show ?thesis unfolding after_view by simp
  qed
qed

lemma revoke_keeps_view:
  assumes "system_inv ext C s" and "protocol_ok ext"
    and "coord_step ext recording_send (coord s) (env, Revoke cm, flag) w'"
    and q: "to_coord s b = (if b = msg_from (msg cm) then [cm] else []) @ q b"
    and "msg_from (msg cm) \<in> dom (tokens s) \<Longrightarrow> coord_call_of ext cm = Some (Revoke cm)"
    and b: "b \<in> dom (tokens s)"
    and "view_ok (b \<in> fst ` set ids) (view_of ext C ids evs s b)" and "revokes_named ext ids (to_coord s b)"
  shows "view_ok (b \<in> fst ` set ids) (view_of ext C ids (evs @ [AtCoordinator env (Revoke cm) flag])
    (post_to_tokens C (sent (coord s) w') (s\<lparr>coord := w', to_coord := q\<rparr>)) b)"
proof -
  let ?x = "compute_exec_id ext ids" and ?from = "msg_from (msg cm)" and ?v = "view_of ext C ids evs s b"
  have form: "up_form ext b cm" "coord_call_of ext cm = Some (Revoke cm)" if "b = ?from"
    using system_invD(4) [OF assms(1), of cm b] q assms(5) b that by auto
  from assms(3) obtain p where p: "de_revoke ext (msg_params (msg cm)) = Inr p"
    and after: "\<And>k. entry_of (wstate w') k = (if k = registry_key_of ext (rv_exec_id p) (rv_actors p)
         then (entry_of (wstate (coord s)) k)(actor_text ext ?from := None) else entry_of (wstate (coord s)) k)"
    and out: "sent (coord s) w' = [exec_msg ext ?from (rv_rollback p) (rv_exec_id p)]"
    by (cases rule: coord_protocol_cases) auto
  note after_view = view_after_coordinator [where q = q, OF q] and txts = protocol_okD(5) [OF assms(2)]
  have no: "\<not> completes ext ?x (map fst ids) (AtCoordinator env (Revoke cm) flag)" by (simp add: completes_def)
  show ?thesis
  proof (cases "b = ?from \<and> rv_exec_id p = ?x")
    case True
    have f: "rv_rollback p = method_number ext ''RollbackAtomicTransfer''" "rv_actors p = map fst ids"
      using form assms(8) q p True by (auto simp: up_form_def revokes_named_def)
    have u: "up_of ext ?x cm = Some Withdraw" using form(2) p True by (simp add: up_of_def)
    with q True have "v_up ?v = Withdraw # tl (v_up ?v)" by (simp add: map_filter_simps)
    from view_ok_withdraw [OF assms(7) this] show ?thesis
      unfolding after_view Let_def
      by (rule view_ok_cong)
        (use True u f no protocol_okD(9) [OF assms(2)] in \<open>simp_all add: out held_for_eq after down_of_def map_filter_simps\<close>)
  next
    case False
    have "up_of ext ?x cm = None" if "b = ?from" using form(2) p False that by (simp add: up_of_def)
    with False no show ?thesis
      unfolding after_view Let_def
      by (intro view_ok_cong [OF assms(7)])
        (use txts protocol_okD(4) [OF assms(2)] in \<open>auto simp: out held_for_eq after down_of_def map_filter_simps\<close>)
  qed
qed

section \<open>Every step keeps every view\<close>

lemma execution_invI:
  "(\<And>a. a \<in> dom (tokens s) \<Longrightarrow> view_ok (a \<in> fst ` set ids) (view_of ext C ids evs s a)) \<Longrightarrow>
     (\<And>a. a \<in> dom (tokens s) \<Longrightarrow> revokes_named ext ids (to_coord s a)) \<Longrightarrow> execution_inv ext C ids evs s"
  by (simp add: execution_inv_def)

lemma execution_invD:
  assumes "execution_inv ext C ids evs s" and "a \<in> dom (tokens s)"
  shows "view_ok (a \<in> fst ` set ids) (view_of ext C ids evs s a)" and "revokes_named ext ids (to_coord s a)"
  using assms by (simp_all add: execution_inv_def)

text \<open>A step of one token changes the view of that token only.\<close>

lemma token_event_inv:
  assumes "execution_inv ext C ids evs s" and "a \<in> dom (tokens s)"
    and "s' = post_to_coord C a ms (s\<lparr>tokens := (tokens s)(a \<mapsto> w'), to_token := (to_token s)(a := ns)\<rparr>)"
    and "view_ok (a \<in> fst ` set ids) (view_of ext C ids (evs @ [AtToken a env call r]) s' a)"
    and "revokes_named ext ids (to_coord s' a)"
  shows "execution_inv ext C ids (evs @ [AtToken a env call r]) s'"
proof (rule execution_invI)
  fix b
  assume "b \<in> dom (tokens s')"
  then have b: "b \<in> dom (tokens s)" using assms(2) by (auto simp: assms(3) post_to_coord_def split: if_splits)
  note k = execution_invD [OF assms(1) b]
  have "view_of ext C ids (evs @ [AtToken a env call r]) s' b = view_of ext C ids evs s b" if "b \<noteq> a"
    using that by (intro view_of_same) (simp_all add: assms(3) post_to_coord_def ended_def completes_def)
  with k assms(4) show "view_ok (b \<in> fst ` set ids) (view_of ext C ids (evs @ [AtToken a env call r]) s' b)"
    by (cases "b = a") simp_all
  show "revokes_named ext ids (to_coord s' b)"
    using k assms(5) by (cases "b = a") (simp_all add: assms(3) post_to_coord_def)
qed

lemma call_event_inv:
  assumes "execution_inv ext C ids evs s" and "system_inv ext C s" and "protocol_ok ext" and "tokens s a = Some w"
    and "token_step ext recording_send w (env, call, r) w'" and "fair_event ext ids (AtToken a env call r)"
    and "\<And>x c. \<not> ended C a x c (AtToken a env call r)"
  shows "execution_inv ext C ids (evs @ [AtToken a env call r])
    (post_to_coord C a (sent w w') (s\<lparr>tokens := (tokens s)(a \<mapsto> w')\<rparr>))"
proof -
  have a: "a \<in> dom (tokens s)" using assms(4) by blast
  note k = execution_invD [OF assms(1) a]
  show ?thesis
    by (rule token_event_inv [where ns = "to_token s a" and ms = "sent w w'" and w' = w', OF assms(1) a])
      (use calls_keep_view [OF assms(2-5,7) k(1)] calls_keep_named [OF assms(2-6) k(2)] in \<open>simp_all add: post_to_coord_def\<close>)
qed

lemma coordinator_event_inv:
  assumes "execution_inv ext C ids evs s" and "system_inv ext C s" and "protocol_ok ext"
    and "coord_step ext recording_send (coord s) (env, call, flag) w'" and "call = PreCommit cm \<or> call = Revoke cm"
    and "\<And>b. b \<in> dom (tokens s) \<Longrightarrow> to_coord s b = (if b = msg_from (msg cm) then [cm] else []) @ q b"
    and "msg_from (msg cm) \<in> dom (tokens s) \<Longrightarrow> coord_call_of ext cm = Some call"
  shows "execution_inv ext C ids (evs @ [AtCoordinator env call flag])
    (post_to_tokens C (sent (coord s) w') (s\<lparr>coord := w', to_coord := q\<rparr>))"
proof (rule execution_invI)
  fix b
  assume "b \<in> dom (tokens (post_to_tokens C (sent (coord s) w') (s\<lparr>coord := w', to_coord := q\<rparr>)))"
  then have b: "b \<in> dom (tokens s)" by (simp add: post_to_tokens_def)
  note k = execution_invD [OF assms(1) b]
  show "view_ok (b \<in> fst ` set ids) (view_of ext C ids (evs @ [AtCoordinator env call flag])
      (post_to_tokens C (sent (coord s) w') (s\<lparr>coord := w', to_coord := q\<rparr>)) b)"
    using assms(5)
  proof
    assume c: "call = PreCommit cm"
    show ?thesis unfolding c
      by (rule pre_commit_keeps_view [where q = q, OF assms(2,3) assms(4) [unfolded c] assms(6) [OF b] assms(7) [unfolded c] b k(1)])
  next
    assume c: "call = Revoke cm"
    show ?thesis unfolding c
      by (rule revoke_keeps_view [where q = q, OF assms(2,3) assms(4) [unfolded c] assms(6) [OF b] assms(7) [unfolded c] b k])
  qed
  show "revokes_named ext ids (to_coord (post_to_tokens C (sent (coord s) w') (s\<lparr>coord := w', to_coord := q\<rparr>)) b)"
    using k(2) unfolding assms(6) [OF b] by (simp add: post_to_tokens_def revokes_named_append)
qed

text \<open>A refused message leaves its queue, and nothing else happens.\<close>

lemma refusal_inv:
  assumes "execution_inv ext C ids evs s"
    and "\<And>a x c. \<not> ended C a x c e" and "\<And>x as. \<not> completes ext x as e"
  shows "to_coord s a = m # ms \<Longrightarrow> execution_inv ext C ids (evs @ [e]) (s\<lparr>to_coord := (to_coord s)(a := ms)\<rparr>)"
    and "to_token s a = m # ms \<Longrightarrow> down_of ext (compute_exec_id ext ids) m \<noteq> Some Go \<Longrightarrow>
      execution_inv ext C ids (evs @ [e]) (s\<lparr>to_token := (to_token s)(a := ms)\<rparr>)"
proof -
  let ?x = "compute_exec_id ext ids"
  assume q: "to_coord s a = m # ms"
  let ?s = "s\<lparr>to_coord := (to_coord s)(a := ms)\<rparr>"
  show "execution_inv ext C ids (evs @ [e]) ?s"
  proof (rule execution_invI)
    fix b assume "b \<in> dom (tokens ?s)"
    then have k: "view_ok (b \<in> fst ` set ids) (view_of ext C ids evs s b)" "revokes_named ext ids (to_coord s b)"
      using execution_invD [OF assms(1)] by simp_all
    show "view_ok (b \<in> fst ` set ids) (view_of ext C ids (evs @ [e]) ?s b)"
      by (rule view_ok_loses(1) [OF k(1)], rule view.equality)
        (use assms(2,3) q in \<open>auto simp: bex_Un map_filter_simps split: option.split\<close>)
    show "revokes_named ext ids (to_coord ?s b)" using k(2) q by (auto simp: revokes_named_def)
  qed
next
  let ?x = "compute_exec_id ext ids"
  assume q: "to_token s a = m # ms" and ng: "down_of ext ?x m \<noteq> Some Go"
  let ?s = "s\<lparr>to_token := (to_token s)(a := ms)\<rparr>"
  show "execution_inv ext C ids (evs @ [e]) ?s"
  proof (rule execution_invI)
    fix b assume "b \<in> dom (tokens ?s)"
    then have k: "view_ok (b \<in> fst ` set ids) (view_of ext C ids evs s b)" "revokes_named ext ids (to_coord s b)"
      using execution_invD [OF assms(1)] by simp_all
    have "y = Undo" if "down_of ext ?x m = Some y" for y using that ng by (cases y) auto
    then show "view_ok (b \<in> fst ` set ids) (view_of ext C ids (evs @ [e]) ?s b)"
      by (intro view_ok_loses(2) [OF k(1)] view.equality)
        (use assms(2,3) q in \<open>auto simp: bex_Un map_filter_simps split: option.split\<close>)
    show "revokes_named ext ids (to_coord ?s b)" using k(2) by simp
  qed
qed

lemma atomic_step_keeps_views:
  assumes "atomic_step ext C s e s'" and "system_inv ext C s" and "protocol_ok ext"
    and "fair_event ext ids e" and "execution_inv ext C ids evs s"
  shows "execution_inv ext C ids (evs @ [e]) s'"
  using assms(1)
proof cases
  case (user_call a w env call r w')
  have "\<not> ended C a x c (AtToken a env call r)" for x c
  proof
    assume "ended C a x c (AtToken a env call r)"
    then obtain cm where "call = CommitAtomicTransfer cm \<or> call = RollbackAtomicTransfer cm"
      by (auto simp: ended_def split: if_splits)
    with user_call(5) system_invD(1) [OF assms(2) user_call(3)] protocol_okD(1) [OF assms(3)] user_call(4) show False
      by (cases rule: token_protocol_cases) auto
  qed
  from call_event_inv [OF assms(5,2,3) user_call(3,5) assms(4) [unfolded user_call(1)] this]
  show ?thesis by (simp add: user_call(1,2))
next
  case (stranger_to_token a w cm call env r w')
  have "\<not> ended C a x c (AtToken a env call r)" for x c
    using stranger_to_token(4,5) by (auto simp: ended_def split: if_splits)
  from call_event_inv [OF assms(5,2,3) stranger_to_token(3,6) assms(4) [unfolded stranger_to_token(1)] this]
  show ?thesis by (simp add: stranger_to_token(1,2))
next
  case (to_participant a m ms w call env r w')
  have a: "a \<in> dom (tokens s)" using to_participant(4) by blast
  note k = execution_invD [OF assms(5) a]
  note h = delivery_keeps_view [OF assms(2,3) to_participant(4,7,3,5) k(1)]
  show ?thesis unfolding to_participant(1,2)
    by (rule token_event_inv [OF assms(5) a refl h(1)]) (use k(2) h(2) in \<open>simp add: post_to_coord_def\<close>)
next
  case (to_coordinator a m ms call env b w')
  have f: "msg_from (msg m) = a"
    using up_formD [OF system_invD(4) [OF assms(2)]] to_coordinator(3) by simp
  show ?thesis unfolding to_coordinator(1,2)
    by (rule coordinator_event_inv [OF assms(5,2,3) to_coordinator(5) coord_call_of_cases [OF to_coordinator(4)]])
      (use to_coordinator(3,4) in \<open>simp_all add: f\<close>)
next
  case (stranger_to_coordinator cm call env b w')
  have "execution_inv ext C ids (evs @ [AtCoordinator env call b])
      (post_to_tokens C (sent (coord s) w') (s\<lparr>coord := w', to_coord := to_coord s\<rparr>))"
    by (rule coordinator_event_inv [OF assms(5,2,3) stranger_to_coordinator(5,4)])
      (use stranger_to_coordinator(3) in auto)
  then show ?thesis by (simp add: stranger_to_coordinator(1,2))
next
  case (coordinator_refuses a m ms)
  show ?thesis unfolding coordinator_refuses(1,2)
    by (rule refusal_inv(1) [OF assms(5) _ _ coordinator_refuses(3)]) (simp_all add: ended_def completes_def)
next
  case (participant_refuses a m ms w)
  show ?thesis unfolding participant_refuses(1,2)
    by (rule refusal_inv(2) [OF assms(5) _ _ participant_refuses(3)])
      (use assms(4) in \<open>simp_all add: participant_refuses(1) ended_def completes_def fair_defs\<close>)
qed

end
