(* ===== verification/Atomic_Runs.thy ===== *)
theory Atomic_Runs
  imports Atomicity "HOL-Library.Countable"
begin

text \<open>
  Runs of the system of tokens and coordinator that can be computed: scripts of calls and deliveries,
  and two sample tokens with forms that read back.
\<close>

section \<open>Scripts\<close>

datatype 'a action =
    UserCall "'a ipc_address" "'a msg_env" "'a token_call"
  | DeliverUp "'a ipc_address" "'a msg_env"
  | DeliverDown "'a ipc_address" "'a msg_env"
  | RefuseDown "'a ipc_address" "'a msg_env"

definition token_does ::
    "('a, 'c, 'm) token_externs_scheme \<Rightarrow> 'a ipc_address \<Rightarrow> 'a ipc_address \<Rightarrow> 'a msg_env \<Rightarrow> 'a token_call \<Rightarrow>
     ('a, ('a, 'c) token_state) recorded_world \<Rightarrow> ('a, 'c) atomic_system \<Rightarrow> ('a sys_event \<times> ('a, 'c) atomic_system) option" where
  "token_does ext C a env call w s =
     (case token_invoke ext recording_send env call (credited env w) of
        Inl _ \<Rightarrow> None
      | Inr (r, w') \<Rightarrow> Some (AtToken a env call r, post_to_coord C a (sent w w') (s\<lparr>tokens := (tokens s)(a \<mapsto> w')\<rparr>)))"

fun perform ::
    "('a, 'c, 'm) token_externs_scheme \<Rightarrow> 'a ipc_address \<Rightarrow> 'a action \<Rightarrow> ('a, 'c) atomic_system \<Rightarrow>
     ('a sys_event \<times> ('a, 'c) atomic_system) option" where
  "perform ext C (UserCall a env call) s =
     (case tokens s a of
        None \<Rightarrow> None
      | Some w \<Rightarrow> if caller env = tok_gateway (wstate w) \<or> value_received env < 0 then None
          else token_does ext C a env call w s)"
| "perform ext C (DeliverUp a env) s =
     (case to_coord s a of
        [] \<Rightarrow> None
      | m # ms \<Rightarrow>
          (case coord_call_of ext m of
             None \<Rightarrow> None
           | Some call \<Rightarrow> if value_received env < 0 then None else
               (case coord_invoke ext recording_send env call (credited env (coord s)) of
                  Inl _ \<Rightarrow> None
                | Inr (b, w') \<Rightarrow> Some (AtCoordinator env call b,
                    post_to_tokens C (sent (coord s) w') (s\<lparr>coord := w', to_coord := (to_coord s)(a := ms)\<rparr>)))))"
| "perform ext C (DeliverDown a env) s =
     (case (to_token s a, tokens s a) of
        (m # ms, Some w) \<Rightarrow>
          (case token_call_of ext m of
             None \<Rightarrow> None
           | Some call \<Rightarrow> if caller env \<noteq> tok_gateway (wstate w) \<or> value_received env < 0 then None
               else token_does ext C a env call w (s\<lparr>to_token := (to_token s)(a := ms)\<rparr>))
      | _ \<Rightarrow> None)"
| "perform ext C (RefuseDown a env) s =
     (case (to_token s a, tokens s a) of
        (m # ms, Some w) \<Rightarrow>
          (case token_call_of ext m of
             None \<Rightarrow> None
           | Some call \<Rightarrow>
               (case token_invoke ext recording_send env call w of
                  Inr _ \<Rightarrow> None
                | Inl _ \<Rightarrow> if caller env \<noteq> tok_gateway (wstate w) then None
                    else Some (TokenRefuses a m, s\<lparr>to_token := (to_token s)(a := ms)\<rparr>)))
      | _ \<Rightarrow> None)"

fun performs ::
    "('a, 'c, 'm) token_externs_scheme \<Rightarrow> 'a ipc_address \<Rightarrow> 'a action list \<Rightarrow> ('a, 'c) atomic_system \<Rightarrow>
     ('a sys_event list \<times> ('a, 'c) atomic_system) option" where
  "performs ext C [] s = Some ([], s)"
| "performs ext C (act # acts) s =
     (case perform ext C act s of
        None \<Rightarrow> None
      | Some (e, s1) \<Rightarrow> map_option (\<lambda>(evs, s2). (e # evs, s2)) (performs ext C acts s1))"

lemma perform_step:
  assumes "perform ext C act s = Some (e, s')"
  shows "atomic_step ext C s e s'"
proof (cases act)
  case (UserCall a env call)
  with assms obtain w r w' where "tokens s a = Some w" "caller env \<noteq> tok_gateway (wstate w)" "0 \<le> value_received env"
    "token_invoke ext recording_send env call (credited env w) = Inr (r, w')" "e = AtToken a env call r"
    "s' = post_to_coord C a (sent w w') (s\<lparr>tokens := (tokens s)(a \<mapsto> w')\<rparr>)"
    by (auto simp: token_does_def split: option.splits if_splits sum.splits prod.splits)
  then show ?thesis by (auto intro: user_call token_message)
next
  case (DeliverUp a env)
  with assms obtain m ms call b w' where "to_coord s a = m # ms" "coord_call_of ext m = Some call" "0 \<le> value_received env"
    "coord_invoke ext recording_send env call (credited env (coord s)) = Inr (b, w')" "e = AtCoordinator env call b"
    "s' = post_to_tokens C (sent (coord s) w') (s\<lparr>coord := w', to_coord := (to_coord s)(a := ms)\<rparr>)"
    by (auto split: option.splits if_splits sum.splits prod.splits list.splits)
  then show ?thesis by (auto intro: to_coordinator coord_message)
next
  case (DeliverDown a env)
  with assms obtain m ms w call r w' where "to_token s a = m # ms" "tokens s a = Some w" "token_call_of ext m = Some call"
    "caller env = tok_gateway (wstate w)" "0 \<le> value_received env"
    "token_invoke ext recording_send env call (credited env w) = Inr (r, w')" "e = AtToken a env call r"
    "s' = post_to_coord C a (sent w w') (s\<lparr>to_token := (to_token s)(a := ms), tokens := (tokens s)(a \<mapsto> w')\<rparr>)"
    by (auto simp: token_does_def split: option.splits if_splits sum.splits prod.splits list.splits)
  moreover have "s\<lparr>to_token := (to_token s)(a := ms), tokens := (tokens s)(a \<mapsto> w')\<rparr> =
      s\<lparr>tokens := (tokens s)(a \<mapsto> w'), to_token := (to_token s)(a := ms)\<rparr>" by (cases s) simp
  ultimately show ?thesis by (auto intro: to_participant token_message)
next
  case (RefuseDown a env)
  with assms obtain m ms w call er where "to_token s a = m # ms" "tokens s a = Some w" "token_call_of ext m = Some call"
    "caller env = tok_gateway (wstate w)" "token_invoke ext recording_send env call w = Inl er" "e = TokenRefuses a m"
    "s' = s\<lparr>to_token := (to_token s)(a := ms)\<rparr>"
    by (auto split: option.splits if_splits sum.splits list.splits)
  then show ?thesis by (auto intro!: participant_refuses exI [of _ env])
qed

lemma performs_run:
  "performs ext C acts s = Some (evs, s') \<Longrightarrow> run (atomic_step ext C) s evs s'"
proof (induction acts arbitrary: s evs)
  case (Cons act acts)
  then show ?case by (fastforce split: option.splits prod.splits intro: run_cons perform_step)
qed auto

section \<open>Two sample tokens\<close>

text \<open>Forms of bytes that read back: lists of numbers, and numbers for addresses and bytes.\<close>

definition pack :: "nat list \<Rightarrow> raw_bytes" where
  "pack ns = replicate (list_encode ns) 1"

definition unpack :: "raw_bytes \<Rightarrow> nat list" where
  "unpack bs = list_decode (length bs)"

lemma unpack_pack [simp]: "unpack (pack ns) = ns"
  by (simp add: pack_def unpack_def)

definition addr_code :: "nat ipc_address \<Rightarrow> nat" where
  "addr_code a = list_encode [unat (root (subnet_of a)), list_encode (children (subnet_of a)), raw_address a]"

definition addr_of_code :: "nat \<Rightarrow> nat ipc_address" where
  "addr_of_code n = (case list_decode n of
     [r, cs, a] \<Rightarrow> \<lparr>subnet_of = \<lparr>root = of_nat r, children = list_decode cs\<rparr>, raw_address = a\<rparr>
   | _ \<Rightarrow> \<lparr>subnet_of = UNDEF, raw_address = 0\<rparr>)"

lemma addr_code_inverse [simp]: "addr_of_code (addr_code a) = a"
  by (simp add: addr_code_def addr_of_code_def del: list_encode.simps)

definition bytes_code :: "raw_bytes \<Rightarrow> nat" where
  "bytes_code bs = list_encode (map unat bs)"

definition bytes_of_code :: "nat \<Rightarrow> raw_bytes" where
  "bytes_of_code n = map of_nat (list_decode n)"

lemma bytes_code_inverse [simp]: "bytes_of_code (bytes_code bs) = bs"
  by (simp add: bytes_code_def bytes_of_code_def comp_def)

definition pair_ext :: "(nat, nat) token_externs" where
  "pair_ext = \<lparr>blake2b256 = (\<lambda>b. b), cbor_actors = (\<lambda>as. 0 # pack (map addr_code as)),
     ser_pre_commit = (\<lambda>p. pack (unat (pc_commit p) # bytes_code (pc_exec_id p) # map addr_code (pc_actors p))),
     de_pre_commit = (\<lambda>b. case unpack b of
         m # x # as \<Rightarrow> Inr \<lparr>pc_actors = map addr_of_code as, pc_exec_id = bytes_of_code x, pc_commit = of_nat m\<rparr>
       | _ \<Rightarrow> Inl Anyhow),
     ser_revoke = (\<lambda>p. pack (unat (rv_rollback p) # bytes_code (rv_exec_id p) # map addr_code (rv_actors p))),
     de_revoke = (\<lambda>b. case unpack b of
         m # x # as \<Rightarrow> Inr \<lparr>rv_actors = map addr_of_code as, rv_exec_id = bytes_of_code x, rv_rollback = of_nat m\<rparr>
       | _ \<Rightarrow> Inl Anyhow),
     show_address = (\<lambda>n. ''f0'' @ dec n), zero_bls = 0,
     method_number = (\<lambda>n. if n = ''PreCommit'' then 2 else if n = ''Revoke'' then 3
       else if n = ''CommitAtomicTransfer'' then 4 else if n = ''RollbackAtomicTransfer'' then 5 else 6),
     init_actor = 1,
     cbor_nonce = (\<lambda>n. replicate (unat n) 1 @ [0]), cbor_cid = (\<lambda>c. [of_nat c]),
     cbor_inputs = (\<lambda>ids. pack (concat (map (\<lambda>p. [addr_code (fst p), bytes_code (snd p)]) ids))),
     ser_transfer = (\<lambda>t. Inr (pack [addr_code (xfer_coordinator t), unat (xfer_from t), unat (xfer_to t), int_encode (xfer_amount t)])),
     de_transfer = (\<lambda>b. case unpack b of
         [c, a, d, v] \<Rightarrow> Inr \<lparr>xfer_coordinator = addr_of_code c, xfer_from = of_nat a, xfer_to = of_nat d, xfer_amount = int_decode v\<rparr>
       | _ \<Rightarrow> Inl Anyhow),
     account_cid = (\<lambda>s. nat (content s)),
     id_of = (\<lambda>n. Some (of_nat n)), parse_addr = (\<lambda>s. Some (length s))\<rparr>"

lemma inj_pairs: "concat (map (\<lambda>p. [f (fst p), g (snd p)]) ids) = concat (map (\<lambda>p. [f (fst p), g (snd p)]) ids') \<Longrightarrow>
    inj f \<Longrightarrow> inj g \<Longrightarrow> ids = ids'"
proof (induction ids arbitrary: ids')
  case Nil
  then show ?case by (cases ids') auto
next
  case (Cons p ids)
  then show ?case by (cases ids') (auto simp: inj_eq prod_eq_iff)
qed

lemma inj_codes: "inj addr_code" "inj bytes_code" "inj pack"
  by (metis addr_code_inverse injI, metis bytes_code_inverse injI, metis unpack_pack injI)

lemma pack_suffix: "x @ 0 # pack ns = x' @ 0 # pack ns' \<longleftrightarrow> x = x' \<and> ns = ns'"
proof -
  have "rev (pack ns) @ 0 # rev x = rev (pack ns') @ 0 # rev x' \<longleftrightarrow> x = x' \<and> ns = ns'"
  proof
    assume r: "rev (pack ns) @ 0 # rev x = rev (pack ns') @ 0 # rev x'"
    then have "list_encode ns = list_encode ns'" by (auto simp: pack_def dest: unary_prefix_free)
    then have "ns = ns'" by (metis list_encode_inverse)
    with r show "x = x' \<and> ns = ns'" by simp
  qed simp
  moreover have "x @ 0 # pack ns = x' @ 0 # pack ns' \<longleftrightarrow>
      rev (pack ns) @ 0 # rev x = rev (pack ns') @ 0 # rev x'"
    by (metis append.assoc append_Cons append_Nil rev.simps(2) rev_append rev_rev_ident)
  ultimately show ?thesis by simp
qed

lemma pair_text: "actor_text pair_ext a = actor_text pair_ext b \<longleftrightarrow> a = b"
proof
  have rt: "ipc_from_str (\<lambda>t. parse_digits 0 (drop 2 t)) (ipc_to_string (\<lambda>n. ''f0'' @ dec n) a) = Inr a" for a :: "nat ipc_address"
    by (rule ipc_address_roundtrip) (auto simp: printable_def parse_digits_dec dec_no_char char_digit_def)
  assume "actor_text pair_ext a = actor_text pair_ext b"
  then have "ipc_to_string (\<lambda>n. ''f0'' @ dec n) a = ipc_to_string (\<lambda>n. ''f0'' @ dec n) b" by (simp add: pair_ext_def)
  with rt [of a] rt [of b] show "a = b" by (metis Inr_inject)
qed simp

lemma pair_key: "registry_key_of pair_ext x as = registry_key_of pair_ext x' as' \<longleftrightarrow> x = x' \<and> as = as'"
  by (auto simp: registry_key_of_def pair_ext_def pack_suffix dest!: map_injective [OF _ inj_codes(1)])

lemma pair_exec_id: "compute_exec_id pair_ext ids = compute_exec_id pair_ext ids' \<longleftrightarrow> ids = ids'"
  by (auto simp: compute_exec_id_def pair_ext_def inj_eq [OF inj_codes(3)] intro: inj_pairs inj_codes)

lemma pair_forms:
  "de_pre_commit pair_ext (ser_pre_commit pair_ext p) = Inr p"
  "de_revoke pair_ext (ser_revoke pair_ext q) = Inr q"
  "\<exists>b. ser_transfer pair_ext t = Inr b \<and> de_transfer pair_ext b = Inr t"
  by (simp_all add: pair_ext_def comp_def)

lemma pair_ext_ok: "protocol_ok pair_ext"
proof -
  have "transfer_forms_ok pair_ext" unfolding transfer_forms_ok_def using pair_forms(3) by (metis Inr_inject)
  moreover have "input_ids_unique pair_ext"
    by (auto simp: input_ids_unique_def pair_ext_def word_unat_eq_iff dest!: unary_prefix_free)
  moreover have "inj (compute_exec_id pair_ext)" "inj (\<lambda>(x, actors). registry_key_of pair_ext x actors)" "inj (actor_text pair_ext)"
    by (auto intro!: injI simp: pair_exec_id pair_key pair_text)
  moreover have "method_number pair_ext ''PreCommit'' \<noteq> method_number pair_ext ''Revoke''"
    "method_number pair_ext ''CommitAtomicTransfer'' \<noteq> method_number pair_ext ''RollbackAtomicTransfer''"
    by (simp_all add: pair_ext_def)
  ultimately show ?thesis unfolding protocol_ok_def by (simp add: pair_forms)
qed


definition pair_addr :: "nat \<Rightarrow> nat ipc_address" where
  "pair_addr n = \<lparr>subnet_of = \<lparr>root = 1, children = []\<rparr>, raw_address = n\<rparr>"

definition pair_env :: "nat \<Rightarrow> nat msg_env" where
  "pair_env a = \<lparr>caller = a, receiver = 7, value_received = 0, curr_epoch = 25, caller_signable = True,
     resolve_address = Some\<rparr>"

text \<open>Two tokens behind the gateway 64, with the accounts 2 and 3.\<close>

definition pair_token :: "nat \<Rightarrow> (nat, (nat, nat) token_state) recorded_world" where
  "pair_token n = \<lparr>wstate = \<lparr>tok_gateway = 64, tok_ipc_address = pair_addr n,
     tok_name = ''T'', tok_symbol = ''t'', tok_total = 150,
     balances = [2 \<mapsto> AtomicInputState False 100, 3 \<mapsto> AtomicInputState False 50],
     atomic_registry = new_exec_registry\<rparr>, wbalance = 0, wrest = []\<rparr>"

definition pair_start :: "(nat, nat) atomic_system" where
  "pair_start = \<lparr>coord = \<lparr>wstate = new_coordinator 64, wbalance = 0, wrest = []\<rparr>,
     tokens = [pair_addr 7 \<mapsto> pair_token 7, pair_addr 8 \<mapsto> pair_token 8],
     to_coord = (\<lambda>_. []), to_token = (\<lambda>_. [])\<rparr>"

text \<open>
  Account 2 gives 30 of the first token for 10 of the second one, which account 3 gives; in one of the
  runs below account 3 starts another transfer, of 1 of the first token.
\<close>

definition pair_transfer :: "nat \<Rightarrow> nat atomic_transfer" where
  "pair_transfer n =
     (if n = 7 then \<lparr>xfer_coordinator = pair_addr 90, xfer_from = 2, xfer_to = 3, xfer_amount = 30\<rparr>
      else if n = 8 then \<lparr>xfer_coordinator = pair_addr 90, xfer_from = 3, xfer_to = 2, xfer_amount = 10\<rparr>
      else \<lparr>xfer_coordinator = pair_addr 90, xfer_from = 3, xfer_to = 2, xfer_amount = 1\<rparr>)"

definition pair_form :: "nat \<Rightarrow> raw_bytes" where
  "pair_form n = pack (let t = pair_transfer n in
     [addr_code (xfer_coordinator t), unat (xfer_from t), unat (xfer_to t), int_encode (xfer_amount t)])"

definition pair_ids :: "(nat ipc_address \<times> atomic_input_id) list" where
  "pair_ids = [(pair_addr 7, 0 # pair_form 7), (pair_addr 8, 0 # pair_form 8)]"

definition pair_inits :: "nat action list" where
  "pair_inits =
     [UserCall (pair_addr 7) (pair_env 2) (InitAtomicTransfer \<lparr>in_coordinator = pair_addr 90, in_transfer = \<lparr>tr_to = 3, tr_amount = 30\<rparr>\<rparr>),
      UserCall (pair_addr 8) (pair_env 3) (InitAtomicTransfer \<lparr>in_coordinator = pair_addr 90, in_transfer = \<lparr>tr_to = 2, tr_amount = 10\<rparr>\<rparr>),
      UserCall (pair_addr 7) (pair_env 2) (PrepareAtomicTransfer pair_ids),
      UserCall (pair_addr 8) (pair_env 3) (PrepareAtomicTransfer pair_ids)]"

lemma pair_ext_simps:
  "blake2b256 pair_ext = (\<lambda>b. b)" "cbor_nonce pair_ext 0 = [0]" "cbor_nonce pair_ext 1 = [1, 0]" "id_of pair_ext n = Some (of_nat n)"
  "method_number pair_ext ''PreCommit'' = 2" "method_number pair_ext ''Revoke'' = 3"
  "method_number pair_ext ''CommitAtomicTransfer'' = 4" "method_number pair_ext ''RollbackAtomicTransfer'' = 5"
  by (simp_all add: pair_ext_def)

lemma pair_transfer_forms:
  "ser_transfer pair_ext \<lparr>xfer_coordinator = pair_addr 90, xfer_from = 2, xfer_to = 3, xfer_amount = 30\<rparr> = Inr (pair_form 7)"
  "ser_transfer pair_ext \<lparr>xfer_coordinator = pair_addr 90, xfer_from = 3, xfer_to = 2, xfer_amount = 10\<rparr> = Inr (pair_form 8)"
  "ser_transfer pair_ext \<lparr>xfer_coordinator = pair_addr 90, xfer_from = 3, xfer_to = 2, xfer_amount = 1\<rparr> = Inr (pair_form 9)"
  "de_transfer pair_ext (pair_form 7) = Inr \<lparr>xfer_coordinator = pair_addr 90, xfer_from = 2, xfer_to = 3, xfer_amount = 30\<rparr>"
  "de_transfer pair_ext (pair_form 8) = Inr \<lparr>xfer_coordinator = pair_addr 90, xfer_from = 3, xfer_to = 2, xfer_amount = 10\<rparr>"
  by (simp_all add: pair_ext_def pair_form_def pair_transfer_def Let_def)

lemma pair_addr_eq [simp]: "pair_addr m = pair_addr n \<longleftrightarrow> m = n"
  by (simp add: pair_addr_def)

lemmas pair_eval = pair_ext_simps pair_transfer_forms pair_start_def pair_token_def pair_env_def pair_text pair_key pair_forms
  token_does_def token_init_transfer_def token_prepare_transfer_def token_commit_transfer_def commit_atomic_transfer_def
  token_rollback_transfer_def rollback_atomic_transfer_def token_abort_transfer_def atomic_transfer_coordinator_def
  finish_atomic_transfer_def finish_atomic_exec_def atomic_output_def unlock_input_def validate_caller_is_def
  caller_id_def resolved_id_def do_transfer_def modify_def get_mut_def account_def init_atomic_transfer_def
  prep_atomic_transfer_def init_atomic_exec_def prepare_atomic_exec_def atomic_input_def lock_input_def new_input_id_def
  new_exec_registry_def new_input_state_def send_cross_msg_def send_cross_req_def recording_send_def
  transaction_def credited_def u64_incr_def Let_def sent_def post_to_coord_def post_to_tokens_def
  pre_commit_def revoke_def modify_atomic_exec_def record_commit_def all_committed_def rm_atomic_exec_def new_coordinator_def
  coord_call_of_def token_call_of_def

definition gateway_env :: "nat msg_env" where
  "gateway_env = pair_env 64"

lemmas pair_run_eval = pair_inits_def gateway_env_def pair_eval pair_ids_def exec_msg_def forwarded_def ended_def fair_defs balance_of_def down_of_def

text \<open>Both pledges reach the coordinator, which sends both commits; the first one has arrived.\<close>

lemma pair_commits:
  "\<exists>evs s. performs pair_ext (pair_addr 90)
       (pair_inits @ [DeliverUp (pair_addr 7) gateway_env, DeliverUp (pair_addr 8) gateway_env,
          DeliverDown (pair_addr 7) gateway_env]) pair_start = Some (evs, s) \<and>
     (\<forall>e \<in> set evs. fair_event pair_ext pair_ids e) \<and>
     (\<exists>e \<in> set evs. ended (pair_addr 90) (pair_addr 7) (compute_exec_id pair_ext pair_ids) True e)"
  by (simp add: pair_run_eval)

definition pair_abort :: "nat list \<Rightarrow> nat action" where
  "pair_abort ns = UserCall (pair_addr 7) (pair_env 2) (AbortAtomicTransfer
     \<lparr>ab_actors = map pair_addr ns, ab_exec_id = compute_exec_id pair_ext pair_ids\<rparr>)"

text \<open>The balances of account 2 with the two tokens.\<close>

definition pair_balances :: "(nat, nat) atomic_system \<Rightarrow> token_amount option \<times> token_amount option" where
  "pair_balances s =
     (map_option (\<lambda>w. balance_of 2 (wstate w)) (tokens s (pair_addr 7)),
      map_option (\<lambda>w. balance_of 2 (wstate w)) (tokens s (pair_addr 8)))"

text \<open>
  The owner of the first transfer aborts it under a list of participants of his own, and is rolled
  back; the coordinator still holds his pledge and completes the execution with the second one.
\<close>

lemma pair_foreign_abort:
  "\<exists>evs s. performs pair_ext (pair_addr 90)
       (pair_inits @ [DeliverUp (pair_addr 7) gateway_env, pair_abort [7],
          DeliverUp (pair_addr 7) gateway_env, DeliverDown (pair_addr 7) gateway_env,
          DeliverUp (pair_addr 8) gateway_env, DeliverDown (pair_addr 8) gateway_env]) pair_start = Some (evs, s) \<and>
     list_all (commit_accepted pair_ext pair_ids) evs \<and>
     (\<exists>e \<in> set evs. ended (pair_addr 90) (pair_addr 7) (compute_exec_id pair_ext pair_ids) False e) \<and>
     (\<exists>e \<in> set evs. ended (pair_addr 90) (pair_addr 8) (compute_exec_id pair_ext pair_ids) True e) \<and>
     pair_balances s = (Some 100, Some 110)"
  by (simp add: pair_run_eval pair_abort_def pair_balances_def)

text \<open>
  The execution is completed, but before the commit reaches the first token its recipient starts a
  transfer of his own, which locks his account: the commit is refused. The owner then aborts, and is
  rolled back although the second token has committed.
\<close>

lemma pair_refused_commit:
  "\<exists>evs s. performs pair_ext (pair_addr 90)
       (pair_inits @ [DeliverUp (pair_addr 7) gateway_env, DeliverUp (pair_addr 8) gateway_env,
          DeliverDown (pair_addr 8) gateway_env,
          UserCall (pair_addr 7) (pair_env 3) (InitAtomicTransfer \<lparr>in_coordinator = pair_addr 90, in_transfer = \<lparr>tr_to = 2, tr_amount = 1\<rparr>\<rparr>),
          RefuseDown (pair_addr 7) gateway_env, pair_abort [7, 8],
          DeliverUp (pair_addr 7) gateway_env, DeliverDown (pair_addr 7) gateway_env]) pair_start = Some (evs, s) \<and>
     list_all (abort_named pair_ext pair_ids) evs \<and>
     (\<exists>e \<in> set evs. ended (pair_addr 90) (pair_addr 7) (compute_exec_id pair_ext pair_ids) False e) \<and>
     (\<exists>e \<in> set evs. ended (pair_addr 90) (pair_addr 8) (compute_exec_id pair_ext pair_ids) True e) \<and>
     pair_balances s = (Some 100, Some 110)"
  by (simp add: pair_run_eval pair_abort_def pair_balances_def)

end
