(* ===== verification/Atomic_Progress.thy ===== *)
theory Atomic_Progress
  imports Atomicity
begin

text \<open>
  Progress of the protocol: an execution that every participant has pledged, and none is leaving, is completed
  by delivering what is on its way to the coordinator.
\<close>

section \<open>The coordinator takes every message\<close>

text \<open>Delivering the first message of a queue: what the coordinator does with it, or that it refuses it.\<close>

definition at_coordinator :: "'a sys_event \<Rightarrow> bool" where
  "at_coordinator e \<longleftrightarrow> (case e of AtCoordinator env call b \<Rightarrow> True | CoordinatorRefuses a m \<Rightarrow> True | _ \<Rightarrow> False)"

lemma at_coordinator_simps [simp]:
  "at_coordinator (AtCoordinator env call b)" "at_coordinator (CoordinatorRefuses a m)"
  "\<not> at_coordinator (AtToken a env tc r)" "\<not> at_coordinator (TokenRefuses a m)"
  by (simp_all add: at_coordinator_def)

lemma at_coordinator_fair: "at_coordinator e \<Longrightarrow> fair_event ext ids e \<and> \<not> ended C a x c e"
  by (cases e) (simp_all add: fair_defs ended_def)

lemma coordinator_delivery:
  fixes s :: "('a, 'c) atomic_system"
  assumes "to_coord s a = m # ms"
    and "up_of ext (compute_exec_id ext ids) m = Some Pledge \<Longrightarrow>
      \<exists>p. de_pre_commit ext (msg_params (msg m)) = Inr p \<and> msg_from (msg m) \<in> set (pc_actors p)"
  obtains (accepts) env call b w' where "coord_call_of ext m = Some call"
      "coord_step ext recording_send (coord s) (env, call, b) w'"
      "atomic_step ext C s (AtCoordinator env call b)
        (post_to_tokens C (sent (coord s) w') (s\<lparr>coord := w', to_coord := (to_coord s)(a := ms)\<rparr>))"
  | (refuses) "up_of ext (compute_exec_id ext ids) m \<noteq> Some Pledge"
      "atomic_step ext C s (CoordinatorRefuses a m) (s\<lparr>to_coord := (to_coord s)(a := ms)\<rparr>)"
proof -
  define env :: "token_amount \<Rightarrow> 'a msg_env" where
    "env v = \<lparr>caller = coord_gateway (wstate (coord s)), receiver = coord_gateway (wstate (coord s)), value_received = v,
       curr_epoch = 0, caller_signable = False, resolve_address = Some\<rparr>" for v
  have step: thesis if "coord_call_of ext m = Some call" "0 \<le> v"
      "coord_invoke ext recording_send (env v) call (credited (env v) (coord s)) = Inr (b, w')" for call v b w'
  proof -
    have "coord_step ext recording_send (coord s) (env v, call, b) w'"
      using that(2,3) by (intro coord_message) (simp_all add: env_def)
    with accepts [OF that(1)] to_coordinator [OF assms(1) that(1)] show thesis by blast
  qed
  show thesis
  proof (cases "up_of ext (compute_exec_id ext ids) m = Some Pledge")
    case True
    then have call: "coord_call_of ext m = Some (PreCommit m)"
      by (auto simp: up_of_def coord_call_of_def split: if_splits sum.splits)
    from assms(2) [OF True] obtain p where p: "de_pre_commit ext (msg_params (msg m)) = Inr p"
      "msg_from (msg m) \<in> set (pc_actors p)" by blast
    define v where "v = \<bar>wbalance (coord s)\<bar>"
    have "\<exists>b w'. pre_commit ext recording_send (env v) m (credited (env v) (coord s)) = Inr (b, w')"
      by (rule pre_commit_accepts [OF _ p]) (simp_all add: env_def v_def)
    then show thesis using step [OF call, of v] by (auto simp: v_def)
  next
    case False
    have same: "credited (env 0) (coord s) = coord s" by (simp add: credited_def env_def)
    show thesis
    proof (cases "\<exists>call b w'. coord_call_of ext m = Some call \<and> coord_invoke ext recording_send (env 0) call (coord s) = Inr (b, w')")
      case True
      then show thesis using step [of _ 0] by (auto simp: same)
    next
      case no: False
      have "\<exists>(env :: 'a msg_env) e. caller env = coord_gateway (wstate (coord s)) \<and>
          coord_invoke ext recording_send env call (coord s) = Inl e" if "coord_call_of ext m = Some call" for call
      proof -
        from no that obtain e where "coord_invoke ext recording_send (env 0) call (coord s) = Inl e"
          by (cases "coord_invoke ext recording_send (env 0) call (coord s)") auto
        then show ?thesis by (intro exI [of _ "env 0"] exI [of _ e]) (simp add: env_def)
      qed
      with refuses [OF False] coordinator_refuses [OF assms(1)] show thesis by blast
    qed
  qed
qed

section \<open>From the last pledge to the completion\<close>

text \<open>A participant has pledged the execution: his pledge is on its way, or the coordinator holds it, and
  no withdrawal follows.\<close>

definition pledge_under_way ::
    "('a, 'c, 'm) token_externs_scheme \<Rightarrow> ('a ipc_address \<times> atomic_input_id) list \<Rightarrow> ('a, 'c) atomic_system \<Rightarrow>
     'a ipc_address \<Rightarrow> bool" where
  "pledge_under_way ext ids s a \<longleftrightarrow>
     List.map_filter (up_of ext (compute_exec_id ext ids)) (to_coord s a) = [Pledge]"

definition pledge_held ::
    "('a, 'c, 'm) token_externs_scheme \<Rightarrow> ('a ipc_address \<times> atomic_input_id) list \<Rightarrow> ('a, 'c) atomic_system \<Rightarrow>
     'a ipc_address \<Rightarrow> bool" where
  "pledge_held ext ids s a \<longleftrightarrow> held_for ext ids a (wstate (coord s)) \<and>
     List.map_filter (up_of ext (compute_exec_id ext ids)) (to_coord s a) = []"

definition all_pledged ::
    "('a, 'c, 'm) token_externs_scheme \<Rightarrow> ('a ipc_address \<times> atomic_input_id) list \<Rightarrow> ('a, 'c) atomic_system \<Rightarrow> bool" where
  "all_pledged ext ids s \<longleftrightarrow>
     list_all (\<lambda>a. a \<in> dom (tokens s) \<and> (pledge_under_way ext ids s a \<or> pledge_held ext ids s a)) (map fst ids) \<and>
     list_ex (pledge_under_way ext ids s) (map fst ids)"

text \<open>A pledge on its way reads back as a pre-commitment of this execution.\<close>

lemma pledge_reads:
  assumes "system_inv ext C s" and "protocol_ok ext" and "m \<in> set (to_coord s a)"
    and "de_pre_commit ext (msg_params (msg m)) = Inr p" and "coord_call_of ext m = Some (PreCommit m)"
    and "pc_exec_id p = compute_exec_id ext ids"
  shows "msg_from (msg m) = a" and "pc_actors p = map fst ids"
proof -
  from system_invD(4) [OF assms(1,3)] show "msg_from (msg m) = a" by (rule up_formD)
  from system_invD(4) [OF assms(1,3)] assms(4,5) obtain ids' where
    "pc_exec_id p = compute_exec_id ext ids'" "pc_actors p = map fst ids'" by (auto simp: up_form_def)
  moreover from this(1) assms(6) have "ids = ids'" by (intro protocol_okD(3) [OF assms(2)]) simp
  ultimately show "pc_actors p = map fst ids" by simp
qed

lemma coordinator_effect:
  assumes "system_inv ext C s" and "protocol_ok ext" and "m \<in> set (to_coord s a)"
    and "coord_call_of ext m = Some call" and "coord_step ext recording_send (coord s) (env, call, b) w'"
    and "up_of ext (compute_exec_id ext ids) m \<noteq> Some Withdraw"
  shows "completes ext (compute_exec_id ext ids) (map fst ids) (AtCoordinator env call b) \<or>
    (\<forall>c. held_for ext ids c (wstate w') \<longleftrightarrow> held_for ext ids c (wstate (coord s)) \<or> c = a \<and> up_of ext (compute_exec_id ext ids) m = Some Pledge) \<and>
    (up_of ext (compute_exec_id ext ids) m = Some Pledge \<longrightarrow> (\<exists>c \<in> fst ` set ids. \<not> held_for ext ids c (wstate w')))"
proof -
  let ?x = "compute_exec_id ext ids"
  note ok = protocol_okD [OF assms(2)] and read = pledge_reads [OF assms(1-3)]
  from assms(5) show ?thesis
  proof (cases rule: coord_protocol_cases)
    case (commits cm p entry)
    then have cm: "cm = m" using assms(4) coord_call_of_cases by blast
    have up: "up_of ext ?x m = (if pc_exec_id p = ?x then Some Pledge else None)"
      using assms(4) commits(1,2) by (simp add: up_of_def cm)
    show ?thesis
    proof (cases "pc_exec_id p = ?x")
      case True
      from read [OF commits(2)[unfolded cm] assms(4)[unfolded commits(1) cm] True]
      have a: "msg_from (msg m) = a" and actors: "pc_actors p = map fst ids" by simp_all
      show ?thesis
      proof (cases b)
        case True
        with commits(1,2) actors \<open>pc_exec_id p = ?x\<close> show ?thesis by (simp add: completes_pre_commit)
      next
        case False
        with commits(6) have "\<exists>c \<in> fst ` set ids. entry (actor_text ext c) = None" by (auto simp: actors)
        with False True show ?thesis
          by (auto simp: held_for_eq commits(5,7) up actors a cm ok(5) ok(4))
      qed
    next
      case False
      then show ?thesis by (simp add: held_for_eq commits(7) up ok(4))
    qed
  next
    case (revokes cm p)
    then have cm: "cm = m" using assms(4) coord_call_of_cases by blast
    have up: "up_of ext ?x m = (if rv_exec_id p = ?x then Some Withdraw else None)"
      using assms(4) revokes(1,3) by (simp add: up_of_def cm)
    with assms(6) have "rv_exec_id p \<noteq> ?x" by (simp split: if_splits)
    then show ?thesis using up by (auto simp: held_for_eq revokes(6) ok(4))
  qed
qed

lemma all_pledgedD:
  assumes "all_pledged ext ids s" and "a \<in> fst ` set ids"
  shows "a \<in> dom (tokens s)" and "pledge_under_way ext ids s a \<or> pledge_held ext ids s a"
  using assms by (auto simp: all_pledged_def list_all_iff)

lemma all_pledgedI:
  assumes "\<And>a. a \<in> fst ` set ids \<Longrightarrow> a \<in> dom (tokens s) \<and> (pledge_under_way ext ids s a \<or> pledge_held ext ids s a)"
    and "c \<in> fst ` set ids" and "pledge_under_way ext ids s c"
  shows "all_pledged ext ids s"
  using assms by (auto simp: all_pledged_def list_all_iff list_ex_iff)

lemma all_pledged_on_its_way:
  assumes "all_pledged ext ids s"
  obtains a m ms where "a \<in> fst ` set ids" "pledge_under_way ext ids s a" "to_coord s a = m # ms"
proof -
  from assms obtain a where a: "a \<in> fst ` set ids" "pledge_under_way ext ids s a"
    by (auto simp: all_pledged_def list_ex_iff)
  then show thesis using that
    by (cases "to_coord s a") (auto simp: pledge_under_way_def map_filter_simps)
qed

text \<open>Taking the first message from the queue of a participant whose pledge is under way.\<close>

lemma all_pledged_step:
  assumes "all_pledged ext ids s" and "to_coord s a = m # ms" and "pledge_under_way ext ids s a"
    and "tokens s' = tokens s" and "to_coord s' = (to_coord s)(a := ms)"
    and "\<And>c. held_for ext ids c (wstate (coord s')) \<longleftrightarrow> held_for ext ids c (wstate (coord s)) \<or>
      c = a \<and> up_of ext (compute_exec_id ext ids) m = Some Pledge"
    and "up_of ext (compute_exec_id ext ids) m = Some Pledge \<Longrightarrow>
      \<exists>c \<in> fst ` set ids. \<not> held_for ext ids c (wstate (coord s'))"
    and "a \<in> fst ` set ids"
  shows "all_pledged ext ids s'"
proof -
  let ?x = "compute_exec_id ext ids"
  have q: "List.map_filter (up_of ext ?x) (m # ms) = [Pledge]" using assms(2,3) by (simp add: pledge_under_way_def)
  have other: "pledge_under_way ext ids s' c = pledge_under_way ext ids s c" "pledge_held ext ids s' c = pledge_held ext ids s c"
    if "c \<noteq> a" for c using that by (simp_all add: pledge_under_way_def pledge_held_def assms(5,6))
  have dom: "c \<in> dom (tokens s')" if "c \<in> fst ` set ids" for c using all_pledgedD(1) [OF assms(1) that] assms(4) by simp
  show ?thesis
  proof (cases "up_of ext ?x m")
    case None
    with q have "pledge_under_way ext ids s' a" by (simp add: pledge_under_way_def assms(5) map_filter_simps)
    moreover from this have "pledge_under_way ext ids s' c \<or> pledge_held ext ids s' c" if "c \<in> fst ` set ids" for c
      using all_pledgedD(2) [OF assms(1) that] other [of c] by (cases "c = a") simp_all
    ultimately show ?thesis by (intro all_pledgedI [OF conjI [OF dom] assms(8)])
  next
    case (Some u)
    with q have u: "up_of ext ?x m = Some Pledge" "List.map_filter (up_of ext ?x) ms = []"
      by (simp_all add: map_filter_simps)
    then have a: "pledge_held ext ids s' a" by (simp add: pledge_held_def assms(5,6))
    have all: "pledge_under_way ext ids s' c \<or> pledge_held ext ids s' c" if "c \<in> fst ` set ids" for c
      using all_pledgedD(2) [OF assms(1) that] other [of c] a by (cases "c = a") simp_all
    from assms(7) [OF u(1)] obtain c where c: "c \<in> fst ` set ids" "\<not> held_for ext ids c (wstate (coord s'))" by blast
    with all [OF c(1)] have "pledge_under_way ext ids s' c" by (simp add: pledge_held_def)
    then show ?thesis by (intro all_pledgedI [OF conjI [OF dom all] c(1)])
  qed
qed

lemma pledge_under_way_named:
  assumes "system_inv ext C s" and "protocol_ok ext" and "m \<in> set (to_coord s a)"
    and "up_of ext (compute_exec_id ext ids) m = Some Pledge" and "a \<in> fst ` set ids"
  shows "\<exists>p. de_pre_commit ext (msg_params (msg m)) = Inr p \<and> msg_from (msg m) \<in> set (pc_actors p)"
proof -
  from assms(4) obtain p where "coord_call_of ext m = Some (PreCommit m)" "de_pre_commit ext (msg_params (msg m)) = Inr p"
    "pc_exec_id p = compute_exec_id ext ids"
    by (auto simp: up_of_def coord_call_of_def split: if_splits sum.splits)
  with pledge_reads [OF assms(1-3) this(2,1,3)] assms(5) show ?thesis by auto
qed

text \<open>The messages still in the queues of the participants.\<close>

definition backlog :: "('a ipc_address \<times> atomic_input_id) list \<Rightarrow> ('a, 'c) atomic_system \<Rightarrow> nat" where
  "backlog ids s = (\<Sum>a \<in> fst ` set ids. length (to_coord s a))"

lemma backlog_step:
  assumes "to_coord s a = m # ms" and "to_coord s' = (to_coord s)(a := ms)" and "a \<in> fst ` set ids"
  shows "backlog ids s = Suc (backlog ids s')"
  unfolding backlog_def using assms by (simp add: sum.remove [OF _ assms(3)])

lemma pledged_completes:
  assumes "system_inv ext C s" and "protocol_ok ext" and "all_pledged ext ids s"
  shows "\<exists>evs s'. run (atomic_step ext C) s evs s' \<and> list_all at_coordinator evs \<and>
    (\<exists>e \<in> set evs. completes ext (compute_exec_id ext ids) (map fst ids) e)"
  using assms(1,3)
proof (induction "backlog ids s" arbitrary: s)
  case 0
  from 0(3) obtain a m ms where "a \<in> fst ` set ids" "to_coord s a = m # ms" by (rule all_pledged_on_its_way)
  with 0(1) show ?case by (auto simp: backlog_def)
next
  case (Suc n)
  let ?x = "compute_exec_id ext ids"
  from Suc.prems(2) obtain a m ms where a: "a \<in> fst ` set ids" "pledge_under_way ext ids s a"
    and q: "to_coord s a = m # ms" by (rule all_pledged_on_its_way)
  have m: "m \<in> set (to_coord s a)" by (simp add: q)
  have next_state: ?case
    if st: "atomic_step ext C s e s1" "at_coordinator e" and s1: "tokens s1 = tokens s" "to_coord s1 = (to_coord s)(a := ms)"
      and h: "completes ext ?x (map fst ids) e \<or>
        (\<forall>c. held_for ext ids c (wstate (coord s1)) \<longleftrightarrow> held_for ext ids c (wstate (coord s)) \<or> c = a \<and> up_of ext ?x m = Some Pledge) \<and>
        (up_of ext ?x m = Some Pledge \<longrightarrow> (\<exists>c \<in> fst ` set ids. \<not> held_for ext ids c (wstate (coord s1))))" for e s1
  proof (cases "completes ext ?x (map fst ids) e")
    case True
    with st show ?thesis by (intro exI [of _ "[e]"] exI [of _ s1]) (auto intro: run_cons)
  next
    case False
    with h have "all_pledged ext ids s1" by (intro all_pledged_step [OF Suc.prems(2) q a(2) s1 _ _ a(1)]) blast+
    moreover have "n = backlog ids s1" using backlog_step [OF q s1(2) a(1)] Suc.hyps(2) by simp
    ultimately obtain evs s' where "run (atomic_step ext C) s1 evs s'" "list_all at_coordinator evs"
      "\<exists>e \<in> set evs. completes ext ?x (map fst ids) e"
      using Suc.hyps(1) atomic_step_inv [OF st(1) Suc.prems(1) assms(2)] by blast
    with st show ?thesis by (intro exI [of _ "e # evs"] exI [of _ s']) (auto intro: run_cons)
  qed
  have nw: "up_of ext ?x m \<noteq> Some Withdraw" using a(2) by (auto simp: pledge_under_way_def q map_filter_simps)
  show ?case
  proof (rule coordinator_delivery [where C = C, OF q pledge_under_way_named [OF Suc.prems(1) assms(2) m _ a(1)]])
    fix env call b w'
    assume accepts: "coord_call_of ext m = Some call" "coord_step ext recording_send (coord s) (env, call, b) w'"
      "atomic_step ext C s (AtCoordinator env call b)
        (post_to_tokens C (sent (coord s) w') (s\<lparr>coord := w', to_coord := (to_coord s)(a := ms)\<rparr>))"
    show ?case
      by (rule next_state [OF accepts(3)])
        (use coordinator_effect [OF Suc.prems(1) assms(2) m accepts(1,2) nw] in \<open>simp_all add: post_to_tokens_def\<close>)
  next
    assume refuses: "up_of ext ?x m \<noteq> Some Pledge"
      "atomic_step ext C s (CoordinatorRefuses a m) (s\<lparr>to_coord := (to_coord s)(a := ms)\<rparr>)"
    show ?case by (rule next_state [OF refuses(2)]) (use refuses(1) in simp_all)
  qed
qed

end
