(* ===== verification/Atomicity_Props.thy ===== *)
theory Atomicity_Props
  imports Atomic_Runs Atomic_Progress
begin

text \<open>
  What the protocol of atomic executions guarantees over any number of tokens: executions are all or
  nothing, and complete once all have pledged. And the two ways in which the code lets one participant
  out of it.
\<close>

lemma atomic_step_tokens:
  assumes "atomic_step ext C s e s'"
  shows "dom (tokens s') = dom (tokens s)" and "ended C' a x c e \<Longrightarrow> a \<in> dom (tokens s)"
  using assms by (auto elim!: atomic_step.cases simp: post_to_coord_def post_to_tokens_def ended_def split: if_splits)

lemma atomic_run_tokens:
  assumes "run (atomic_step ext C) s evs s'"
  shows "dom (tokens s') = dom (tokens s)" and "e \<in> set evs \<Longrightarrow> ended C' a x c e \<Longrightarrow> a \<in> dom (tokens s)"
proof -
  have "dom (tokens s') = dom (tokens s) \<and> (\<forall>e \<in> set evs. \<forall>C' a x c. ended C' a x c e \<longrightarrow> a \<in> dom (tokens s))"
    using assms
  proof (induction rule: run.induct)
    case (run_cons s e t es u)
    with atomic_step_tokens [OF run_cons.hyps(1)] show ?case by (metis set_ConsD)
  qed simp
  then show "dom (tokens s') = dom (tokens s)" and "e \<in> set evs \<Longrightarrow> ended C' a x c e \<Longrightarrow> a \<in> dom (tokens s)"
    by blast+
qed

lemma constructed_registry: "token_constructor ext env params = Inr st \<Longrightarrow> atomic_registry st = new_exec_registry"
  by (auto simp: token_constructor_def new_token_def)

lemma execution_start:
  assumes "atomic_start ext s"
  shows "execution_inv ext C ids [] s"
proof (rule execution_invI)
  fix a assume a: "a \<in> dom (tokens s)"
  then obtain w where w: "tokens s a = Some w" by blast
  with assms obtain env :: "'a msg_env" and params where "token_constructor ext env params = Inr (wstate w)"
    unfolding atomic_start_def by blast
  then have "atomic_registry (wstate w) = new_exec_registry" by (rule constructed_registry)
  then have "\<not> prepared_with ext C (compute_exec_id ext ids) (tokens s a)"
    by (simp add: w prepared_with_def under_way_def new_exec_registry_def)
  moreover have "\<not> held_for ext ids a (wstate (coord s))"
    using assms by (auto simp: atomic_start_def held_for_eq new_coordinator_def entry_of_def)
  moreover have "to_coord s a = []" "to_token s a = []" using assms by (simp_all add: atomic_start_def)
  ultimately show "view_ok (a \<in> fst ` set ids) (view_of ext C ids [] s a)"
    by (intro view_okI(1)) (simp_all add: fresh_def map_filter_simps)
  show "revokes_named ext ids (to_coord s a)" using \<open>to_coord s a = []\<close> by (simp add: revokes_named_def)
qed

lemma execution_run:
  assumes "atomic_start ext s0" and "protocol_ok ext" and "run (atomic_step ext C) s0 evs s"
    and "\<forall>e \<in> set evs. fair_event ext ids e"
  shows "execution_inv ext C ids evs s"
proof -
  have "system_inv ext C s \<and> execution_inv ext C ids ([] @ evs) s"
    by (rule run_history [OF assms(3) _ assms(4), where P = "\<lambda>h s. system_inv ext C s \<and> execution_inv ext C ids h s"])
      (use atomic_start_inv [OF assms(1)] execution_start [OF assms(1)] in blast,
       use atomic_step_inv [OF _ _ assms(2)] atomic_step_keeps_views [OF _ _ assms(2)] in blast)
  then show ?thesis by simp
qed

text \<open>A participant beyond the completion of its execution has committed, or is about to.\<close>

lemma view_ok_done:
  assumes "view_ok n v" and "v_done v"
  shows "\<not> v_rol v" and "n \<Longrightarrow> v_com v \<or> (\<exists>ds. v_down v = Go # ds)"
  using assms by (auto simp: view_ok_def stage_defs)

lemma view_ok_committed: "view_ok n v \<Longrightarrow> v_com v \<Longrightarrow> n \<and> v_done v"
  by (auto simp: view_ok_def stage_defs)

text \<open>
  C6: an atomic execution is all or nothing. Whatever the users, the other participants and outsiders do,
  in whatever order: once one participant has committed the execution, it is one of those the execution
  names, no token ever rolls it back, and each token it names has committed it or has the
  commit on its way. This asks that aborts of the execution name its participants, and that no participant
  refuses to commit.
\<close>

theorem executions_all_or_nothing:
  assumes "atomic_start ext s0" and "protocol_ok ext" and "run (atomic_step ext C) s0 evs s"
    and "\<forall>e \<in> set evs. fair_event ext ids e"
    and "\<exists>e \<in> set evs. ended C a (compute_exec_id ext ids) True e"
  shows "a \<in> fst ` set ids \<and>
    (\<forall>b. \<not> (\<exists>e \<in> set evs. ended C b (compute_exec_id ext ids) False e)) \<and>
    (\<forall>b \<in> fst ` set ids \<inter> dom (tokens s0). (\<exists>e \<in> set evs. ended C b (compute_exec_id ext ids) True e) \<or>
       (\<exists>m \<in> set (to_token s b). down_of ext (compute_exec_id ext ids) m = Some Go))"
proof -
  note inv = execution_run [OF assms(1-4)] and toks = atomic_run_tokens [OF assms(3)]
  have ok: "view_ok (b \<in> fst ` set ids) (view_of ext C ids evs s b)" if "b \<in> dom (tokens s0)" for b
    using execution_invD(1) [OF inv, of b] that toks(1) by simp
  have "a \<in> dom (tokens s0)" using assms(5) toks(2) by blast
  from view_ok_committed [OF ok [OF this]] assms(5)
  have a: "a \<in> fst ` set ids" and d: "v_done (view_of ext C ids evs s b)" for b by simp_all
  have "\<not> (\<exists>e \<in> set evs. ended C b (compute_exec_id ext ids) False e)" for b
    using view_ok_done(1) [OF ok d, of b] toks(2) by auto
  moreover have "(\<exists>e \<in> set evs. ended C b (compute_exec_id ext ids) True e) \<or>
       (\<exists>m \<in> set (to_token s b). down_of ext (compute_exec_id ext ids) m = Some Go)"
    if "b \<in> fst ` set ids \<inter> dom (tokens s0)" for b
  proof -
    have "(\<exists>e \<in> set evs. ended C b (compute_exec_id ext ids) True e) \<or>
      (\<exists>ds. List.map_filter (down_of ext (compute_exec_id ext ids)) (to_token s b) = Go # ds)"
      using view_ok_done(2) [OF ok d, of b] that by auto
    moreover have "Go \<in> set (List.map_filter (down_of ext (compute_exec_id ext ids)) (to_token s b)) \<longleftrightarrow>
       (\<exists>m \<in> set (to_token s b). down_of ext (compute_exec_id ext ids) m = Some Go)" by (rule in_map_filter_iff)
    ultimately show ?thesis by (metis list.set_intros(1))
  qed
  ultimately show ?thesis using a by blast
qed

lemma pair_start_ok: "atomic_start pair_ext pair_start"
proof -
  have "token_constructor pair_ext (pair_env 1\<lparr>receiver := n\<rparr>) \<lparr>tp_gateway = 64, tp_subnet_id = \<lparr>root = 1, children = []\<rparr>,
      tp_name = ''T'', tp_symbol = ''t'', tp_balances = [(''aa'', 100), (''aaa'', 50)]\<rparr> = Inr (wstate (pair_token n))" for n
    by (simp add: token_constructor_def validate_caller_is_def resolved_id_def new_token_def new_input_state_def
        pair_ext_def pair_env_def pair_token_def pair_addr_def new_ipc_address_def fun_upd_twist)
  then show ?thesis
    unfolding atomic_start_def
    by (auto simp: pair_start_def split: if_splits) (auto simp: pair_token_def)
qed

theorem executions_all_or_nothing_witness:
  "\<exists>evs (s :: (nat, nat) atomic_system). run (atomic_step pair_ext (pair_addr 90)) pair_start evs s \<and>
     \<not> (\<exists>e \<in> set evs. ended (pair_addr 90) (pair_addr 8) (compute_exec_id pair_ext pair_ids) False e)"
proof -
  from pair_commits obtain evs s where "performs pair_ext (pair_addr 90)
       (pair_inits @ [DeliverUp (pair_addr 7) gateway_env, DeliverUp (pair_addr 8) gateway_env,
          DeliverDown (pair_addr 7) gateway_env]) pair_start = Some (evs, s)"
    and f: "\<forall>e \<in> set evs. fair_event pair_ext pair_ids e"
    and c: "\<exists>e \<in> set evs. ended (pair_addr 90) (pair_addr 7) (compute_exec_id pair_ext pair_ids) True e" by blast
  then have r: "run (atomic_step pair_ext (pair_addr 90)) pair_start evs s" by (intro performs_run)
  from executions_all_or_nothing [OF pair_start_ok pair_ext_ok r f c] r show ?thesis by blast
qed

lemma all_pledged_not_ended:
  assumes "execution_inv ext C ids evs s" and "all_pledged ext ids s" and "a \<in> fst ` set ids"
  shows "\<not> (\<exists>e \<in> set evs. ended C a (compute_exec_id ext ids) True e)"
proof -
  note v = execution_invD(1) [OF assms(1) all_pledgedD(1) [OF assms(2,3)]]
  from all_pledgedD(2) [OF assms(2,3)] have "\<not> v_com (view_of ext C ids evs s a)"
  proof
    assume "pledge_under_way ext ids s a"
    then have "v_up (view_of ext C ids evs s a) = Pledge # []" by (simp add: pledge_under_way_def)
    from view_ok_pledging [OF v this] show ?thesis by (simp add: pledging_def)
  next
    assume "pledge_held ext ids s a"
    then have "v_held (view_of ext C ids evs s a)" by (simp add: pledge_held_def)
    from view_ok_held [OF v this] show ?thesis by (simp add: pledged_def)
  qed
  then show ?thesis by simp
qed


lemma pair_pledges:
  "\<exists>evs s. performs pair_ext (pair_addr 90) pair_inits pair_start = Some (evs, s) \<and>
     (\<forall>e \<in> set evs. fair_event pair_ext pair_ids e) \<and> all_pledged pair_ext pair_ids s"
  by (simp add: pair_run_eval all_pledged_def pledge_under_way_def pledge_held_def held_for_def entry_of_def
      up_of_def map_filter_simps)



end
