(* ===== verification/Unit_Tests.thy ===== *)
theory Unit_Tests
  imports Voting Cross Atomic_Exec
begin

text \<open>
  The unit tests inside the sources, run on the model: each test is translated statement by statement, and
  evaluated. This checks the definitions against what the authors expect of the code. An address is
  the number of an actor, printed as an \<open>f0\<close> address.
\<close>

section \<open>Assertions\<close>

definition assert_that :: "bool \<Rightarrow> unit res" where
  "assert_that b = (if b then Inr () else Inl Panic)"

definition unwrap :: "'e + 'a \<Rightarrow> 'a res" where
  "unwrap r = map_err (\<lambda>_. Panic) r"

definition is_err :: "'e + 'a \<Rightarrow> bool" where
  "is_err r = (case r of Inl _ \<Rightarrow> True | Inr _ \<Rightarrow> False)"

text \<open>The statements of a test one after the other.\<close>

fun in_order :: "unit res list \<Rightarrow> unit res" where
  "in_order [] = Inr ()"
| "in_order (t # ts) = and_then t (\<lambda>_. in_order ts)"

lemmas test_simps = assert_that_def unwrap_def is_err_def

lemma unwrap_simps [simp]: "unwrap (Inr a) = Inr a" "unwrap (Inl e) = Inl Panic"
  by (simp_all add: unwrap_def)

lemma assert_that_True [simp]: "assert_that True = Inr ()" "assert_that False = Inl Panic"
  by (simp_all add: assert_that_def)

section \<open>Subnet identifiers\<close>

definition show_id_addr :: "nat \<Rightarrow> string" where
  "show_id_addr n = ''f0'' @ dec n"

definition parse_id_addr :: "string \<Rightarrow> nat option" where
  "parse_id_addr s = (if take 2 s = ''f0'' then parse_digits 0 (drop 2 s) else None)"

abbreviation id_str :: "nat subnet_id \<Rightarrow> string" where
  "id_str \<equiv> subnet_to_string show_id_addr"

abbreviation id_of_str :: "string \<Rightarrow> sdk_error + nat subnet_id" where
  "id_of_str \<equiv> subnet_from_str parse_id_addr"

definition test_subnet_id :: "unit res" where
  "test_subnet_id =
     (let sub_id = new_subnet_id 123 [1001 :: nat];
          rootnet = new_subnet_id 123 []
      in in_order
        [assert_that (id_str sub_id = ''/r123/f01001''),
         and_then (unwrap (id_of_str (id_str sub_id))) (\<lambda>rtt_id. assert_that (sub_id = rtt_id)),
         assert_that (id_str rootnet = ''/r123''),
         and_then (unwrap (id_of_str (id_str rootnet))) (\<lambda>root_sub. assert_that (root_sub = rootnet))])"

definition test_common_parent_of :: "string \<Rightarrow> string \<Rightarrow> string \<Rightarrow> nat \<Rightarrow> unit res" where
  "test_common_parent_of a b res index =
     and_then (unwrap (id_of_str a)) (\<lambda>ia.
     and_then (unwrap (id_of_str b)) (\<lambda>ib.
     and_then (ok_or Panic (common_parent ia ib)) (\<lambda>common.
     and_then (unwrap (id_of_str res)) (\<lambda>ir. assert_that (common = (index, ir))))))"

definition test_common_parent :: "unit res" where
  "test_common_parent =
     in_order
       [test_common_parent_of ''/r123/f01'' ''/r123/f01/f02'' ''/r123/f01'' 1,
        test_common_parent_of ''/r123/f01/f02/f03'' ''/r123/f01/f02'' ''/r123/f01/f02'' 2,
        test_common_parent_of ''/r123/f01/f03/f04'' ''/r123/f02/f03/f04'' ''/r123'' 0,
        test_common_parent_of ''/r123/f01/f03/f04'' ''/r123/f01/f03/f04/f05'' ''/r123/f01/f03/f04'' 3,
        test_common_parent_of ''/r123/f01/f03/f04'' ''/r123/f01/f03/f04'' ''/r123/f01/f03/f04'' 3]"

definition test_panic_different_root :: "unit res" where
  "test_panic_different_root = test_common_parent_of ''/r122/f01'' ''/r123/f01/f02'' ''/r123/f01'' 1"

text \<open>The expected answer of the tests of \<open>down\<close> and \<open>up\<close>: none, or an identifier as text.\<close>

definition expected_id :: "string option \<Rightarrow> nat subnet_id option res" where
  "expected_id res = (case res of None \<Rightarrow> Inr None
     | Some s \<Rightarrow> and_then (unwrap (id_of_str s)) (\<lambda>i. Inr (Some i)))"

definition test_down_of :: "string \<Rightarrow> string \<Rightarrow> string option \<Rightarrow> unit res" where
  "test_down_of a b res =
     and_then (expected_id res) (\<lambda>expected.
     and_then (unwrap (id_of_str a)) (\<lambda>ia.
     and_then (unwrap (id_of_str b)) (\<lambda>ib. assert_that (down ia ib = expected))))"

definition test_down :: "unit res" where
  "test_down =
     in_order
       [test_down_of ''/r123/f01/f02/f03'' ''/r123/f01'' (Some ''/r123/f01/f02''),
        test_down_of ''/r123/f01/f02/f03'' ''/r123/f01/f02'' (Some ''/r123/f01/f02/f03''),
        test_down_of ''/r123/f01/f03/f04'' ''/r123/f01/f03'' (Some ''/r123/f01/f03/f04''),
        test_down_of ''/r123'' ''/r123/f01'' None,
        test_down_of ''/r123/f01'' ''/r123/f01'' None,
        test_down_of ''/r123/f02/f03'' ''/r123/f01/f03/f04'' None,
        test_down_of ''/r123'' ''/r123/f01'' None]"

definition test_up_of :: "string \<Rightarrow> string \<Rightarrow> string option \<Rightarrow> unit res" where
  "test_up_of a b res =
     and_then (expected_id res) (\<lambda>expected.
     and_then (unwrap (id_of_str a)) (\<lambda>ia.
     and_then (unwrap (id_of_str b)) (\<lambda>ib.
     and_then (up ia ib) (\<lambda>r. assert_that (r = expected)))))"

definition test_up :: "unit res" where
  "test_up =
     in_order
       [test_up_of ''/r123/f01/f02/f03'' ''/r123/f01'' (Some ''/r123''),
        test_up_of ''/r123/f01/f02/f03'' ''/r123/f01/f02'' (Some ''/r123/f01''),
        test_up_of ''/r123'' ''/r123/f01'' None,
        test_up_of ''/r123/f02/f03'' ''/r123/f01/f03/f04'' None,
        test_up_of ''/r123/f01/f02/f03'' ''/r123/f01/f02'' (Some ''/r123/f01''),
        test_up_of ''/r123/f01/f02/f03'' ''/r123/f01/f02/f03'' (Some ''/r123/f01/f02'')]"

definition test_bottom_up_of :: "string \<Rightarrow> string \<Rightarrow> bool \<Rightarrow> unit res" where
  "test_bottom_up_of a b res =
     and_then (unwrap (id_of_str a)) (\<lambda>ia.
     and_then (unwrap (id_of_str b)) (\<lambda>ib. assert_that (is_bottomup ia ib = res)))"

definition test_is_bottomup :: "unit res" where
  "test_is_bottomup =
     in_order
       [test_bottom_up_of ''/r123/f01'' ''/r123/f01/f02'' False,
        test_bottom_up_of ''/r123/f01'' ''/r123'' True,
        test_bottom_up_of ''/r123/f01'' ''/r123/f01/f02'' False,
        test_bottom_up_of ''/r123/f01'' ''/r123/f02/f02'' True,
        test_bottom_up_of ''/r123/f01/f02'' ''/r123/f01/f02'' False,
        test_bottom_up_of ''/r123/f01/f02'' ''/r123/f01/f02/f03'' False]"

definition test_ipc_from_str :: "unit res" where
  "test_ipc_from_str =
     (let sub_id = new_subnet_id 123 [100 :: nat];
          addr = new_ipc_address sub_id 101;
          st = ipc_to_string show_id_addr addr
      in and_then (unwrap (ipc_from_str parse_id_addr st)) (\<lambda>addr_out. assert_that (addr = addr_out)))"

text \<open>Digits and texts, computed.\<close>

lemma char_digit_chars:
  "char_digit CHR ''0'' = Some 0" "char_digit CHR ''1'' = Some 1" "char_digit CHR ''2'' = Some 2"
  "char_digit CHR ''3'' = Some 3" "char_digit CHR ''4'' = Some 4" "char_digit CHR ''5'' = Some 5"
  by (simp_all add: char_digit_def)

lemma dec_values: "dec 123 = ''123''" "dec 1001 = ''1001''" "dec 100 = ''100''" "dec 101 = ''101''"
  by (simp_all add: dec.simps digit_char_def char_of_def bit_Suc_0_iff)

lemmas id_texts = subnet_to_string_def show_u64_def show_id_addr_def dec_values
  subnet_from_str_def str_from_1_def utf8_continuation_def parse_u64_def parse_id_addr_def char_digit_chars
  new_subnet_id_def

lemma id_of_strs:
  "id_of_str ''/r122/f01'' = Inr \<lparr>root = 122, children = [1]\<rparr>"
  "id_of_str ''/r123'' = Inr \<lparr>root = 123, children = []\<rparr>"
  "id_of_str ''/r123/f01'' = Inr \<lparr>root = 123, children = [1]\<rparr>"
  "id_of_str ''/r123/f01/f02'' = Inr \<lparr>root = 123, children = [1, 2]\<rparr>"
  "id_of_str ''/r123/f02/f02'' = Inr \<lparr>root = 123, children = [2, 2]\<rparr>"
  "id_of_str ''/r123/f02/f03'' = Inr \<lparr>root = 123, children = [2, 3]\<rparr>"
  "id_of_str ''/r123/f01/f03'' = Inr \<lparr>root = 123, children = [1, 3]\<rparr>"
  "id_of_str ''/r123/f01/f02/f03'' = Inr \<lparr>root = 123, children = [1, 2, 3]\<rparr>"
  "id_of_str ''/r123/f01/f03/f04'' = Inr \<lparr>root = 123, children = [1, 3, 4]\<rparr>"
  "id_of_str ''/r123/f02/f03/f04'' = Inr \<lparr>root = 123, children = [2, 3, 4]\<rparr>"
  "id_of_str ''/r123/f01/f03/f04/f05'' = Inr \<lparr>root = 123, children = [1, 3, 4, 5]\<rparr>"
  by (simp_all add: id_texts)

lemmas id_routes = common_parent_def common_children_def new_subnet_id_def test_common_parent_of_def
  test_down_of_def test_up_of_def test_bottom_up_of_def expected_id_def is_bottomup_def down_def up_def

lemma test_subnet_id_passes: "test_subnet_id = Inr ()"
  by (simp add: test_subnet_id_def id_texts)

lemma test_common_parent_passes: "test_common_parent = Inr ()"
  by (simp add: test_common_parent_def id_of_strs id_routes)

lemma test_panic_different_root_panics: "test_panic_different_root = Inl Panic"
  by (simp add: test_panic_different_root_def id_of_strs id_routes)

lemma test_down_passes: "test_down = Inr ()"
  by (simp add: test_down_def id_of_strs id_routes)

lemma test_up_passes: "test_up = Inr ()"
  by (simp add: test_up_def id_of_strs id_routes)

lemma test_is_bottomup_passes: "test_is_bottomup = Inr ()"
  by (simp add: test_is_bottomup_def id_of_strs id_routes)

lemma test_ipc_from_str_passes: "test_ipc_from_str = Inr ()"
  by (simp add: test_ipc_from_str_def ipc_to_string_def ipc_from_str_def new_ipc_address_def id_texts)

section \<open>Votes\<close>

text \<open>The vote of the tests carries its own key. Addresses are again the numbers of actors.\<close>

record dummy_vote =
  dummy_key :: unique_bytes_key

definition dummy_unique_key :: "dummy_vote \<Rightarrow> unique_bytes_key res" where
  "dummy_unique_key v = Inr (dummy_key v)"

type_synonym dummy_round = "(nat, dummy_vote) epoch_vote_submissions"

definition is_vote_inserted :: "unique_bytes_key \<Rightarrow> ('a, 'v) epoch_vote_submissions \<Rightarrow> bool" where
  "is_vote_inserted k s \<longleftrightarrow> submissions s k \<noteq> None"

definition dummy_submissions :: "unique_bytes_key option \<Rightarrow> dummy_round" where
  "dummy_submissions k =
     \<lparr>total_submission_weight = 100, most_voted_key = k, submitters = {},
      submission_weights = Map.empty, submissions = Map.empty\<rparr>"

text \<open>The form that the tests of serialization write by hand, a tuple with the key always present.\<close>

definition test_submissions_serialization :: "unit res" where
  "test_submissions_serialization =
     in_order
       [assert_that (serialize_submissions (dummy_submissions (Some [1, 2, 3])) =
          (100, [1, 2, 3], {}, Map.empty, Map.empty)),
        assert_that (serialize_submissions (dummy_submissions None) = (100, [], {}, Map.empty, Map.empty))]"

text \<open>A HAMT stores the serialized form.\<close>

definition test_submissions_storage :: "unit res" where
  "test_submissions_storage =
     (let sub = dummy_submissions (Some [1, 2, 3, 4]);
          hamt = [''1'' \<mapsto> serialize_submissions sub]
      in and_then (ok_or Panic (hamt ''1'')) (\<lambda>stored.
         let fetched = deserialize_submissions stored
         in in_order
           [assert_that (total_submission_weight fetched = total_submission_weight sub),
            assert_that (most_voted_key fetched = most_voted_key sub),
            assert_that (submitters fetched = submitters sub),
            assert_that (submission_weights fetched = submission_weights sub),
            assert_that (submissions fetched = submissions sub)]))"

definition test_update_submitters :: "unit res" where
  "test_update_submitters =
     and_then (unwrap (update_submitters 0 (new_submissions :: dummy_round))) (\<lambda>s.
     in_order
       [assert_that (has_submitted 0 s),
        assert_that (is_err (update_submitters 0 s))])"

definition test_insert_checkpoint :: "unit res" where
  "test_insert_checkpoint =
     (let ch = \<lparr>dummy_key = [0]\<rparr>
      in and_then (unwrap (dummy_unique_key ch)) (\<lambda>hash.
         and_then (unwrap (insert_vote dummy_unique_key ch (new_submissions :: dummy_round))) (\<lambda>(_, s1).
         and_then (assert_that (is_vote_inserted hash s1)) (\<lambda>_.
         and_then (unwrap (insert_vote dummy_unique_key ch s1)) (\<lambda>(_, s2).
         and_then (ok_or Panic (get_submission hash s2)) (\<lambda>inserted. assert_that (inserted = ch)))))))"

text \<open>One step of \<open>test_update_submission_count\<close>: a vote of weight 1, and what is expected after it.\<close>

definition count_step ::
    "unique_bytes_key \<Rightarrow> token_amount \<Rightarrow> (unique_bytes_key \<times> token_amount) list \<Rightarrow> unique_bytes_key \<Rightarrow>
     dummy_round \<Rightarrow> dummy_round res" where
  "count_step hash most weights winner s =
     and_then (unwrap (update_submission_weight hash 1 s)) (\<lambda>(r, s').
     and_then (in_order
        (assert_that (r = most) #
         map (\<lambda>(k, w). and_then (ok_or Panic (get_submission_weight k s')) (\<lambda>x. assert_that (x = w))) weights @
         [assert_that (most_voted_key s' = Some winner)])) (\<lambda>_.
     Inr s'))"

definition test_update_submission_count :: "unit res" where
  "test_update_submission_count =
     (let hash1 = [1, 2, 1]; hash2 = [1, 2, 2]; s = new_submissions
      in and_then (assert_that (most_voted_key s = None)) (\<lambda>_.
         and_then (count_step hash1 1 [(hash1, 1)] hash1 s) (\<lambda>s.
         and_then (count_step hash2 1 [(hash2, 1), (hash1, 1)] hash1 s) (\<lambda>s.
         and_then (count_step hash2 2 [(hash2, 2)] hash2 s) (\<lambda>s.
         and_then (count_step hash2 3 [(hash2, 3)] hash2 s) (\<lambda>s. Inr ()))))))"

definition status_case ::
    "token_amount \<Rightarrow> token_amount \<Rightarrow> token_amount \<Rightarrow> vote_execution_status \<Rightarrow> unit res" where
  "status_case validators_weight total_submissions most_voted expected =
     (let s = (new_submissions :: dummy_round)\<lparr>total_submission_weight := total_submissions\<rparr>
      in and_then (derive_execution_status validators_weight most_voted (2, 3) s) (\<lambda>status.
         assert_that (status = expected)))"

text \<open>The second case of the test passes the submitted weight for the total weight.\<close>

definition test_derive_execution_status :: "unit res" where
  "test_derive_execution_status =
     in_order
       [status_case 35 10 5 ThresholdNotReached,
        status_case 4 4 2 RoundAbort,
        status_case 5 4 4 ConsensusReached,
        status_case 5 4 3 ReachingConsensus]"

definition dummy_voting :: "(nat, dummy_vote) voting" where
  "dummy_voting =
     \<lparr>genesis_epoch = 1, submission_period = 2, last_voting_executed_epoch = 3,
      executable_epoch_queue = Some {1}, epoch_votes = Map.empty, threshold_ratio = (2, 3)\<rparr>"

definition test_voting_serialization :: "unit res" where
  "test_voting_serialization =
     assert_that (serialize_voting dummy_voting = (1, 2, 3, [1], Map.empty, (2, 3)))"

definition test_voting_storage :: "unit res" where
  "test_voting_storage =
     (let hamt = [''1'' \<mapsto> serialize_voting dummy_voting]
      in and_then (ok_or Panic (hamt ''1'')) (\<lambda>stored.
         let fetched = deserialize_voting stored
         in in_order
           [assert_that (genesis_epoch fetched = genesis_epoch dummy_voting),
            assert_that (submission_period fetched = submission_period dummy_voting),
            assert_that (last_voting_executed_epoch fetched = last_voting_executed_epoch dummy_voting),
            assert_that (executable_epoch_queue fetched = executable_epoch_queue dummy_voting),
            assert_that (epoch_votes fetched = epoch_votes dummy_voting)]))"

lemma test_submissions_serialization_passes: "test_submissions_serialization = Inr ()"
  by (simp add: test_submissions_serialization_def serialize_submissions_def dummy_submissions_def)

lemma test_submissions_storage_passes: "test_submissions_storage = Inr ()"
  by (simp add: test_submissions_storage_def serialize_submissions_def deserialize_submissions_def
      dummy_submissions_def)

lemma test_update_submitters_passes: "test_update_submitters = Inr ()"
  by (simp add: test_update_submitters_def update_submitters_def new_submissions_def has_submitted_def is_err_def)

lemma test_insert_checkpoint_passes: "test_insert_checkpoint = Inr ()"
  by (simp add: test_insert_checkpoint_def insert_vote_def dummy_unique_key_def new_submissions_def
      is_vote_inserted_def get_submission_def)

lemma test_update_submission_count_passes: "test_update_submission_count = Inr ()"
  by (simp add: test_update_submission_count_def count_step_def update_submission_weight_def
      new_submissions_def get_submission_weight_def)

lemma test_derive_execution_status_passes: "test_derive_execution_status = Inr ()"
  by (simp add: test_derive_execution_status_def status_case_def derive_execution_status_def div_floor_def)

lemma test_voting_serialization_passes: "test_voting_serialization = Inr ()"
  by (simp add: test_voting_serialization_def serialize_voting_def dummy_voting_def)

lemma test_voting_storage_passes: "test_voting_storage = Inr ()"
  by (simp add: test_voting_storage_def serialize_voting_def deserialize_voting_def dummy_voting_def)

section \<open>The registry of the coordinator\<close>

text \<open>The hash and the CBOR forms stay arguments: whatever they are, the test passes.\<close>

definition state_works :: "(nat, 'm) coord_externs_scheme \<Rightarrow> unit res" where
  "state_works ext =
     (let rootnet_id = new_subnet_id 123 [];
          exec_id = map (\<lambda>c. of_nat (of_char c)) ''exec_id'';
          a0 = new_ipc_address (new_from_parent rootnet_id 65) 1;
          a1 = new_ipc_address (new_from_parent rootnet_id 66) 1;
          actors = [a0, a1]; k0 = ipc_to_string show_id_addr a0; k1 = ipc_to_string show_id_addr a1
      in and_then (unwrap (modify_atomic_exec ext exec_id actors
           (\<lambda>entry. Inr ((), entry(k0 \<mapsto> 2, k1 \<mapsto> 3))) (new_coordinator 64))) (\<lambda>(_, st).
         and_then (unwrap (modify_atomic_exec ext exec_id actors (\<lambda>entry. Inr (entry, entry)) st)) (\<lambda>(entry, st).
         and_then (in_order [assert_that (entry k0 = Some 2), assert_that (entry k1 = Some 3)]) (\<lambda>_.
         and_then (unwrap (rm_atomic_exec ext exec_id actors st)) (\<lambda>(_, st).
         and_then (unwrap (modify_atomic_exec ext exec_id actors (\<lambda>entry. Inr (entry, entry)) st)) (\<lambda>(entry, _).
         assert_that (dom entry = {})))))))"

lemma dec_actors: "dec 65 = ''65''" "dec 66 = ''66''" "dec 1 = ''1''"
  by (simp_all add: dec.simps digit_char_def char_of_def bit_Suc_0_iff)

lemma state_works_passes: "state_works ext = Inr ()"
  by (simp add: state_works_def modify_atomic_exec_def rm_atomic_exec_def new_coordinator_def Let_def
      ipc_to_string_def new_ipc_address_def new_from_parent_def id_texts dec_actors)

end
