(* ===== verification/Spec2Isabelle.thy ===== *)
theory Spec2Isabelle
  imports Two_Networks Subnet_Props Atomicity_Props Unit_Tests
begin

text \<open>
  A verification development of the actors of hierarchical subnets (IPC): the gateway actor, the
  reference subnet actor, the voting both use, the identifiers and cross-net messages of the SDK, and the
  atomic execution of several actors.

  THE PROGRAM. Every network of the hierarchy runs one gateway (\<open>gateway/\<close>). A subnet actor
  (\<open>subnet-actor/\<close>) governs one child network: members stake collateral, which the actor keeps at the
  gateway, and validators vote for bottom-up checkpoints of the child, which the actor hands to the
  gateway. The gateway keeps, for each child, the collateral, the circulating supply (the funds locked for
  it) and the messages on their way down; it executes the messages of checkpoints, votes for top-down
  checkpoints of the parent, and forwards what is only in transit. The voting rounds are code of
  \<open>common/src/vote/\<close>; identifiers, addresses, messages and validator sets are code of \<open>sdk/\<close>. On top of
  cross-net messages, \<open>atomic-exec/\<close> coordinates executions over several actors: participants lock their
  state with \<open>atomic-exec/primitives/\<close>, pre-commit at the coordinator, and are sent a commit or a
  rollback; \<open>atomic-exec/examples/fungible-token/\<close> is a participant.

  THE THEORIES, in the order they build on each other:
    Prelude            results and errors (\<open>?\<close>, \<open>map_err\<close>, loops that stop at an error), checked
                       arithmetic, token amounts, sums over tables, runs of a step relation, and the
                       interfaces keyed_store, deletable_store and sequential_executor as locales
    Runtime            the message environment, the world of an actor, transactions, sends
    Text_Codec, Subnet_Id, Ipc_Address, Cross, Validator_Set
                       \<open>sdk/src/{subnet_id,address,cross,lib}.rs\<close>
    Submission, Voting \<open>common/src/vote/{submission,voting,mod}.rs\<close>
    Checkpoint         \<open>gateway/src/{checkpoint,types}.rs\<close>
    Gateway_State, Gateway
                       \<open>gateway/src/{state,subnet,lib,cross}.rs\<close>: the state and the handlers
    Gateway_Inv        the invariant of the gateway and its preservation by every handler
    Gateway_Collateral registration and collateral
    Gateway_Funds      circulating supply, solvency and the firewall
    Gateway_Messages   nonces and routes of messages, checkpoints, the postbox
    Gateway_View       what a handler of the gateway changes of the entry of a given subnet
    Gateway_Topdown    the counter of consumed messages of the parent
    Network_Funds      the money of a whole network: what circulates, what its gateway holds, what its
                       checkpoints promise to the parent
    Supply_Accounts    what the parent books for a child, message by message
    Two_Networks       the gateways of a parent and of its child as one system
    Subnet_State, Subnet_Actor
                       \<open>subnet-actor/src/{state,types,lib}.rs\<close>: the state and the handlers
    Subnet_Inv         the stake tables and the chain of committed checkpoints
    Subnet_System      the subnet actor and its gateway as one system, and their agreement
    Subnet_Props       the properties of the subnet actor
    Atomic_Exec, Coordinator
                       \<open>atomic-exec/src/{lib,state,types}.rs\<close> and its properties
    Atomic_Primitives, Exec_Registry
                       \<open>atomic-exec/primitives/src/lib.rs\<close>, the contract of lockable state as a locale,
                       and the properties of the registry
    Token, Token_Actor, Token_Inv, Token_Props
                       \<open>atomic-exec/examples/fungible-token/src/{state,lib}.rs\<close>
    Token_Protocol     the steps of a token as the protocol of atomic executions sees them
    Atomic_Protocol    token, coordinator and gateway together
    Atomic_System, System_Inv
                       any number of tokens and the coordinator as one system, with the messages between
                       them in queues, and its invariant
    Atomicity, Atomic_Progress, Atomic_Runs, Atomicity_Props
                       one participant of one execution as a state machine, the way from the last pledge
                       to the completion, runs that are computed, and the properties of the system
    Unit_Tests         the unit tests of the sources, translated and evaluated on the model

  HOW THE CODE IS MODELLED. A struct is a record and an enum a datatype, with the fields and
  constructors of the source; where a name of the source is taken by the library or by another component,
  it has a prefix or suffix (\<open>add_stake\<close> of the subnet actor is \<open>add_validator_stake\<close>, its \<open>State\<close> is
  \<open>subnet_actor_state\<close>). A HAMT or AMT behind a \<open>TCid\<close> is a map from the typed key. A method on \<open>State\<close> is a
  definition from the state to an error or a result with the new state; a handler takes the functions of
  the linked crates, the sender of the runtime, the message environment, its parameters and the world, and
  \<open>gateway_invoke\<close>, \<open>subnet_invoke\<close>, \<open>coord_invoke\<close> and \<open>token_invoke\<close> are the dispatch of the actors. Errors
  are values: an \<open>ActorError\<close> with its exit code, an \<open>anyhow\<close> error, or a panic; each aborts the message, and
  the runtime then keeps nothing of it. Epochs are integers checked against the range of \<open>i64\<close>, nonces and
  method numbers are 64-bit words with checked increments (the \<open>wasm\<close> profile sets
  \<open>overflow-checks = true\<close>), token amounts are unbounded integers and may be negative.

  PARAMETERS. What the repository links and does not contain is an argument: hashes and CIDs, CBOR forms,
  printing, parsing and resolving addresses, method numbers of FRC-42, and the runtime's \<open>send\<close>
  (records \<open>externs\<close>, \<open>coord_externs\<close>, \<open>exec_externs\<close>, \<open>token_externs\<close>, and the type \<open>sender\<close>). Where a property
  needs more of them it names a hypothesis: a sender pays what it sends and does not call back
  (\<open>sender_pays\<close>), or keeps the invariant (\<open>sender_keeps\<close>, which allows calling back through the handlers);
  method numbers of different names differ (\<open>distinct_methods\<close>); a send pays its
  receiver in the books of the network (\<open>settles\<close>); what was serialized reads back
  (\<open>transfer_forms_ok\<close>), and for whole executions also that hashes do not collide and texts tell addresses
  apart (\<open>protocol_ok\<close>). In Subnet_System and Atomic_Protocol the sends are not assumed: the subnet
  actor's sends run the gateway's handlers and the other way round. In Atomic_System the gateways between
  tokens and coordinator are an ideal transport, queues delivered in order, as the gateway of the
  repository refuses the messages of the protocol for want of a fee
  (\<open>atomic_executions_blocked_by_fee\<close>).

  WHAT IS SHOWN. For the gateway: the state invariant in every reachable state, solvency, the firewall (a
  child cannot take out more than was put in, for amounts that are not negative), the order and uniqueness
  of executed messages and checkpoints, quorums, routing and fees, and how messages in transit and messages
  sent down block those that come after them. Over two networks: a network sends up no more than came
  down to it and was granted to its validators. In the system of a parent and a child, whose validators carry
  the stored messages down in order and true checkpoints of windows that are over up, every coin of
  the child is backed by a locked coin of the parent, so that the firewall stops no checkpoint without such a
  grant, and a run shows that it does stop one with it. For voting: a round implements its
  list of ballots, answers need a quorum, epochs execute in order and without gaps, and with a constant
  total weight the voting never gets stuck. For the subnet actor: its tables agree with each other and
  with the gateway after any history, leaving pays exactly the own stake, the committed checkpoints form a
  chain. For atomic execution: the coordinator implements a ledger of pre-commitments and commits
  exactly when all participants have pre-committed; a prepared state is the initiated one; the token
  conserves its supply (transfers to oneself apart), locks exactly the accounts with a transfer under way,
  and debits no one without authority; over all tokens, executions are all or nothing as long as aborts name
  the participants and no recipient is locked, two runs show that both are needed and the code enforces
  neither, and an execution all have pledged can always be completed. All loops are structural recursions or folds; no fuel is used.
  Several properties state behaviour that the sources do not intend; the manifest lists these findings.

  NOT MODELLED. \<open>State::default\<close> of the subnet actor and \<open>Voting::default\<close>, whose tables have no root in any
  store and which no handler uses; the second \<open>ValidatorSet\<close> in \<open>subnet-actor/src/types.rs\<close>, which is
  the one of the SDK again and unused; the conversions between error types (\<open>gateway/src/error.rs\<close>),
  logging and the texts of errors; gas, the check of the runtime that a handler has validated its caller,
  build scripts, and the integration tests over the mock runtime.
\<close>

end
